(* ===== verification/Prelude.thy ===== *)
theory Prelude
  imports Main "HOL-Library.Word" "HOL-Library.Monad_Syntax" "HOL-Library.Signed_Division"
begin

text \<open>
  Shared vocabulary of the development: the machine's integer types, the flat memory of the
  kernel (32-bit protected mode, no paging: every one of the 2^32 byte addresses can be read
  and written), half-open address ranges taken modulo 2^32, and the generic lemmas on words
  and ranges that the component theories use.

  Conventions: \<open>uint8_t\<close> / \<open>char\<close> is an 8-bit word (\<open>sint\<close> reads a plain \<open>char\<close>, which is
  signed on i686), \<open>uint16_t\<close> a 16-bit word, \<open>uint32_t\<close>, \<open>size_t\<close>, pointers and \<open>int\<close> are 32-bit words.
  A loop whose end the code does not guarantee is a \<open>partial_function\<close>, and the value
  \<open>None\<close> is "does not return".
\<close>

unbundle bit_operations_syntax

type_synonym u8 = "8 word"
type_synonym u16 = "16 word"
type_synonym u32 = "32 word"
type_synonym s32 = "32 word"
type_synonym mem = "u32 \<Rightarrow> u8"

named_theorems mem_simps "reads of a memory after the library's writes"
named_theorems range_intros "introduction rules for address ranges"

abbreviation NULL :: u32 where "NULL \<equiv> 0"

section \<open>Characters\<close>

text \<open>The byte of an ASCII character constant, and the bytes of a string literal.\<close>

definition ch :: "char \<Rightarrow> u8" where
  "ch c = of_nat (of_char c)"

definition lit :: "string \<Rightarrow> u8 list" where
  "lit s = map ch s"

lemma lit_simps [simp]:
  "lit [] = []"
  "lit (c # s) = ch c # lit s"
  by (simp_all add: lit_def)

lemma sint_u8: "sint (c :: u8) = (if uint c < 128 then uint c else uint c - 256)"
proof -
  have lt: "uint c < 256" using unsigned_less [of c] by simp
  have "sint c = (uint c + 128) mod 256 - 128"
    by (simp add: sint_uint signed_take_bit_eq_take_bit_shift take_bit_eq_mod)
  moreover have "(uint c + 128) mod 256 = (uint c + 128 - 256) mod 256"
    by (simp only: minus_mod_self2)
  ultimately show ?thesis using lt by (cases "uint c < 128") simp_all
qed

section \<open>Counting up to a bound\<close>

lemma unat_Suc_less: "i < n \<Longrightarrow> unat (i + 1 :: 'a::len word) = Suc (unat i)"
proof -
  assume "i < n"
  moreover have "unat n < 2 ^ LENGTH('a)" by (rule unsigned_less)
  ultimately have "Suc (unat i) < 2 ^ LENGTH('a)" unfolding word_less_nat_alt by linarith
  then show ?thesis by (simp add: unat_word_ariths)
qed

lemma count_measure [simp]:
  "i < n \<Longrightarrow> unat n - unat (i + 1 :: 'a::len word) < unat n - unat i"
  by (simp add: unat_Suc_less word_less_nat_alt)

text \<open>
  Induction for a loop \<open>for (i = i0; i < n; i++)\<close> with an unsigned counter: it stops when
  \<open>i\<close> reaches the bound \<open>n\<close>, and the counter does not wrap before.
\<close>

lemma count_induct [consumes 1, case_names stop step]:
  fixes i n :: "'a::len word"
  assumes "i \<le> n"
    and stop: "P n"
    and step: "\<And>i. i < n \<Longrightarrow> P (i + 1) \<Longrightarrow> P i"
  shows "P i"
  using assms(1)
proof (induction "unat n - unat i" arbitrary: i)
  case 0
  then have "i = n" by (simp add: word_le_nat_alt word_unat_eq_iff)
  then show ?case using stop by simp
next
  case (Suc d)
  then have lt: "i < n" by (simp add: word_less_nat_alt)
  then have "d = unat n - unat (i + 1)" using Suc.hyps(2) by (simp add: unat_Suc_less)
  moreover have "i + 1 \<le> n" using lt by (rule inc_le)
  ultimately have "P (i + 1)" by (rule Suc.hyps(1))
  then show ?case by (rule step [OF lt])
qed

lemma unat32_less: "unat (a :: u32) < 2 ^ 32"
  using unsigned_less [of a] by simp

lemma unat8_less: "unat (a :: u8) < 256"
  using unsigned_less [of a] by simp

lemma unat_ucast_u8 [simp]: "unat (ucast (a :: u8) :: u32) = unat a"
  using unat8_less [of a] by (simp add: unsigned_ucast_eq take_bit_nat_eq_self)

lemma unat_minus_1_u32 [simp]: "unat (- 1 :: u32) = 4294967295"
  by (simp add: unsigned_minus_1_eq_mask mask_eq_exp_minus_1)

lemma uint_inject [simp]: "uint c = uint d \<longleftrightarrow> c = d"
  by (simp add: word_uint_eq_iff)

section \<open>Address ranges\<close>

text \<open>
  \<open>in_rng p n a\<close>: the address \<open>a\<close> is one of the \<open>n\<close> addresses \<open>p, p + 1, ...\<close>; the
  distance is taken modulo 2^32, so a range may wrap around the top of the address space.
\<close>

definition in_rng :: "u32 \<Rightarrow> nat \<Rightarrow> u32 \<Rightarrow> bool" where
  "in_rng p n a \<longleftrightarrow> unat (a - p) < n"

definition rng_disj :: "u32 \<Rightarrow> nat \<Rightarrow> u32 \<Rightarrow> nat \<Rightarrow> bool" where
  "rng_disj p n q k \<longleftrightarrow> (\<forall>a. \<not> (in_rng p n a \<and> in_rng q k a))"

lemma in_rng_0 [simp]: "\<not> in_rng p 0 a"
  by (simp add: in_rng_def)

lemma in_rng_self [simp]: "in_rng p n p \<longleftrightarrow> 0 < n"
  by (simp add: in_rng_def)

lemma in_rng_mono: "in_rng p n a \<Longrightarrow> n \<le> k \<Longrightarrow> in_rng p k a"
  by (simp add: in_rng_def)

lemma in_rngE:
  assumes "in_rng p n a"
  obtains i where "i < n" and "i < 2 ^ 32" and "a = p + of_nat i"
proof
  show "unat (a - p) < n" using assms by (simp add: in_rng_def)
  show "unat (a - p) < 2 ^ 32"
    using unsigned_less [of "a - p"] by simp
  show "a = p + of_nat (unat (a - p))" by simp
qed

lemma unat_of_nat32: "i < 2 ^ 32 \<Longrightarrow> unat (of_nat i :: u32) = i"
  by (simp add: unat_of_nat)

lemma of_nat_inj32: "i < 2 ^ 32 \<Longrightarrow> j < 2 ^ 32 \<Longrightarrow> (of_nat i :: u32) = of_nat j \<longleftrightarrow> i = j"
  by (metis unat_of_nat32)

lemma unat_diff_eq: "unat (a - p) = unat i \<longleftrightarrow> a = p + i" for a p i :: u32
  by (auto simp: word_unat_eq_iff [symmetric])

lemma le_unat_diff: "unat i \<le> unat (a - p) \<longleftrightarrow> a = p + i \<or> Suc (unat i) \<le> unat (a - p)"
  for a p i :: u32
  using unat_diff_eq [of a p i] by auto

lemma unat_plus_of_nat: "unat p + i < 2 ^ 32 \<Longrightarrow> unat (p + of_nat i :: u32) = unat p + i"
  by (simp add: unat_word_ariths unat_of_nat)

lemma in_rng_of_nat: "i < 2 ^ 32 \<Longrightarrow> in_rng p n (p + of_nat i) \<longleftrightarrow> i < n"
  by (simp add: in_rng_def unat_of_nat32)

lemma in_rng_of_natI [range_intros]: "i < n \<Longrightarrow> in_rng p n (p + of_nat i)"
  by (cases "i < 2 ^ 32")
     (simp_all add: in_rng_of_nat in_rng_def unat_of_nat take_bit_eq_mod
        order.strict_trans1 [OF mod_less_eq_dividend])

lemma in_rng_Suc: "in_rng p (Suc n) a \<longleftrightarrow> a = p \<or> in_rng (p + 1) n a"
proof (cases "a = p")
  case False
  then have "a - p \<noteq> 0" by simp
  then have "unat (a - p) = Suc (unat (a - p - 1))"
    by (metis add.commute diff_add_cancel unatSuc)
  then show ?thesis using False by (simp add: in_rng_def diff_diff_add)
qed simp

lemma in_rng_Suc_end: "in_rng p (Suc n) a \<Longrightarrow> a \<noteq> p + of_nat n \<Longrightarrow> in_rng p n a"
  by (erule in_rngE) (metis in_rng_of_natI less_SucE)

lemma in_rng_shift:
  assumes "in_rng (p + of_nat k) n a" and "k + n \<le> l"
  shows "in_rng p l a"
proof -
  obtain i where "i < n" "a = p + of_nat k + of_nat i" using assms(1) by (rule in_rngE)
  then show ?thesis using in_rng_of_natI [of "k + i" l p] assms(2) by (simp add: add.assoc)
qed

lemma rng_disj_sym: "rng_disj p n q k \<Longrightarrow> rng_disj q k p n"
  by (auto simp: rng_disj_def)

lemma rng_disjD: "rng_disj p n q k \<Longrightarrow> in_rng p n a \<Longrightarrow> \<not> in_rng q k a"
  by (auto simp: rng_disj_def)

lemma rng_disjD2: "rng_disj p n q k \<Longrightarrow> in_rng q k a \<Longrightarrow> \<not> in_rng p n a"
  by (auto simp: rng_disj_def)

lemma rng_disj_mono:
  "rng_disj p n q k \<Longrightarrow> n' \<le> n \<Longrightarrow> k' \<le> k \<Longrightarrow> rng_disj p n' q k'"
  by (meson in_rng_mono rng_disj_def)

text \<open>Two ranges that do not wrap are disjoint when one ends before the other starts.\<close>

lemma in_rng_unat:
  assumes "unat p + n \<le> 2 ^ 32"
  shows "in_rng p n a \<longleftrightarrow> unat p \<le> unat a \<and> unat a < unat p + n"
proof (cases "p \<le> a")
  case True
  then show ?thesis
    using unat_mono by (auto simp: in_rng_def unat_sub word_le_nat_alt)
next
  case False
  then have lt: "unat a < unat p" by (simp add: word_le_nat_alt)
  have "unat (a - p) = 2 ^ 32 + unat a - unat p"
    using False by (simp add: unat_sub_if_size word_size word_le_nat_alt)
  then show ?thesis using lt assms by (auto simp: in_rng_def)
qed

lemma rng_disj_unatI:
  assumes "unat p + n \<le> 2 ^ 32" and "unat q + k \<le> 2 ^ 32"
    and "unat p + n \<le> unat q \<or> unat q + k \<le> unat p"
  shows "rng_disj p n q k"
  using assms by (auto simp: rng_disj_def in_rng_unat)

text \<open>Two ranges at offsets from the same address.\<close>

lemma rng_disj_offsets:
  assumes "i + n \<le> j" and "j + k \<le> 2 ^ 32"
  shows "rng_disj (p + of_nat i) n (p + of_nat j) k"
  unfolding rng_disj_def
proof (intro allI notI, elim conjE)
  fix a assume "in_rng (p + of_nat i) n a" "in_rng (p + of_nat j) k a"
  then obtain x y where "x < n" "a = p + of_nat i + of_nat x" "y < k" "a = p + of_nat j + of_nat y"
    by (auto elim!: in_rngE)
  then have "(of_nat (i + x) :: u32) = of_nat (j + y)" by (simp add: add.assoc)
  then have "i + x = j + y" using \<open>x < n\<close> \<open>y < k\<close> assms of_nat_inj32 [of "i + x" "j + y"] by simp
  then show False using \<open>x < n\<close> assms(1) by simp
qed

section \<open>Signed division\<close>

text \<open>
  C's \<open>/\<close> and \<open>%\<close> on \<open>int\<close> truncate towards zero. The processor's \<open>idiv\<close> faults on a zero
  divisor and on the one quotient that does not fit, \<open>INT_MIN / -1\<close>; the kernel installs no
  fault handler, so a fault does not return: \<open>None\<close>.
\<close>

definition idiv_faults :: "s32 \<Rightarrow> s32 \<Rightarrow> bool" where
  "idiv_faults a b \<longleftrightarrow> b = 0 \<or> sint a = - (2 ^ 31) \<and> sint b = -1"

definition c_div :: "s32 \<Rightarrow> s32 \<Rightarrow> s32 option" where
  "c_div a b = (if idiv_faults a b then None else Some (word_of_int (sint a sdiv sint b)))"

definition c_mod :: "s32 \<Rightarrow> s32 \<Rightarrow> s32 option" where
  "c_mod a b = (if idiv_faults a b then None else Some (word_of_int (sint a smod sint b)))"

lemma sint_of_nat32: "n < 2 ^ 31 \<Longrightarrow> sint (of_nat n :: s32) = int n"
  by (simp add: signed_of_nat signed_take_bit_int_eq_self)

lemma sint_pred:
  assumes "0 < sint (x :: s32)"
  shows "sint (x - 1) = sint x - 1"
proof -
  define k where "k = nat (sint x)"
  have k: "sint x = int k" "0 < k" "k < 2 ^ 31"
    using assms sint_lt [of x] by (simp_all add: k_def nat_less_iff)
  have "x = of_nat k" by (metis k(1) of_int_of_nat_eq of_int_sint scast_id)
  then have "x - 1 = of_nat (k - 1)" using k(2) by (simp add: of_nat_diff)
  then show ?thesis using k sint_of_nat32 [of "k - 1"] by simp
qed

lemma count_down_measure [simp]:
  "0 < sint (x :: s32) \<Longrightarrow> nat (sint (x - 1)) < nat (sint x)"
  by (simp add: sint_pred)

lemma c_div_of_nat:
  assumes "n < 2 ^ 31" and "b < 2 ^ 31" and "0 < b"
  shows "c_div (of_nat n) (of_nat b) = Some (of_nat (n div b))"
proof -
  have "\<not> idiv_faults (of_nat n) (of_nat b)"
    using assms sint_of_nat32 [of n] sint_of_nat32 [of b] by (auto simp: idiv_faults_def)
  moreover have "int n sdiv int b = int (n div b)"
    using assms(3) by (simp add: signed_divide_int_def sgn_if zdiv_int)
  ultimately show ?thesis using assms by (simp add: c_div_def sint_of_nat32)
qed

lemma c_mod_of_nat:
  assumes "n < 2 ^ 31" and "b < 2 ^ 31" and "0 < b"
  shows "c_mod (of_nat n) (of_nat b) = Some (of_nat (n mod b))"
proof -
  have "\<not> idiv_faults (of_nat n) (of_nat b)"
    using assms sint_of_nat32 [of n] sint_of_nat32 [of b] by (auto simp: idiv_faults_def)
  moreover have "int n smod int b = int (n mod b)"
    by (simp add: smod_mod_positive zmod_int)
  ultimately show ?thesis using assms by (simp add: c_mod_def sint_of_nat32)
qed

section \<open>Option results\<close>

lemma bind_SomeD: "Option.bind x f = Some r \<Longrightarrow> \<exists>y. x = Some y \<and> f y = Some r"
  by (cases x) auto

end
