(* ===== verification/Memory.thy ===== *)
theory Memory
  imports Prelude
begin

text \<open>
  The block operations of \<open>src/src/kernel/libs/System/system.c\<close> (\<open>memset\<close>, \<open>memcpy\<close>, \<open>memcmp\<close>)
  over the flat memory, with closed forms of what they write; and the abstract view of a block
  of memory the string theories use: \<open>bytes_at m p n\<close>, the \<open>n\<close> bytes from \<open>p\<close>, and
  \<open>cstr m p s\<close>, "the C string at \<open>p\<close> is \<open>s\<close>".
\<close>

section \<open>Blocks and C strings\<close>

definition bytes_at :: "mem \<Rightarrow> u32 \<Rightarrow> nat \<Rightarrow> u8 list" where
  "bytes_at m p n = map (\<lambda>i. m (p + of_nat i)) [0..<n]"

lemma length_bytes_at [simp]: "length (bytes_at m p n) = n"
  by (simp add: bytes_at_def)

lemma nth_bytes_at [simp]: "i < n \<Longrightarrow> bytes_at m p n ! i = m (p + of_nat i)"
  by (simp add: bytes_at_def)

lemma bytes_at_eqI:
  "length xs = n \<Longrightarrow> (\<And>i. i < n \<Longrightarrow> m (p + of_nat i) = xs ! i) \<Longrightarrow> bytes_at m p n = xs"
  by (rule nth_equalityI) auto

lemma bytes_at_cong:
  "(\<And>a. in_rng p n a \<Longrightarrow> m a = m' a) \<Longrightarrow> bytes_at m p n = bytes_at m' p n"
  by (simp add: bytes_at_def in_rng_of_natI)

fun cstr :: "mem \<Rightarrow> u32 \<Rightarrow> u8 list \<Rightarrow> bool" where
  "cstr m p [] \<longleftrightarrow> m p = 0"
| "cstr m p (c # s) \<longleftrightarrow> m p = c \<and> c \<noteq> 0 \<and> cstr m (p + 1) s"

lemma cstr_iff:
  "cstr m p s \<longleftrightarrow> (\<forall>i < length s. m (p + of_nat i) = s ! i \<and> s ! i \<noteq> 0) \<and> m (p + of_nat (length s)) = 0"
proof (induction s arbitrary: p)
  case (Cons c s)
  have "(\<forall>i < length (c # s). m (p + of_nat i) = (c # s) ! i \<and> (c # s) ! i \<noteq> 0) \<longleftrightarrow>
        m p = c \<and> c \<noteq> 0 \<and> (\<forall>i < length s. m (p + 1 + of_nat i) = s ! i \<and> s ! i \<noteq> 0)"
    by (auto simp: less_Suc_eq_0_disj add.assoc)
  then show ?case by (auto simp: Cons.IH add.assoc)
qed simp

lemma cstr_nth: "cstr m p s \<Longrightarrow> i < length s \<Longrightarrow> m (p + of_nat i) = s ! i"
  by (simp add: cstr_iff)

lemma cstr_nonzero: "cstr m p s \<Longrightarrow> c \<in> set s \<Longrightarrow> c \<noteq> 0"
  by (auto simp: cstr_iff in_set_conv_nth)

lemma cstr_end: "cstr m p s \<Longrightarrow> m (p + of_nat (length s)) = 0"
  by (simp add: cstr_iff)

text \<open>The address space bounds the length of a C string: past 2^32 bytes it would wrap
  onto its own non-zero bytes.\<close>

lemma cstr_length: "cstr m p s \<Longrightarrow> length s < 2 ^ 32"
proof (rule ccontr)
  assume c: "cstr m p s" and "\<not> length s < 2 ^ 32"
  then have le: "2 ^ 32 \<le> length s" by simp
  define j where "j = length s - 2 ^ 32"
  have len: "length s = j + 2 ^ 32" and j: "j < length s"
    using le by (simp_all add: j_def)
  have "of_nat (length s) = (of_nat j :: u32) + of_nat (2 ^ 32)"
    by (simp only: len of_nat_add)
  also have "of_nat (2 ^ 32) = (0 :: u32)" by simp
  finally have "m (p + of_nat j) = 0" using cstr_end [OF c] by simp
  then show False using c j by (simp add: cstr_iff)
qed

lemma cstr_unat_length: "cstr m p s \<Longrightarrow> unat (of_nat (length s) :: u32) = length s"
  by (rule unat_of_nat32) (rule cstr_length)

lemma cstr_cong:
  assumes "cstr m p s" and "\<And>a. in_rng p (Suc (length s)) a \<Longrightarrow> m' a = m a"
  shows "cstr m' p s"
  using assms by (auto simp: cstr_iff in_rng_of_natI)

lemma cstr_unique: "cstr m p s \<Longrightarrow> cstr m p t \<Longrightarrow> s = t"
proof (induction s arbitrary: p t)
  case Nil
  then show ?case by (cases t) auto
next
  case (Cons c s)
  then show ?case by (cases t) auto
qed

lemma cstr_append:
  "cstr m p (s @ t) \<longleftrightarrow> (\<forall>i < length s. m (p + of_nat i) = s ! i \<and> s ! i \<noteq> 0) \<and>
     cstr m (p + of_nat (length s)) t"
proof (induction s arbitrary: p)
  case (Cons c s)
  then show ?case by (auto simp: less_Suc_eq_0_disj add.assoc)
qed simp

text \<open>Every address starts a C string exactly when the memory holds a NUL byte.\<close>

lemma cstr_exists:
  assumes "m a = 0"
  shows "\<exists>s. cstr m p s"
proof -
  define n where "n = (LEAST n. m (p + of_nat n) = 0)"
  have ex: "m (p + of_nat (unat (a - p))) = 0" using assms by simp
  have z: "m (p + of_nat n) = 0" unfolding n_def by (rule LeastI [of _ "unat (a - p)"]) (rule ex)
  have nz: "m (p + of_nat i) \<noteq> 0" if "i < n" for i
    using not_less_Least [of i "\<lambda>n. m (p + of_nat n) = 0"] that by (simp add: n_def)
  have "cstr m p (bytes_at m p n)" using z nz by (simp add: cstr_iff)
  then show ?thesis ..
qed

text \<open>The memory with the bytes \<open>xs\<close> stored from \<open>p\<close> on.\<close>

definition store :: "mem \<Rightarrow> u32 \<Rightarrow> u8 list \<Rightarrow> mem" where
  "store m p xs = (\<lambda>a. if in_rng p (length xs) a then xs ! unat (a - p) else m a)"

lemma store_Nil [simp]: "store m p [] = m"
  by (simp add: store_def)

lemma store_outside [mem_simps]: "\<not> in_rng p (length xs) a \<Longrightarrow> store m p xs a = m a"
  by (simp add: store_def)

lemma store_inside [mem_simps]:
  "i < length xs \<Longrightarrow> length xs \<le> 2 ^ 32 \<Longrightarrow> store m p xs (p + of_nat i) = xs ! i"
  by (simp add: store_def in_rng_of_natI unat_of_nat32)

lemma store_Cons:
  assumes "length (x # xs) \<le> 2 ^ 32"
  shows "store m p (x # xs) = store (m(p := x)) (p + 1) xs"
proof
  fix a
  show "store m p (x # xs) a = store (m(p := x)) (p + 1) xs a"
  proof (cases "a = p")
    case True
    have "\<not> in_rng (p + 1) (length xs) p" using assms by (simp add: in_rng_def)
    then show ?thesis using True by (simp add: store_def)
  next
    case False
    then have "a - p \<noteq> 0" by simp
    then have "unat (a - p) = Suc (unat (a - (p + 1)))"
      by (metis add.commute diff_add_cancel diff_diff_add unatSuc)
    then show ?thesis using False by (auto simp: store_def in_rng_def)
  qed
qed

lemma store_store_same: "length xs = length ys \<Longrightarrow> store (store m p xs) p ys = store m p ys"
  by (auto simp: store_def)

lemma store_update:
  assumes "i < length xs" and "length xs \<le> 2 ^ 32"
  shows "(store m p xs)(p + of_nat i := x) = store m p (xs[i := x])"
proof
  fix a
  have "unat (a - p) = i \<longleftrightarrow> a = p + of_nat i"
    using unat_diff_eq [of a p "of_nat i"] assms by (simp add: unat_of_nat32)
  then show "((store m p xs)(p + of_nat i := x)) a = store m p (xs[i := x]) a"
    using assms(1) by (auto simp: store_def in_rng_def nth_list_update)
qed

lemma store_snoc:
  assumes "length xs < 2 ^ 32"
  shows "(store m p xs)(p + of_nat (length xs) := x) = store m p (xs @ [x])"
proof
  fix a
  have "unat (a - p) = length xs \<longleftrightarrow> a = p + of_nat (length xs)"
    using unat_diff_eq [of a p "of_nat (length xs)"] assms by (simp add: unat_of_nat32)
  then show "((store m p xs)(p + of_nat (length xs) := x)) a = store m p (xs @ [x]) a"
    by (auto simp: store_def in_rng_def nth_append)
qed

lemma bytes_at_store: "length xs \<le> 2 ^ 32 \<Longrightarrow> bytes_at (store m p xs) p (length xs) = xs"
  by (rule bytes_at_eqI) (simp_all add: store_inside)

lemma cstr_store:
  "0 \<notin> set s \<Longrightarrow> length s < 2 ^ 32 \<Longrightarrow> cstr (store m p (s @ [0])) p s"
  unfolding cstr_iff using store_inside [of _ "s @ [0]" m p]
  by (auto simp: nth_append in_set_conv_nth)

section \<open>memset\<close>

text \<open>\<open>for (i = 0; i < num; i++) p[i] = (uint8_t)value\<close>\<close>

function memset_loop :: "mem \<Rightarrow> u32 \<Rightarrow> s32 \<Rightarrow> u32 \<Rightarrow> u32 \<Rightarrow> mem" where
  "memset_loop m p value num i =
     (if i < num then memset_loop (m(p + i := ucast value)) p value num (i + 1) else m)"
  by pat_completeness auto
termination
  by (relation "measure (\<lambda>(m, p, v, num, i). unat num - unat i)")
     auto

declare memset_loop.simps [simp del]

definition memset :: "mem \<Rightarrow> u32 \<Rightarrow> s32 \<Rightarrow> u32 \<Rightarrow> u32 \<times> mem" where
  "memset m ptr value num = (ptr, memset_loop m ptr value num 0)"

lemma memset_loop_eq:
  assumes "i \<le> num"
  shows "memset_loop m p v num i =
    (\<lambda>a. if unat i \<le> unat (a - p) \<and> unat (a - p) < unat num then ucast v else m a)"
  using assms
proof (induction arbitrary: m rule: count_induct)
  case stop
  show ?case by (auto simp: memset_loop.simps [of m p v num num] fun_eq_iff)
next
  case (step i)
  show ?case
    using step by (auto simp: memset_loop.simps [of m p v num i] unat_Suc_less word_less_nat_alt
      fun_eq_iff le_unat_diff)
qed

lemma memset_eq [mem_simps]:
  "memset m p v num = (p, \<lambda>a. if in_rng p (unat num) a then ucast v else m a)"
  by (simp add: memset_def memset_loop_eq in_rng_def)

section \<open>memcpy\<close>

text \<open>
  The body is one \<open>rep movsb\<close>: byte by byte upwards, \<open>edi\<close> and \<open>esi\<close> incremented and \<open>ecx\<close>
  decremented until it is 0. The operands are \<open>"+D"(dest)\<close>, \<open>"+S"(src)\<close>, \<open>"+c"(n)\<close>, so the C
  variable \<open>dest\<close> that is returned holds the final \<open>edi\<close>.
\<close>

function rep_movsb :: "mem \<Rightarrow> u32 \<Rightarrow> u32 \<Rightarrow> u32 \<Rightarrow> mem \<times> u32 \<times> u32" where
  "rep_movsb m edi esi ecx =
     (if ecx = 0 then (m, edi, esi)
      else rep_movsb (m(edi := m esi)) (edi + 1) (esi + 1) (ecx - 1))"
  by pat_completeness auto
termination
  by (relation "measure (\<lambda>(m, d, s, c). unat c)") (auto simp: unat_minus_one unat_gt_0)

declare rep_movsb.simps [simp del]

definition memcpy :: "mem \<Rightarrow> u32 \<Rightarrow> u32 \<Rightarrow> u32 \<Rightarrow> u32 \<times> mem" where
  "memcpy m dest src n = (case rep_movsb m dest src n of (m', edi, esi) \<Rightarrow> (edi, m'))"

text \<open>
  The copy is right when no byte of the source is overwritten before it is read: the
  destination is the source itself, or does not start inside it. A destination below an
  overlapping source is fine.
\<close>

definition copy_safe :: "u32 \<Rightarrow> u32 \<Rightarrow> nat \<Rightarrow> bool" where
  "copy_safe d s n \<longleftrightarrow> d = s \<or> n \<le> unat (d - s)"

lemma copy_safe_disj: "rng_disj d n s n \<Longrightarrow> copy_safe d s n"
  by (cases "n = 0") (auto simp: copy_safe_def rng_disj_def in_rng_def not_less [symmetric])

lemma rep_movsb_eq:
  assumes "copy_safe d s (unat n)"
  shows "rep_movsb m d s n =
    ((\<lambda>a. if in_rng d (unat n) a then m (s + (a - d)) else m a), d + n, s + n)"
  using assms
proof (induction "unat n" arbitrary: m d s n)
  case 0
  then have "n = 0" by (simp add: unat_eq_zero)
  then show ?case by (simp add: rep_movsb.simps)
next
  case (Suc k)
  then have n0: "n \<noteq> 0" by auto
  then have k: "k = unat (n - 1)" using Suc.hyps(2) by (simp add: unat_minus_one)
  have un: "unat n = Suc (unat (n - 1))" using Suc.hyps(2) k by simp
  have safe: "copy_safe (d + 1) (s + 1) (unat (n - 1))"
    using Suc.prems un by (auto simp: copy_safe_def)
  let ?m = "m(d := m s)"
  have src: "?m (s + (a - d)) = m (s + (a - d))" if "in_rng d (unat n) a" for a
  proof (cases "d = s")
    case False
    then have "unat (a - d) < unat (d - s)"
      using that Suc.prems by (simp add: copy_safe_def in_rng_def)
    then have "s + (a - d) \<noteq> d" by (metis add_diff_cancel_left' less_irrefl)
    then show ?thesis by simp
  qed simp
  show ?case
    using n0 src Suc.hyps(1) [OF k safe, of ?m]
    by (auto simp: rep_movsb.simps [of m d s n] fun_eq_iff un in_rng_Suc)
qed

lemma memcpy_eq:
  "copy_safe d s (unat n) \<Longrightarrow>
   memcpy m d s n = (d + n, \<lambda>a. if in_rng d (unat n) a then m (s + (a - d)) else m a)"
  by (simp add: memcpy_def rep_movsb_eq)

section \<open>memcmp\<close>

text \<open>
  A routine that only reads its operands takes, for each pointer, the memory it points into:
  the kernel's memory, or that of a string literal (\<open>lit_mem\<close>), which lies at offset 0 of an
  object of its own and is followed by its NUL.
\<close>

definition lit_mem :: "u8 list \<Rightarrow> mem" where
  "lit_mem s = (\<lambda>a. if unat a < length s then s ! unat a else 0)"

lemma cstr_lit_mem:
  assumes "0 \<notin> set s" and "length s < 2 ^ 32"
  shows "cstr (lit_mem s) 0 s"
  unfolding cstr_iff lit_mem_def using assms
  by (auto simp: unat_of_nat32 in_set_conv_nth)

lemma bytes_at_lit: "length s < 2 ^ 32 \<Longrightarrow> bytes_at (lit_mem s) 0 (length s) = s"
  by (rule nth_equalityI) (simp_all add: lit_mem_def unat_of_nat32)

function memcmp_loop :: "mem \<Rightarrow> u32 \<Rightarrow> mem \<Rightarrow> u32 \<Rightarrow> u32 \<Rightarrow> u32 \<Rightarrow> int" where
  "memcmp_loop m1 p1 m2 p2 n i =
     (if i < n then
        if m1 (p1 + i) \<noteq> m2 (p2 + i) then uint (m1 (p1 + i)) - uint (m2 (p2 + i))
        else memcmp_loop m1 p1 m2 p2 n (i + 1)
      else 0)"
  by pat_completeness auto
termination
  by (relation "measure (\<lambda>(m1, p, m2, q, n, i). unat n - unat i)") auto

declare memcmp_loop.simps [simp del]

definition memcmp :: "mem \<Rightarrow> u32 \<Rightarrow> mem \<Rightarrow> u32 \<Rightarrow> u32 \<Rightarrow> int" where
  "memcmp m1 s1 m2 s2 n = memcmp_loop m1 s1 m2 s2 n 0"

lemma memcmp_loop_cases:
  assumes "i \<le> n"
  shows "(\<exists>j. i \<le> j \<and> j < n \<and> (\<forall>k. i \<le> k \<and> k < j \<longrightarrow> m (p + k) = m2 (q + k)) \<and>
            m (p + j) \<noteq> m2 (q + j) \<and>
            memcmp_loop m p m2 q n i = uint (m (p + j)) - uint (m2 (q + j))) \<or>
         (\<forall>k. i \<le> k \<and> k < n \<longrightarrow> m (p + k) = m2 (q + k)) \<and> memcmp_loop m p m2 q n i = 0"
  using assms
proof (induction rule: count_induct)
  case stop
  show ?case by (auto simp: memcmp_loop.simps [of m p m2 q n n])
next
  case (step i)
  have split: "i \<le> k \<longleftrightarrow> k = i \<or> i + 1 \<le> k" for k
    using step(1) by (auto simp: word_le_nat_alt unat_Suc_less word_unat_eq_iff)
  show ?case
  proof (cases "m (p + i) = m2 (q + i)")
    case False
    then show ?thesis using step(1)
      by (intro disjI1 exI [of _ i]) (auto simp: memcmp_loop.simps [of m p m2 q n i])
  next
    case True
    then have "memcmp_loop m p m2 q n i = memcmp_loop m p m2 q n (i + 1)"
      using step(1) by (simp add: memcmp_loop.simps [of m p m2 q n i])
    then show ?thesis using step(2) True by (auto simp: split)
  qed
qed

text \<open>
  \<open>memcmp\<close> is 0 exactly on equal blocks; otherwise its sign is the order of the first
  bytes that differ, compared as unsigned.
\<close>

lemma memcmp_zero_iff: "memcmp m p m2 q n = 0 \<longleftrightarrow> (\<forall>k < n. m (p + k) = m2 (q + k))"
  using memcmp_loop_cases [of 0 n m p m2 q]
  by (auto simp: memcmp_def)

lemma memcmp_bytes_at:
  "memcmp m p m2 q n = 0 \<longleftrightarrow> bytes_at m p (unat n) = bytes_at m2 q (unat n)"
proof -
  have "(\<forall>k < n. m (p + k) = m2 (q + k)) \<longleftrightarrow> (\<forall>i < unat n. m (p + of_nat i) = m2 (q + of_nat i))"
    (is "?L \<longleftrightarrow> ?R")
  proof
    show "?R" if "?L"
    proof (intro allI impI)
      fix i assume "i < unat n"
      then have "(of_nat i :: u32) < n"
        by (simp add: word_less_nat_alt unat_of_nat order.strict_trans1 [OF mod_less_eq_dividend])
      then show "m (p + of_nat i) = m2 (q + of_nat i)" using that by blast
    qed
    show "?L" if "?R"
    proof (intro allI impI)
      fix k assume "k < n"
      then have "unat k < unat n" by (simp add: word_less_nat_alt)
      then have "m (p + of_nat (unat k)) = m2 (q + of_nat (unat k))" using that by blast
      then show "m (p + k) = m2 (q + k)" by simp
    qed
  qed
  then show ?thesis by (auto simp: memcmp_zero_iff list_eq_iff_nth_eq)
qed

lemma memcmp_lit:
  assumes "unat n = k" and "length s = k"
  shows "memcmp m p (lit_mem s) 0 n = 0 \<longleftrightarrow> bytes_at m p k = s"
    and "memcmp (lit_mem s) 0 m p n = 0 \<longleftrightarrow> bytes_at m p k = s"
  using bytes_at_lit [of s] unat32_less [of n] assms by (auto simp: memcmp_bytes_at)

section \<open>Little-endian accesses\<close>

definition load16 :: "mem \<Rightarrow> u32 \<Rightarrow> u16" where
  "load16 m p = ucast (m p) OR push_bit 8 (ucast (m (p + 1)))"

definition load32 :: "mem \<Rightarrow> u32 \<Rightarrow> u32" where
  "load32 m p = ucast (m p) OR push_bit 8 (ucast (m (p + 1))) OR
     push_bit 16 (ucast (m (p + 2))) OR push_bit 24 (ucast (m (p + 3)))"

definition store16 :: "mem \<Rightarrow> u32 \<Rightarrow> u16 \<Rightarrow> mem" where
  "store16 m p v = m(p := ucast v, p + 1 := ucast (drop_bit 8 v))"

definition store32 :: "mem \<Rightarrow> u32 \<Rightarrow> u32 \<Rightarrow> mem" where
  "store32 m p v = m(p := ucast v, p + 1 := ucast (drop_bit 8 v),
     p + 2 := ucast (drop_bit 16 v), p + 3 := ucast (drop_bit 24 v))"

lemma near_addresses [simp]:
  "p \<noteq> p + 1" "p \<noteq> p + 2" "p \<noteq> p + 3" "p + 1 \<noteq> p + 2" "p + 1 \<noteq> p + 3" "p + 2 \<noteq> p + 3"
  "p + 1 \<noteq> p" "p + 2 \<noteq> p" "p + 3 \<noteq> p" "p + 2 \<noteq> p + 1" "p + 3 \<noteq> p + 1" "p + 3 \<noteq> p + 2"
  for p :: u32
  by simp_all

lemma bytes_of_u32:
  "ucast (ucast v :: u8) OR push_bit 8 (ucast (ucast (drop_bit 8 v) :: u8)) OR
   push_bit 16 (ucast (ucast (drop_bit 16 v) :: u8)) OR
   push_bit 24 (ucast (ucast (drop_bit 24 v) :: u8)) = (v :: u32)"
proof (rule bit_word_eqI)
  fix n assume "n < LENGTH(32)"
  then consider "n < 8" | "8 \<le> n \<and> n < 16" | "16 \<le> n \<and> n < 24" | "24 \<le> n \<and> n < 32"
    by fastforce
  then show "bit (ucast (ucast v :: u8) OR push_bit 8 (ucast (ucast (drop_bit 8 v) :: u8)) OR
   push_bit 16 (ucast (ucast (drop_bit 16 v) :: u8)) OR
   push_bit 24 (ucast (ucast (drop_bit 24 v) :: u8)) :: u32) n = bit v n"
    by cases (auto simp: bit_simps)
qed

lemma load32_store32 [mem_simps]: "load32 (store32 m p v) p = v"
  by (simp add: load32_def store32_def bytes_of_u32)

lemma bytes_of_u16: "ucast (ucast v :: u8) OR push_bit 8 (ucast (ucast (drop_bit 8 v) :: u8)) = (v :: u16)"
  by (rule bit_word_eqI) (auto simp: bit_simps not_less dest: bit_imp_le_length)

lemma load16_store16 [mem_simps]: "load16 (store16 m p v) p = v"
  by (simp add: load16_def store16_def bytes_of_u16)

lemma half_cells: "in_rng p 2 a \<longleftrightarrow> a = p \<or> a = p + 1"
  using in_rng_Suc [of p "Suc 0" a] in_rng_Suc [of "p + 1" 0 a]
  by (simp only: numeral_2_eq_2 [symmetric] in_rng_0 simp_thms)

lemma word_cells: "in_rng p 4 a \<longleftrightarrow> a = p \<or> a = p + 1 \<or> a = p + 2 \<or> a = p + 3"
proof -
  have "in_rng p 4 a \<longleftrightarrow> a = p \<or> in_rng (p + 1) 3 a" using in_rng_Suc [of p 3 a] by simp
  moreover have "in_rng (p + 1) 3 a \<longleftrightarrow> a = p + 1 \<or> in_rng (p + 2) 2 a"
    using in_rng_Suc [of "p + 1" 2 a] by (simp add: add.assoc)
  ultimately show ?thesis by (simp add: half_cells add.assoc)
qed

lemma store32_outside [mem_simps]: "\<not> in_rng p 4 a \<Longrightarrow> store32 m p v a = m a"
  by (simp add: store32_def word_cells)

lemma store16_outside [mem_simps]: "\<not> in_rng p 2 a \<Longrightarrow> store16 m p v a = m a"
  by (simp add: store16_def half_cells)

lemma load32_cong: "(\<And>a. in_rng p 4 a \<Longrightarrow> m' a = m a) \<Longrightarrow> load32 m' p = load32 m p"
  by (simp add: load32_def word_cells)

lemma load16_cong: "(\<And>a. in_rng p 2 a \<Longrightarrow> m' a = m a) \<Longrightarrow> load16 m' p = load16 m p"
  by (simp add: load16_def half_cells)

lemma load32_other: "rng_disj p 4 q 4 \<Longrightarrow> load32 (store32 m p v) q = load32 m q"
  by (rule load32_cong) (metis rng_disjD2 store32_outside)

end
