(* ===== verification/CStrings.thy ===== *)
theory CStrings
  imports Memory
begin

text \<open>
  The C string routines of \<open>libs/System/system.c\<close> and \<open>libs/System/standard.c\<close>. Each loop is
  translated as it stands; a loop bounded only by the string's NUL is a partial function.
  For each routine: what it computes on C strings, and that it returns there.
\<close>

section \<open>strlen\<close>

partial_function (option) strlen_loop :: "mem \<Rightarrow> u32 \<Rightarrow> u32 \<Rightarrow> u32 option" where
  "strlen_loop m str len = (if m (str + len) \<noteq> 0 then strlen_loop m str (len + 1) else Some len)"

definition strlen :: "mem \<Rightarrow> u32 \<Rightarrow> u32 option" where
  "strlen m str = strlen_loop m str 0"

lemma strlen_loop_cstr:
  "cstr m (str + len) s \<Longrightarrow> strlen_loop m str len = Some (len + of_nat (length s))"
proof (induction s arbitrary: len)
  case Nil
  then show ?case by (simp add: strlen_loop.simps)
next
  case (Cons c s)
  then have "m (str + len) \<noteq> 0" by auto
  then have "strlen_loop m str len = strlen_loop m str (len + 1)"
    by (subst strlen_loop.simps) simp
  also have "\<dots> = Some (len + 1 + of_nat (length s))"
    using Cons by (intro Cons.IH) (auto simp: add.assoc)
  finally show ?case by (simp add: add.assoc)
qed

lemma strlen_cstr: "cstr m p s \<Longrightarrow> strlen m p = Some (of_nat (length s))"
  using strlen_loop_cstr [of m p 0 s] by (simp add: strlen_def)

lemma strlen_loop_SomeD:
  assumes "strlen_loop m str len = Some r"
  shows "m (str + r) = 0"
  by (rule strlen_loop.raw_induct [where P = "\<lambda>m str len r. m (str + r) = 0", OF _ assms])
     (auto split: if_splits)

lemma strlen_diverges_iff: "strlen m p = None \<longleftrightarrow> (\<forall>a. m a \<noteq> 0)"
proof
  assume none: "strlen m p = None"
  show "\<forall>a. m a \<noteq> 0"
  proof (intro allI notI)
    fix a assume "m a = 0"
    then obtain s where "cstr m p s" using cstr_exists by blast
    then show False using none by (simp add: strlen_cstr)
  qed
next
  assume nz: "\<forall>a. m a \<noteq> 0"
  show "strlen m p = None"
  proof (rule ccontr)
    assume "strlen m p \<noteq> None"
    then obtain r where "strlen_loop m p 0 = Some r" by (auto simp: strlen_def)
    then show False using strlen_loop_SomeD nz by blast
  qed
qed

section \<open>strcmp and strncmp\<close>

partial_function (option) strcmp :: "mem \<Rightarrow> u32 \<Rightarrow> mem \<Rightarrow> u32 \<Rightarrow> int option" where
  "strcmp m1 str1 m2 str2 =
     (if m1 str1 \<noteq> 0 \<and> m1 str1 = m2 str2 then strcmp m1 (str1 + 1) m2 (str2 + 1)
      else Some (uint (m1 str1) - uint (m2 str2)))"

function strncmp_loop :: "mem \<Rightarrow> u32 \<Rightarrow> mem \<Rightarrow> u32 \<Rightarrow> u32 \<Rightarrow> u32 \<Rightarrow> int" where
  "strncmp_loop m1 s1 m2 s2 n i =
     (if i < n then
        if m1 (s1 + i) \<noteq> m2 (s2 + i) then uint (m1 (s1 + i)) - uint (m2 (s2 + i))
        else if m1 (s1 + i) = 0 then 0
        else strncmp_loop m1 s1 m2 s2 n (i + 1)
      else 0)"
  by pat_completeness auto
termination
  by (relation "measure (\<lambda>(m1, p, m2, q, n, i). unat n - unat i)") auto

declare strncmp_loop.simps [simp del]

definition strncmp :: "mem \<Rightarrow> u32 \<Rightarrow> mem \<Rightarrow> u32 \<Rightarrow> u32 \<Rightarrow> int" where
  "strncmp m1 s1 m2 s2 n = strncmp_loop m1 s1 m2 s2 n 0"

text \<open>The order of C strings as byte lists: the first difference decides, and a proper
  prefix is smaller.\<close>

fun str_diff :: "u8 list \<Rightarrow> u8 list \<Rightarrow> int" where
  "str_diff [] [] = 0"
| "str_diff [] (d # t) = - uint d"
| "str_diff (c # s) [] = uint c"
| "str_diff (c # s) (d # t) = (if c = d then str_diff s t else uint c - uint d)"

lemma str_diff_zero: "0 \<notin> set s \<Longrightarrow> 0 \<notin> set t \<Longrightarrow> str_diff s t = 0 \<longleftrightarrow> s = t"
  by (induction s t rule: str_diff.induct) (auto simp: unsigned_eq_0_iff)

lemma str_diff_antisym: "str_diff t s = - str_diff s t"
  by (induction s t rule: str_diff.induct) auto

lemma strcmp_cstr:
  "cstr m1 p s \<Longrightarrow> cstr m2 q t \<Longrightarrow> strcmp m1 p m2 q = Some (str_diff s t)"
proof (induction s t arbitrary: p q rule: str_diff.induct)
  case (4 c s d t)
  show ?case
  proof (cases "c = d")
    case True
    with 4 show ?thesis by (subst strcmp.simps) auto
  next
    case False
    with 4 show ?thesis by (subst strcmp.simps) auto
  qed
qed (subst strcmp.simps, auto)+

lemma strcmp_eq_iff:
  assumes "cstr m1 p s" and "cstr m2 q t"
  shows "strcmp m1 p m2 q = Some 0 \<longleftrightarrow> s = t"
proof -
  have "0 \<notin> set s" "0 \<notin> set t" using cstr_nonzero assms by blast+
  then show ?thesis using assms by (simp add: strcmp_cstr str_diff_zero)
qed

lemma strncmp_loop_cstr:
  assumes "cstr m1 (p + i) s" and "cstr m2 (q + i) t" and "i \<le> n"
  shows "strncmp_loop m1 p m2 q n i = str_diff (take (unat n - unat i) s) (take (unat n - unat i) t)"
  using assms(3) assms(1,2)
proof (induction arbitrary: s t rule: count_induct)
  case stop
  show ?case by (simp add: strncmp_loop.simps [of m1 p m2 q n n])
next
  case (step i)
  obtain k where k: "unat n - unat i = Suc k" and k': "unat n - unat (i + 1) = k"
    using step(1) by (metis Suc_diff_Suc unat_Suc_less word_less_nat_alt)
  show ?case
  proof (cases s; cases t)
    fix c s' d t' assume st: "s = c # s'" "t = d # t'"
    then have "strncmp_loop m1 p m2 q n (i + 1) = str_diff (take k s') (take k t')"
      using step(2) [of s' t'] step(3,4) k' by (simp add: add.assoc)
    then show ?thesis using step st k by (auto simp: strncmp_loop.simps [of m1 p m2 q n i])
  qed (use step k in \<open>auto simp: strncmp_loop.simps [of m1 p m2 q n i]\<close>)
qed

lemma strncmp_cstr:
  "cstr m1 p s \<Longrightarrow> cstr m2 q t \<Longrightarrow>
   strncmp m1 p m2 q n = str_diff (take (unat n) s) (take (unat n) t)"
  using strncmp_loop_cstr [of m1 p 0 s m2 q t n] by (simp add: strncmp_def)

lemma strncmp_zeroD:
  assumes "strncmp m1 p m2 q n = 0" and "0 < n"
  shows "m1 p = m2 q"
  using assms by (simp add: strncmp_def strncmp_loop.simps [of m1 p m2 q n 0] split: if_splits)

section \<open>strcpy and strcat\<close>

text \<open>\<open>while ((*dest++ = *src++));\<close> copies up to and including the NUL.\<close>

partial_function (option) copy_string :: "mem \<Rightarrow> u32 \<Rightarrow> u32 \<Rightarrow> mem option" where
  "copy_string m dest src =
     (let c = m src; m' = m(dest := c)
      in if c \<noteq> 0 then copy_string m' (dest + 1) (src + 1) else Some m')"

definition strcpy :: "mem \<Rightarrow> u32 \<Rightarrow> u32 \<Rightarrow> (u32 \<times> mem) option" where
  "strcpy m dest src = do { m' \<leftarrow> copy_string m dest src; Some (dest, m') }"

partial_function (option) find_end :: "mem \<Rightarrow> u32 \<Rightarrow> u32 option" where
  "find_end m dest = (if m dest \<noteq> 0 then find_end m (dest + 1) else Some dest)"

definition strcat :: "mem \<Rightarrow> u32 \<Rightarrow> u32 \<Rightarrow> (u32 \<times> mem) option" where
  "strcat m dest src = do {
     e \<leftarrow> find_end m dest;
     m' \<leftarrow> copy_string m e src;
     Some (dest, m')
   }"

text \<open>The memory after \<open>n\<close> bytes are copied from \<open>s\<close> to \<open>d\<close>.\<close>

definition copied :: "mem \<Rightarrow> u32 \<Rightarrow> u32 \<Rightarrow> nat \<Rightarrow> mem" where
  "copied m d s n = (\<lambda>a. if in_rng d n a then m (s + (a - d)) else m a)"

lemma copied_outside [mem_simps]: "\<not> in_rng d n a \<Longrightarrow> copied m d s n a = m a"
  by (simp add: copied_def)

lemma copied_inside [mem_simps]: "i < n \<Longrightarrow> copied m d s n (d + of_nat i) = m (s + of_nat i)"
  by (simp add: copied_def in_rng_of_natI)

lemma cstr_copied:
  assumes "cstr m s t"
  shows "cstr (copied m d s (Suc (length t))) d t"
  using assms by (auto simp: cstr_iff copied_inside)

lemma copied_Suc:
  assumes "copy_safe d s (Suc n)"
  shows "copied (m(d := m s)) (d + 1) (s + 1) n = copied m d s (Suc n)"
proof
  fix a
  show "copied (m(d := m s)) (d + 1) (s + 1) n a = copied m d s (Suc n) a"
  proof (cases "in_rng (d + 1) n a \<and> d \<noteq> s")
    case True
    then have "unat (a - d) < Suc n" by (auto simp: in_rng_Suc simp flip: in_rng_def)
    then have "unat (a - d) < unat (d - s)"
      using assms True by (auto simp: copy_safe_def)
    then have "s + (a - d) \<noteq> d" by (metis add_diff_cancel_left' less_irrefl)
    then show ?thesis using True by (simp add: copied_def in_rng_Suc algebra_simps)
  qed (auto simp: copied_def in_rng_Suc algebra_simps)
qed

lemma copy_safe_step: "copy_safe d s (Suc n) \<Longrightarrow> copy_safe (d + 1) (s + 1) n"
  by (auto simp: copy_safe_def)

lemma copy_string_cstr:
  "cstr m s t \<Longrightarrow> copy_safe d s (Suc (length t)) \<Longrightarrow>
   copy_string m d s = Some (copied m d s (Suc (length t)))"
proof (induction t arbitrary: m d s)
  case Nil
  then show ?case
    by (subst copy_string.simps) (auto simp: copied_def Let_def in_rng_Suc fun_eq_iff)
next
  case (Cons c t)
  let ?m = "m(d := m s)"
  have c: "cstr ?m (s + 1) t"
  proof (rule cstr_cong)
    show "cstr m (s + 1) t" using Cons.prems by simp
    fix a assume "in_rng (s + 1) (Suc (length t)) a"
    then have lt: "unat (a - s) < length (c # t) + 1" by (auto simp: in_rng_Suc simp flip: in_rng_def)
    show "?m a = m a"
    proof (cases "d = s")
      case False
      then have "unat (a - s) < unat (d - s)"
        using lt Cons.prems(2) by (simp add: copy_safe_def)
      then show ?thesis by auto
    qed simp
  qed
  have "copy_string m d s = copy_string ?m (d + 1) (s + 1)"
    using Cons.prems by (subst copy_string.simps) (auto simp: Let_def)
  also have "\<dots> = Some (copied ?m (d + 1) (s + 1) (Suc (length t)))"
    by (rule Cons.IH [OF c copy_safe_step]) (use Cons.prems in simp)
  finally show ?case
    using Cons.prems(2) copied_Suc [of d s "Suc (length t)" m] by simp
qed

lemma strcpy_cstr:
  assumes "cstr m s t" and "copy_safe d s (Suc (length t))"
  shows "strcpy m d s = Some (d, copied m d s (Suc (length t)))"
  using copy_string_cstr [OF assms] by (simp add: strcpy_def)

lemma find_end_cstr: "cstr m p s \<Longrightarrow> find_end m p = Some (p + of_nat (length s))"
proof (induction s arbitrary: p)
  case (Cons c s)
  then have "find_end m p = find_end m (p + 1)" by (subst find_end.simps) auto
  then show ?case using Cons by (simp add: add.assoc)
qed (simp add: find_end.simps)

lemma strcat_cstr:
  assumes a: "cstr m d s" and b: "cstr m q t"
    and disj: "rng_disj d (length s + length t + 1) q (length t + 1)"
  defines "m' \<equiv> copied m (d + of_nat (length s)) q (Suc (length t))"
  shows "strcat m d q = Some (d, m')" and "cstr m' d (s @ t)"
    and "\<And>x. \<not> in_rng d (length s + length t + 1) x \<Longrightarrow> m' x = m x"
proof -
  let ?e = "d + of_nat (length s)"
  have in_e: "in_rng d (length s + length t + 1) x" if "in_rng ?e (Suc (length t)) x" for x
    using that
  proof (elim in_rngE)
    fix i assume "i < Suc (length t)" and "x = ?e + of_nat i"
    then show ?thesis
      using in_rng_of_natI [of "length s + i" "length s + length t + 1" d] by (simp add: add.assoc)
  qed
  have "copy_safe ?e q (Suc (length t))"
  proof (rule copy_safe_disj)
    show "rng_disj ?e (Suc (length t)) q (Suc (length t))"
      using disj in_e by (auto simp: rng_disj_def)
  qed
  then show "strcat m d q = Some (d, m')"
    using a b by (simp add: strcat_def find_end_cstr copy_string_cstr m'_def)
  show "m' x = m x" if "\<not> in_rng d (length s + length t + 1) x" for x
    using that in_e by (auto simp: m'_def copied_def)
  have len: "length s + length t + 1 \<le> 2 ^ 32"
  proof (rule ccontr)
    assume "\<not> ?thesis"
    then have "in_rng d (length s + length t + 1) q"
      using unat32_less [of "q - d"] by (simp add: in_rng_def)
    then show False using disj by (auto simp: rng_disj_def)
  qed
  have "m' (d + of_nat i) = s ! i \<and> s ! i \<noteq> 0" if "i < length s" for i
  proof -
    have "\<not> in_rng ?e (Suc (length t)) (d + of_nat i)"
    proof
      assume "in_rng ?e (Suc (length t)) (d + of_nat i)"
      then obtain j where j: "j < Suc (length t)" and "d + of_nat i = ?e + of_nat j"
        by (elim in_rngE)
      then have "(of_nat i :: u32) = of_nat (length s + j)" by simp
      then have "i = length s + j"
        using that j len unat_of_nat32 [of i] unat_of_nat32 [of "length s + j"] by simp
      then show False using that by simp
    qed
    then show ?thesis using a that by (simp add: m'_def copied_outside cstr_iff)
  qed
  then show "cstr m' d (s @ t)"
    using cstr_copied [OF b, of ?e] by (simp add: cstr_append m'_def)
qed

section \<open>strncpy\<close>

function strncpy_pad :: "mem \<Rightarrow> u32 \<Rightarrow> u32 \<Rightarrow> u32 \<Rightarrow> mem" where
  "strncpy_pad m dest n i = (if i < n then strncpy_pad (m(dest + i := 0)) dest n (i + 1) else m)"
  by pat_completeness auto
termination
  by (relation "measure (\<lambda>(m, d, n, i). unat n - unat i)") auto

function strncpy_copy :: "mem \<Rightarrow> u32 \<Rightarrow> u32 \<Rightarrow> u32 \<Rightarrow> u32 \<Rightarrow> u32 \<times> mem" where
  "strncpy_copy m dest src n i =
     (if i < n \<and> m (src + i) \<noteq> 0
      then strncpy_copy (m(dest + i := m (src + i))) dest src n (i + 1)
      else (i, m))"
  by pat_completeness auto
termination
  by (relation "measure (\<lambda>(m, d, s, n, i). unat n - unat i)") auto

declare strncpy_pad.simps [simp del] strncpy_copy.simps [simp del]

definition strncpy :: "mem \<Rightarrow> u32 \<Rightarrow> u32 \<Rightarrow> u32 \<Rightarrow> u32 \<times> mem" where
  "strncpy m dest src n =
     (case strncpy_copy m dest src n 0 of (i, m1) \<Rightarrow> (dest, strncpy_pad m1 dest n i))"

lemma strncpy_pad_memset: "i \<le> n \<Longrightarrow> strncpy_pad m d n i = memset_loop m d 0 n i"
proof (induction arbitrary: m rule: count_induct)
  case stop
  show ?case by (simp add: strncpy_pad.simps [of m d n n] memset_loop.simps [of m d 0 n n])
next
  case (step i)
  then show ?case
    by (simp add: strncpy_pad.simps [of m d n i] memset_loop.simps [of m d 0 n i] fun_upd_def)
qed

lemma strncpy_copy_cstr:
  assumes "i \<le> n" and "unat i \<le> length s" and "cstr m q s"
    and "rng_disj d (unat n) q (Suc (length s))"
  defines "k \<equiv> min (unat n) (length s)"
  shows "strncpy_copy m d q n i =
    (of_nat k, \<lambda>a. if unat i \<le> unat (a - d) \<and> unat (a - d) < k then m (q + (a - d)) else m a)"
  using assms(1-3)
proof (induction arbitrary: m rule: count_induct)
  case stop
  then have "unat n = k" by (simp add: k_def)
  then have "of_nat k = n" by auto
  with \<open>unat n = k\<close> show ?case by (auto simp: strncpy_copy.simps [of m d q n n] fun_eq_iff)
next
  case (step i)
  have qi: "m (q + i) = 0 \<longleftrightarrow> unat i = length s"
  proof (cases "unat i = length s")
    case True
    then have "i = of_nat (length s)" by (simp flip: True)
    then show ?thesis using True cstr_end [OF step.prems(2)] by simp
  next
    case False
    then have "unat i < length s" using step.prems(1) by simp
    then show ?thesis using step.prems(2) False by (auto simp: cstr_iff dest: spec [of _ "unat i"])
  qed
  show ?case
  proof (cases "unat i = length s")
    case True
    then have "unat i = k" using step(1) by (simp add: k_def word_less_nat_alt)
    then have "of_nat k = i" by auto
    with \<open>unat i = k\<close> show ?thesis
      using qi True by (auto simp: strncpy_copy.simps [of m d q n i] fun_eq_iff)
  next
    case False
    then have lt: "unat i < length s" using step.prems(1) by simp
    define m1 where "m1 = m(d + i := m (q + i))"
    have di: "in_rng d (unat n) (d + i)" using step(1) by (simp add: in_rng_def word_less_nat_alt)
    have same: "m1 a = m a" if "in_rng q (Suc (length s)) a" for a
      using rng_disjD [OF assms(4) di] that by (auto simp: m1_def)
    have src: "m1 (q + (a - d)) = m (q + (a - d))" if "unat (a - d) < k" for a
      by (rule same) (use that in \<open>simp add: in_rng_def k_def\<close>)
    have m1: "m1 (d + i) = m (q + i)" "a \<noteq> d + i \<Longrightarrow> m1 a = m a" for a
      by (simp_all add: m1_def)
    have ik: "unat i < k" using step(1) lt by (simp add: k_def word_less_nat_alt)
    have far: "m1 a = m a" if "\<not> unat (a - d) < k" for a
      using ik that by (auto intro!: m1(2))
    have "strncpy_copy m d q n i = strncpy_copy m1 d q n (i + 1)"
      using step(1) lt qi by (simp add: strncpy_copy.simps [of m d q n i] m1_def)
    also have "\<dots> = (of_nat k, \<lambda>a. if unat (i + 1) \<le> unat (a - d) \<and> unat (a - d) < k
        then m1 (q + (a - d)) else m1 a)"
      using step(1) lt same
      by (intro step(2) cstr_cong [OF step.prems(2)]) (simp_all add: unat_Suc_less)
    also have "\<dots> = (of_nat k, \<lambda>a. if unat i \<le> unat (a - d) \<and> unat (a - d) < k
        then m (q + (a - d)) else m a)"
      using step(1) ik by (auto simp: fun_eq_iff src m1 far le_unat_diff unat_Suc_less)
    finally show ?thesis .
  qed
qed

text \<open>\<open>strncpy\<close> writes exactly \<open>n\<close> bytes: the string's, then zeros; no NUL when it has \<open>n\<close> or more.\<close>

lemma strncpy_cstr:
  assumes "cstr m q s" and "rng_disj d (unat n) q (Suc (length s))"
  shows "strncpy m d q n = (d, \<lambda>a. if in_rng d (unat n) a
           then if unat (a - d) < length s then m (q + (a - d)) else 0 else m a)"
proof -
  let ?k = "min (unat n) (length s)"
  have k: "unat (of_nat ?k :: u32) = ?k"
    by (rule unat_of_nat32) (use unat32_less [of n] in simp)
  then have "of_nat ?k \<le> n" by (simp add: word_le_nat_alt)
  then show ?thesis
    using assms k
    by (auto simp: strncpy_def strncpy_copy_cstr strncpy_pad_memset memset_loop_eq in_rng_def
        fun_eq_iff)
qed

section \<open>strspn and strpbrk\<close>

text \<open>The inner loop both routines share: \<open>for (a = accept; *a != '\\0'; ++a) if (*p == *a) ...\<close>
  stops at the first byte of the set that equals \<open>c\<close>, or at the set's NUL.\<close>

partial_function (option) scan_set :: "u8 \<Rightarrow> mem \<Rightarrow> u32 \<Rightarrow> u32 option" where
  "scan_set c ma a =
     (if ma a \<noteq> 0 then if c = ma a then Some a else scan_set c ma (a + 1) else Some a)"

partial_function (option) strspn_loop :: "mem \<Rightarrow> u32 \<Rightarrow> mem \<Rightarrow> u32 \<Rightarrow> u32 \<Rightarrow> u32 option" where
  "strspn_loop m p ma accept count =
     (if m p \<noteq> 0 then
        do { a \<leftarrow> scan_set (m p) ma accept;
             if ma a = 0 then Some count else strspn_loop m (p + 1) ma accept (count + 1) }
      else Some count)"

definition strspn :: "mem \<Rightarrow> u32 \<Rightarrow> mem \<Rightarrow> u32 \<Rightarrow> u32 option" where
  "strspn m str ma accept = strspn_loop m str ma accept 0"

partial_function (option) strpbrk :: "mem \<Rightarrow> u32 \<Rightarrow> mem \<Rightarrow> u32 \<Rightarrow> u32 option" where
  "strpbrk m str md delimiters =
     (if m str \<noteq> 0 then
        do { d \<leftarrow> scan_set (m str) md delimiters;
             if md d \<noteq> 0 then Some str else strpbrk m (str + 1) md delimiters }
      else Some NULL)"

lemma scan_set_cstr:
  "cstr ma a s \<Longrightarrow> c \<noteq> 0 \<Longrightarrow> \<exists>r. scan_set c ma a = Some r \<and> (ma r = 0 \<longleftrightarrow> c \<notin> set s)"
proof (induction s arbitrary: a)
  case Nil
  then show ?case by (auto simp: scan_set.simps)
next
  case (Cons x s)
  show ?case
  proof (cases "c = x")
    case True
    with Cons.prems show ?thesis by (subst scan_set.simps) auto
  next
    case False
    with Cons show ?thesis by (subst scan_set.simps) auto
  qed
qed

lemma strspn_loop_cstr:
  assumes "cstr ma accept A"
  shows "cstr m p s \<Longrightarrow>
    strspn_loop m p ma accept n = Some (n + of_nat (length (takeWhile (\<lambda>c. c \<in> set A) s)))"
proof (induction s arbitrary: p n)
  case Nil
  then show ?case by (simp add: strspn_loop.simps)
next
  case (Cons c s)
  obtain r where r: "scan_set c ma accept = Some r" "ma r = 0 \<longleftrightarrow> c \<notin> set A"
    using scan_set_cstr [OF assms, of c] Cons.prems by auto
  have "strspn_loop m p ma accept n =
    (if c \<in> set A then strspn_loop m (p + 1) ma accept (n + 1) else Some n)"
    using Cons.prems r by (subst strspn_loop.simps) auto
  then show ?case using Cons by (simp add: algebra_simps)
qed

lemma strspn_cstr:
  "cstr ma accept A \<Longrightarrow> cstr m p s \<Longrightarrow>
   strspn m p ma accept = Some (of_nat (length (takeWhile (\<lambda>c. c \<in> set A) s)))"
  by (simp add: strspn_def strspn_loop_cstr)

lemma strpbrk_cstr:
  assumes "cstr md delims D"
  shows "cstr m p s \<Longrightarrow>
    strpbrk m p md delims =
      Some (if \<exists>c \<in> set s. c \<in> set D then p + of_nat (length (takeWhile (\<lambda>c. c \<notin> set D) s))
            else NULL)"
proof (induction s arbitrary: p)
  case Nil
  then show ?case by (simp add: strpbrk.simps)
next
  case (Cons c s)
  obtain r where r: "scan_set c md delims = Some r" "md r = 0 \<longleftrightarrow> c \<notin> set D"
    using scan_set_cstr [OF assms, of c] Cons.prems by auto
  have "strpbrk m p md delims =
    (if c \<in> set D then Some p else strpbrk m (p + 1) md delims)"
    using Cons.prems r by (subst strpbrk.simps) auto
  then show ?case using Cons by (simp add: algebra_simps)
qed

end
