(* ===== verification/Tokenizer.thy ===== *)
theory Tokenizer
  imports CStrings
begin

text \<open>
  \<open>strtok\<close> of \<open>libs/System/system.c\<close>, with its static \<open>saved_token\<close>, and \<open>split_command\<close> of
  \<open>kernel.c\<close>, which calls it until it returns \<open>NULL\<close>. The abstract specification is
  \<open>tokens D s\<close>: the maximal runs of non-delimiters of \<open>s\<close>, in order.
\<close>

section \<open>The model\<close>

record tok_state =
  tok_mem :: mem
  saved_token :: u32

definition strtok :: "tok_state \<Rightarrow> u32 \<Rightarrow> mem \<Rightarrow> u32 \<Rightarrow> (u32 \<times> tok_state) option" where
  "strtok st str0 md delimiters =
     (if str0 = NULL \<and> saved_token st = NULL then Some (NULL, st)
      else
        let m = tok_mem st; str1 = (if str0 = NULL then saved_token st else str0)
        in do {
          n \<leftarrow> strspn m str1 md delimiters;
          let token_start = str1 + n;
          if m token_start = 0 then Some (NULL, st\<lparr>saved_token := NULL\<rparr>)
          else do {
            str \<leftarrow> strpbrk m token_start md delimiters;
            if str = NULL then Some (token_start, st\<lparr>saved_token := NULL\<rparr>)
            else Some (token_start, st\<lparr>tok_mem := m(str := 0), saved_token := str + 1\<rparr>)
          }
        })"

text \<open>
  \<open>args[arg_count++] = token\<close> stores a pointer into the caller's array, whose address is \<open>args\<close>;
  nothing in the code compares \<open>arg_count\<close> with the size of that array.
\<close>

partial_function (option) split_loop ::
  "tok_state \<Rightarrow> u32 \<Rightarrow> u32 \<Rightarrow> s32 \<Rightarrow> (s32 \<times> tok_state) option" where
  "split_loop st token args arg_count =
     (if token \<noteq> NULL then
        do { (token', st') \<leftarrow> strtok (st\<lparr>tok_mem := store32 (tok_mem st) (args + 4 * arg_count) token\<rparr>) NULL
               (lit_mem [ch CHR '' '']) 0;
             split_loop st' token' args (arg_count + 1) }
      else Some (arg_count, st))"

definition split_command :: "tok_state \<Rightarrow> u32 \<Rightarrow> u32 \<Rightarrow> (s32 \<times> tok_state) option" where
  "split_command st command args = do {
     (token, st') \<leftarrow> strtok st command (lit_mem [ch CHR '' '']) 0;
     split_loop st' token args 0
   }"

section \<open>Specification\<close>

definition skip_delims :: "u8 set \<Rightarrow> u8 list \<Rightarrow> u8 list" where
  "skip_delims D s = dropWhile (\<lambda>c. c \<in> D) s"

definition first_run :: "u8 set \<Rightarrow> u8 list \<Rightarrow> u8 list" where
  "first_run D s = takeWhile (\<lambda>c. c \<notin> D) (skip_delims D s)"

definition after_run :: "u8 set \<Rightarrow> u8 list \<Rightarrow> u8 list" where
  "after_run D s = dropWhile (\<lambda>c. c \<notin> D) (skip_delims D s)"

lemma skip_delims_length: "length (skip_delims D s) \<le> length s"
  by (simp add: skip_delims_def length_dropWhile_le)

lemma after_run_length: "skip_delims D s \<noteq> [] \<Longrightarrow> length (tl (after_run D s)) < length s"
proof -
  assume ne: "skip_delims D s \<noteq> []"
  have "length (after_run D s) \<le> length (skip_delims D s)"
    by (simp add: after_run_def length_dropWhile_le)
  then show ?thesis using ne skip_delims_length [of D s]
    by (cases "after_run D s") (auto simp: length_greater_0_conv intro: le_less_trans)
qed

function tokens :: "u8 set \<Rightarrow> u8 list \<Rightarrow> u8 list list" where
  "tokens D s = (if skip_delims D s = [] then []
                 else first_run D s # tokens D (tl (after_run D s)))"
  by pat_completeness auto
termination
  by (relation "measure (\<lambda>(D, s). length s)") (auto simp: after_run_length simp del: length_tl)

declare tokens.simps [simp del]

lemma split_at_run:
  "s = takeWhile (\<lambda>c. c \<in> D) s @ first_run D s @ after_run D s"
  by (simp add: first_run_def after_run_def skip_delims_def)

lemma after_run_hd: "after_run D s = c # r \<Longrightarrow> c \<in> D"
  by (metis after_run_def hd_dropWhile list.distinct(1) list.sel(1))

lemma first_run_delims: "c \<in> set (first_run D s) \<Longrightarrow> c \<notin> D"
  by (auto simp: first_run_def dest: set_takeWhileD)

text \<open>What \<open>tokens\<close> means: no token is empty or holds a delimiter, and the tokens without
  separators are the non-delimiters of the text.\<close>

lemma tokens_wf: "t \<in> set (tokens D s) \<Longrightarrow> t \<noteq> [] \<and> set t \<inter> D = {}"
proof (induction D s rule: tokens.induct)
  case (1 D s)
  show ?case
  proof (cases "skip_delims D s = []")
    case False
    then have "first_run D s \<noteq> []"
      using hd_dropWhile [of "\<lambda>c. c \<in> D" s]
      by (cases "skip_delims D s") (auto simp: first_run_def skip_delims_def)
    then show ?thesis using 1 False first_run_delims by (auto simp: tokens.simps [of D s])
  qed (use 1 in \<open>simp add: tokens.simps [of D s]\<close>)
qed

lemma concat_tokens: "concat (tokens D s) = filter (\<lambda>c. c \<notin> D) s"
proof (induction D s rule: tokens.induct)
  case (1 D s)
  have f: "filter (\<lambda>c. c \<notin> D) s = first_run D s @ filter (\<lambda>c. c \<notin> D) (after_run D s)"
  proof -
    have "filter (\<lambda>c. c \<notin> D) (takeWhile (\<lambda>c. c \<in> D) s) = []"
      by (auto simp: filter_empty_conv dest: set_takeWhileD)
    moreover have "filter (\<lambda>c. c \<notin> D) (first_run D s) = first_run D s"
      by (auto simp: filter_id_conv first_run_delims)
    ultimately show ?thesis
      by (subst split_at_run [of s D]) (simp only: filter_append append_Nil)
  qed
  have tl: "filter (\<lambda>c. c \<notin> D) (after_run D s) = filter (\<lambda>c. c \<notin> D) (tl (after_run D s))"
    using after_run_hd [of D s] by (cases "after_run D s") auto
  show ?case
  proof (cases "skip_delims D s = []")
    case True
    then show ?thesis using f by (simp add: tokens.simps [of D s] first_run_def after_run_def)
  next
    case False
    then show ?thesis using 1 f tl by (simp add: tokens.simps [of D s])
  qed
qed

section \<open>One call of strtok\<close>

lemma strtok_cstr:
  assumes d: "cstr md dl D"
    and p: "p = (if str0 = NULL then saved_token st else str0)" "p \<noteq> NULL"
    and c: "cstr (tok_mem st) p s" and nowrap: "unat p + length s < 2 ^ 32"
  defines "q \<equiv> p + of_nat (length (takeWhile (\<lambda>c. c \<in> set D) s))"
    and "t \<equiv> first_run (set D) s" and "r \<equiv> after_run (set D) s"
  shows "strtok st str0 md dl =
    (if skip_delims (set D) s = [] then Some (NULL, st\<lparr>saved_token := NULL\<rparr>)
     else if r = [] then Some (q, st\<lparr>saved_token := NULL\<rparr>)
     else Some (q, st\<lparr>tok_mem := (tok_mem st)(q + of_nat (length t) := 0),
                     saved_token := q + of_nat (length t) + 1\<rparr>))"
proof -
  let ?m = "tok_mem st" and ?k = "length (takeWhile (\<lambda>c. c \<in> set D) s)"
  have s: "s = takeWhile (\<lambda>c. c \<in> set D) s @ t @ r" unfolding t_def r_def by (rule split_at_run)
  have sk: "skip_delims (set D) s = t @ r"
    by (simp add: t_def r_def first_run_def after_run_def)
  have q: "cstr ?m q (t @ r)" using c unfolding q_def by (subst (asm) s) (simp add: cstr_append)
  have span: "strspn ?m p md dl = Some (of_nat ?k)" using strspn_cstr [OF d c] .
  have brk: "strpbrk ?m q md dl = Some (if r \<noteq> [] then q + of_nat (length t) else NULL)"
  proof -
    have "(\<exists>c \<in> set (t @ r). c \<in> set D) \<longleftrightarrow> r \<noteq> []"
      using first_run_delims [of _ "set D" s] after_run_hd [of "set D" s]
      unfolding t_def r_def by (cases "after_run (set D) s") auto
    moreover have "takeWhile (\<lambda>c. c \<notin> set D) (t @ r) = t"
      unfolding sk [symmetric] by (simp add: t_def first_run_def)
    ultimately show ?thesis using strpbrk_cstr [OF d q] by simp
  qed
  have end_nz: "q + of_nat (length t) \<noteq> NULL"
  proof -
    have "length s = ?k + length t + length r" by (subst s) simp
    then have "unat (p + of_nat (?k + length t)) = unat p + (?k + length t)"
      using nowrap by (intro unat_plus_of_nat) simp
    moreover have "0 < unat p" using p(2) by (simp add: unat_gt_0)
    ultimately have "unat (p + of_nat (?k + length t)) \<noteq> 0" by simp
    then show ?thesis by (auto simp: q_def add.assoc)
  qed
  have mq: "?m q = 0 \<longleftrightarrow> t @ r = []"
    using q by (cases "t @ r") auto
  show ?thesis
    using p span brk end_nz mq by (auto simp: strtok_def Let_def sk q_def)
qed

section \<open>Splitting a command\<close>

lemma strtok_exhausted: "saved_token st = NULL \<Longrightarrow> strtok st NULL md dl = Some (NULL, st)"
  by (simp add: strtok_def)

lemma split_loop_end [simp]: "split_loop st NULL args n = Some (n, st)"
  by (simp add: split_loop.simps)

lemma split_loop_step:
  "token \<noteq> NULL \<Longrightarrow> split_loop st token args n =
     do { (token', st') \<leftarrow> strtok (st\<lparr>tok_mem := store32 (tok_mem st) (args + 4 * n) token\<rparr>) NULL
            (lit_mem [ch CHR '' '']) 0;
          split_loop st' token' args (n + 1) }"
  by (simp add: split_loop.simps)

lemma cstr_space: "cstr (lit_mem [ch CHR '' '']) 0 [ch CHR '' '']"
  by (rule cstr_lit_mem) (simp_all add: ch_def)

text \<open>What the NUL that \<open>strtok\<close> writes over a delimiter leaves: the token as a C string, the
  rest of the text as another, and nothing that is written later can touch the token.\<close>

lemma cut_token:
  assumes c: "cstr m q (t @ d # r)" and nowrap: "unat q + length (t @ d # r) < 2 ^ 32"
  defines "e \<equiv> q + of_nat (length t)"
  shows "cstr (m(e := 0)) q t" and "cstr (m(e := 0)) (e + 1) r"
    and "e + 1 \<noteq> NULL" and "unat (e + 1) + length r < 2 ^ 32"
    and "\<And>a. in_rng q (Suc (length t)) a \<Longrightarrow> \<not> in_rng (e + 1) (length r) a"
    and "\<And>a. \<not> in_rng q (length (t @ d # r)) a \<Longrightarrow> \<not> in_rng (e + 1) (length r) a \<and> a \<noteq> e"
proof -
  have uq: "unat (q + of_nat i) = unat q + i" if "i \<le> length (t @ d # r)" for i
    by (rule unat_plus_of_nat) (use that nowrap in linarith)
  have ue: "unat e = unat q + length t" unfolding e_def by (rule uq) simp
  have e1: "e + 1 = q + of_nat (Suc (length t))" by (simp add: e_def ac_simps)
  have ue1: "unat (e + 1) = unat q + length t + 1" unfolding e1 by (subst uq) simp_all
  show "e + 1 \<noteq> NULL" using ue1 by (metis add_is_0 one_neq_zero unat_0)
  show "unat (e + 1) + length r < 2 ^ 32" using ue1 nowrap by simp
  show "\<not> in_rng (e + 1) (length r) a" if "in_rng q (Suc (length t)) a" for a
    using that ue1 nowrap by (auto simp: in_rng_unat)
  show "\<not> in_rng (e + 1) (length r) a \<and> a \<noteq> e" if "\<not> in_rng q (length (t @ d # r)) a" for a
    using that ue ue1 nowrap by (auto simp: in_rng_unat)
  have ne: "q + of_nat i \<noteq> e" if "i < length t" for i using ue uq [of i] that by auto
  have "\<forall>i < length t. m (q + of_nat i) = t ! i \<and> t ! i \<noteq> 0" using c [unfolded cstr_append] by blast
  then show "cstr (m(e := 0)) q t" unfolding cstr_iff using ne by (simp flip: e_def)
  have "cstr m (e + 1) r" using c by (simp add: cstr_append e_def)
  then show "cstr (m(e := 0)) (e + 1) r"
    by (rule cstr_cong) (use ue ue1 nowrap in \<open>auto simp: in_rng_unat\<close>)
qed

text \<open>The pointers in an array, and the words they point to.\<close>

definition pointers_at :: "mem \<Rightarrow> u32 \<Rightarrow> nat \<Rightarrow> u32 list" where
  "pointers_at m p n = map (\<lambda>i. load32 m (p + 4 * of_nat i)) [0..<n]"

lemma length_pointers_at [simp]: "length (pointers_at m p n) = n"
  by (simp add: pointers_at_def)

lemma pointers_at_0 [simp]: "pointers_at m p 0 = []"
  by (simp add: pointers_at_def)

lemma pointers_at_Suc: "pointers_at m p (Suc n) = load32 m p # pointers_at m (p + 4) n"
  by (simp add: pointers_at_def upt_conv_Cons map_Suc_upt [symmetric] algebra_simps del: upt_Suc)

lemma split_from:
  assumes "p = (if str0 = NULL then saved_token st else str0)" and "p \<noteq> NULL"
    and "cstr (tok_mem st) p s" and "unat p + length s < 2 ^ 32"
    and "rng_disj (args + 4 * n) (4 * length (tokens {ch CHR '' ''} s)) p (Suc (length s))"
  shows "\<exists>st'.
    do { (token, st1) \<leftarrow> strtok st str0 (lit_mem [ch CHR '' '']) 0; split_loop st1 token args n }
      = Some (n + of_nat (length (tokens {ch CHR '' ''} s)), st') \<and>
    list_all2 (cstr (tok_mem st'))
      (pointers_at (tok_mem st') (args + 4 * n) (length (tokens {ch CHR '' ''} s))) (tokens {ch CHR '' ''} s) \<and>
    (\<forall>a. \<not> in_rng p (length s) a \<and> \<not> in_rng (args + 4 * n) (4 * length (tokens {ch CHR '' ''} s)) a \<longrightarrow>
      tok_mem st' a = tok_mem st a)"
  using assms
proof (induction "{ch CHR '' ''}" s arbitrary: st str0 p n rule: tokens.induct)
  case (1 s)
  let ?D = "{ch CHR '' ''}" and ?m = "tok_mem st"
  define A where "A = args + 4 * n"
  define k where "k = length (takeWhile (\<lambda>c. c \<in> ?D) s)"
  define t r q where "t = first_run ?D s" and "r = after_run ?D s" and "q = p + of_nat k"
  have s: "s = takeWhile (\<lambda>c. c \<in> ?D) s @ t @ r" unfolding t_def r_def by (rule split_at_run)
  then have len: "length s = k + length (t @ r)" unfolding k_def by (metis length_append)
  have call: "strtok st str0 (lit_mem [ch CHR '' '']) 0 =
    (if skip_delims ?D s = [] then Some (NULL, st\<lparr>saved_token := NULL\<rparr>)
     else if r = [] then Some (q, st\<lparr>saved_token := NULL\<rparr>)
     else Some (q, st\<lparr>tok_mem := ?m(q + of_nat (length t) := 0),
                     saved_token := q + of_nat (length t) + 1\<rparr>))"
    using strtok_cstr [OF cstr_space "1.prems"(1-4)] by (simp add: t_def r_def q_def k_def)
  have qs: "cstr ?m q (t @ r)"
    using "1.prems"(3) unfolding q_def k_def by (subst (asm) s) (simp add: cstr_append)
  have uq: "unat q = unat p + k" unfolding q_def
    by (rule unat_plus_of_nat) (use len "1.prems"(4) in linarith)
  have "q \<noteq> NULL" using uq "1.prems"(2) by (auto simp: unat_eq_zero)
  have nowrap: "unat q + length (t @ r) < 2 ^ 32" using uq len "1.prems"(4) by linarith
  have inside: "\<not> in_rng q (length (t @ r)) a" if "\<not> in_rng p (length s) a" for a
    using that uq len "1.prems"(4) nowrap by (auto simp: in_rng_unat)
  have sub: "in_rng p (Suc (length s)) a" if "in_rng q (Suc (length (t @ r))) a" for a
    using in_rng_shift [of p k "Suc (length (t @ r))" a "Suc (length s)"] that len by (simp add: q_def)
  consider "skip_delims ?D s = []" | "skip_delims ?D s \<noteq> []" "r = []"
    | d r' where "skip_delims ?D s \<noteq> []" "r = d # r'" by (cases r) auto
  then show ?case
  proof cases
    case 1
    then show ?thesis using call
      by (intro exI [of _ "st\<lparr>saved_token := NULL\<rparr>"]) (simp add: tokens.simps [of _ s])
  next
    case 2
    have tk: "tokens ?D s = [t]"
      using 2 by (simp add: tokens.simps [of _ s] tokens.simps [of _ "[]"] t_def r_def skip_delims_def)
    have "cstr (store32 ?m A q) q t"
    proof (rule cstr_cong)
      show "cstr ?m q t" using qs 2 by simp
      show "store32 ?m A q a = ?m a" if "in_rng q (Suc (length t)) a" for a
        using that sub [of a] 2 "1.prems"(5) unfolding tk A_def [symmetric]
        by (intro store32_outside) (auto dest: rng_disjD2)
    qed
    then show ?thesis using call 2 \<open>q \<noteq> NULL\<close> tk
      by (intro exI [of _ "st\<lparr>tok_mem := store32 ?m A q, saved_token := NULL\<rparr>"])
         (auto simp: split_loop_step strtok_exhausted pointers_at_Suc A_def load32_store32 store32_outside)
  next
    case 3
    define e where "e = q + of_nat (length t)"
    let ?m1 = "?m(e := 0)"
    let ?st1 = "st\<lparr>tok_mem := ?m1, saved_token := e + 1\<rparr>"
    let ?st2 = "?st1\<lparr>tok_mem := store32 ?m1 A q\<rparr>"
    let ?l = "length (tokens ?D r')"
    note cut = cut_token [of ?m q t d r', folded e_def]
    have cutr: "cstr ?m q (t @ d # r')" "unat q + length (t @ d # r') < 2 ^ 32" using qs nowrap 3 by simp_all
    have tk: "tokens ?D s = t # tokens ?D r'"
      using 3 by (simp add: tokens.simps [of _ s] t_def r_def)
    have A: "A + 4 = args + 4 * (n + 1)" by (simp add: A_def algebra_simps)
    have dj: "rng_disj A (4 * Suc ?l) p (Suc (length s))" using "1.prems"(5) tk by (simp add: A_def)
    have first: "in_rng A (4 * Suc ?l) a" if "in_rng A 4 a" for a using that by (rule in_rng_mono) simp
    have rest: "in_rng A (4 * Suc ?l) a" if "in_rng (A + 4) (4 * ?l) a" for a
      using in_rng_shift [of A 4 "4 * ?l" a "4 * Suc ?l"] that by simp
    have tail: "in_rng p (Suc (length s)) a" if "in_rng (e + 1) (Suc (length r')) a" for a
      using sub [of a] in_rng_shift [of q "length t + 1" "Suc (length r')" a "Suc (length (t @ r))"] that 3
      by (simp add: e_def ac_simps)
    have small: "4 * Suc ?l < 2 ^ 32"
    proof (rule ccontr)
      assume "\<not> 4 * Suc ?l < 2 ^ 32"
      then have "in_rng A (4 * Suc ?l) p" using unat32_less [of "p - A"] by (simp add: in_rng_def)
      then show False using dj by (auto dest: rng_disjD)
    qed
    have "cstr (store32 ?m1 A q) (e + 1) r'"
    proof (rule cstr_cong [OF cut(2) [OF cutr]])
      fix a assume "in_rng (e + 1) (Suc (length r')) a"
      then have "\<not> in_rng A (4 * Suc ?l) a" using tail dj by (auto dest: rng_disjD2)
      then show "store32 ?m1 A q a = ?m1 a" using first [of a] by (intro store32_outside) blast
    qed
    then have "cstr (tok_mem ?st2) (e + 1) r'" by simp
    moreover have "rng_disj (args + 4 * (n + 1)) (4 * ?l) (e + 1) (Suc (length r'))"
      using dj rest tail unfolding A [symmetric] by (auto simp: rng_disj_def)
    ultimately have "\<exists>st'. do { (token, st1) \<leftarrow> strtok ?st2 NULL (lit_mem [ch CHR '' '']) 0;
            split_loop st1 token args (n + 1) } = Some (n + 1 + of_nat (length (tokens ?D (tl (after_run ?D s)))), st') \<and>
      list_all2 (cstr (tok_mem st')) (pointers_at (tok_mem st') (args + 4 * (n + 1)) (length (tokens ?D (tl (after_run ?D s)))))
        (tokens ?D (tl (after_run ?D s))) \<and>
      (\<forall>a. \<not> in_rng (e + 1) (length (tl (after_run ?D s))) a \<and>
        \<not> in_rng (args + 4 * (n + 1)) (4 * length (tokens ?D (tl (after_run ?D s)))) a \<longrightarrow> tok_mem st' a = tok_mem ?st2 a)"
      using 3 cut(3,4) [OF cutr] by (intro "1.hyps") (simp_all flip: r_def)
    then obtain st' where ih:
      "do { (token, st1) \<leftarrow> strtok ?st2 NULL (lit_mem [ch CHR '' '']) 0;
            split_loop st1 token args (n + 1) } = Some (n + 1 + of_nat ?l, st')"
      "list_all2 (cstr (tok_mem st')) (pointers_at (tok_mem st') (A + 4) ?l) (tokens ?D r')"
      "\<And>a. \<not> in_rng (e + 1) (length r') a \<Longrightarrow> \<not> in_rng (A + 4) (4 * ?l) a \<Longrightarrow> tok_mem st' a = store32 ?m1 A q a"
      using 3 A by (auto simp flip: r_def)
    have keep: "tok_mem st' a = store32 ?m1 A q a" if "in_rng A 4 a" for a
    proof (rule ih(3))
      show "\<not> in_rng (e + 1) (length r') a"
        using tail [of a] dj first [OF that] in_rng_mono [of "e + 1" "length r'" a "Suc (length r')"]
        by (auto dest: rng_disjD)
      show "\<not> in_rng (A + 4) (4 * ?l) a"
        using that rng_disj_offsets [of 0 4 4 "4 * ?l" A] small by (auto dest: rng_disjD)
    qed
    have "load32 (tok_mem st') A = q"
      using load32_cong [of A "tok_mem st'" "store32 ?m1 A q"] keep by (simp add: load32_store32)
    moreover have "cstr (tok_mem st') q t"
    proof (rule cstr_cong [OF cut(1) [OF cutr]])
      fix a assume a: "in_rng q (Suc (length t)) a"
      then have "in_rng p (Suc (length s)) a" using sub [of a] in_rng_mono [OF a, of "Suc (length (t @ r))"] by simp
      then have "\<not> in_rng A (4 * Suc ?l) a" using dj by (auto dest: rng_disjD2)
      then have "\<not> in_rng A 4 a" and "\<not> in_rng (A + 4) (4 * ?l) a" using first rest by blast+
      then show "tok_mem st' a = ?m1 a"
        using ih(3) [OF cut(5) [OF cutr a]] store32_outside [of A a ?m1 q] by presburger
    qed
    moreover have "tok_mem st' a = ?m a" if a: "\<not> in_rng p (length s) a" "\<not> in_rng A (4 * Suc ?l) a" for a
    proof -
      have "\<not> in_rng A 4 a" and "\<not> in_rng (A + 4) (4 * ?l) a" using first rest a(2) by blast+
      moreover have "\<not> in_rng (e + 1) (length r') a" "a \<noteq> e"
        using cut(6) [OF cutr, of a] inside [OF a(1)] 3 by simp_all
      ultimately show ?thesis using ih(3) [of a] store32_outside [of A a ?m1 q] by simp
    qed
    moreover have "strtok st str0 (lit_mem [ch CHR '' '']) 0 = Some (q, ?st1)"
      using call 3 by (simp add: e_def)
    ultimately show ?thesis
      using ih(1,2) \<open>q \<noteq> NULL\<close> unfolding tk
      by (intro exI [of _ st']) (simp add: split_loop_step pointers_at_Suc A_def [symmetric] add.assoc)
  qed
qed

text \<open>\<open>split_command\<close> stores one pointer per word, in order, each to its word as a C string.\<close>

lemma split_command_words:
  assumes "p \<noteq> NULL" and "cstr (tok_mem st) p s" and "unat p + length s < 2 ^ 32"
    and "rng_disj args (4 * length (tokens {ch CHR '' ''} s)) p (Suc (length s))"
  shows "\<exists>st'. split_command st p args = Some (of_nat (length (tokens {ch CHR '' ''} s)), st') \<and>
    list_all2 (cstr (tok_mem st')) (pointers_at (tok_mem st') args (length (tokens {ch CHR '' ''} s)))
      (tokens {ch CHR '' ''} s) \<and>
    (\<forall>a. \<not> in_rng p (length s) a \<and> \<not> in_rng args (4 * length (tokens {ch CHR '' ''} s)) a \<longrightarrow>
      tok_mem st' a = tok_mem st a)"
  using split_from [of p p st s args 0] assms by (auto simp: split_command_def)

end
