(* ===== verification/Pages.thy ===== *)
theory Pages
  imports Prelude
begin

text \<open>
  The physical page allocator of \<open>libs/System/system.c\<close> (\<open>alloc_page\<close>, \<open>free_page\<close>): a
  bitmap of \<open>MAX_PAGES\<close> bytes, one per 4 KiB frame of the static array \<open>physical_memory\<close>.
  The locale \<open>page_allocator\<close> is the contract, over the set of frames in use; it is
  interpreted on the bitmap operations.
\<close>

section \<open>The model\<close>

definition PAGE_SIZE :: u32 where "PAGE_SIZE = 0x1000"
definition PHYS_MEM_SIZE :: u32 where "PHYS_MEM_SIZE = 0x1000000"
definition MAX_PAGES :: u32 where "MAX_PAGES = PHYS_MEM_SIZE div PAGE_SIZE"

text \<open>\<open>physical_memory\<close> is the address of the static array.\<close>

record page_state =
  physical_memory :: u32
  page_bitmap :: "u32 \<Rightarrow> u8"

function alloc_page_loop :: "u32 \<Rightarrow> page_state \<Rightarrow> u32 \<times> page_state" where
  "alloc_page_loop i st =
     (if i < MAX_PAGES then
        if page_bitmap st i = 0
        then (physical_memory st + i * PAGE_SIZE, st\<lparr>page_bitmap := (page_bitmap st)(i := 1)\<rparr>)
        else alloc_page_loop (i + 1) st
      else (NULL, st))"
  by pat_completeness auto
termination
  by (relation "measure (\<lambda>(i, st). unat MAX_PAGES - unat i)") auto

declare alloc_page_loop.simps [simp del]

definition alloc_page :: "page_state \<Rightarrow> u32 \<times> page_state" where
  "alloc_page st = alloc_page_loop 0 st"

definition free_page :: "u32 \<Rightarrow> page_state \<Rightarrow> page_state" where
  "free_page ptr st =
     (let offset = ptr - physical_memory st in
      if offset mod PAGE_SIZE \<noteq> 0 then st
      else let index = offset div PAGE_SIZE in
        if index < MAX_PAGES then st\<lparr>page_bitmap := (page_bitmap st)(index := 0)\<rparr> else st)"

section \<open>The contract of a page allocator\<close>

text \<open>\<open>n\<close> calls in a row: the frames they return.\<close>

fun alloc_pages :: "('s \<Rightarrow> u32 \<times> 's) \<Rightarrow> nat \<Rightarrow> 's \<Rightarrow> u32 list \<times> 's" where
  "alloc_pages alloc 0 st = ([], st)"
| "alloc_pages alloc (Suc n) st =
     (case alloc st of (p, st1) \<Rightarrow>
        case alloc_pages alloc n st1 of (ps, st2) \<Rightarrow> (p # ps, st2))"

locale page_allocator =
  fixes alloc :: "'s \<Rightarrow> u32 \<times> 's"
    and free :: "u32 \<Rightarrow> 's \<Rightarrow> 's"
    and used :: "'s \<Rightarrow> u32 set"
    and frames :: "'s \<Rightarrow> u32 set"
    and inv :: "'s \<Rightarrow> bool"
  assumes finite_frames: "inv st \<Longrightarrow> finite (frames st) \<and> used st \<subseteq> frames st \<and> NULL \<notin> frames st"
    and alloc_some: "inv st \<Longrightarrow> used st \<noteq> frames st \<Longrightarrow> alloc st = (p, st') \<Longrightarrow>
      p \<in> frames st - used st \<and> used st' = insert p (used st) \<and> frames st' = frames st \<and> inv st'"
    and alloc_none: "inv st \<Longrightarrow> used st = frames st \<Longrightarrow> alloc st = (NULL, st)"
    and free_used: "inv st \<Longrightarrow>
      used (free p st) = used st - {p} \<and> frames (free p st) = frames st \<and> inv (free p st)"
begin

lemma alloc_NULL_iff: "inv st \<Longrightarrow> fst (alloc st) = NULL \<longleftrightarrow> used st = frames st"
  using alloc_some [of st "fst (alloc st)" "snd (alloc st)"] alloc_none [of st] finite_frames [of st]
  by (cases "used st = frames st") auto

text \<open>As long as there is room, a run of allocations returns pairwise distinct new frames.\<close>

lemma pages_distinct:
  assumes "inv st" and "n + card (used st) \<le> card (frames st)"
    and "alloc_pages alloc n st = (ps, st')"
  shows "distinct ps \<and> length ps = n \<and> set ps \<subseteq> frames st - used st \<and>
    used st' = used st \<union> set ps \<and> frames st' = frames st \<and> inv st'"
  using assms
proof (induction n arbitrary: st ps)
  case (Suc n)
  obtain p st1 ps1 where s: "alloc st = (p, st1)" "alloc_pages alloc n st1 = (ps1, st')" "ps = p # ps1"
    using Suc.prems(3) by (auto split: prod.splits)
  have "used st \<noteq> frames st" using Suc.prems(2) by auto
  note a = alloc_some [OF Suc.prems(1) this s(1)]
  have "finite (used st)" using finite_frames [OF Suc.prems(1)] by (auto intro: finite_subset)
  then have "n + card (used st1) \<le> card (frames st1)" using a Suc.prems(2) by simp
  then show ?case using Suc.IH [of st1 ps1] a s by auto
qed simp

text \<open>Freeing a frame that was just allocated restores the set in use.\<close>

lemma alloc_free:
  assumes "inv st" and "alloc st = (p, st')" and "p \<noteq> NULL"
  shows "used (free p st') = used st"
proof -
  have "used st \<noteq> frames st" using assms alloc_none [of st] by auto
  note a = alloc_some [OF assms(1) this assms(2)]
  then show ?thesis using free_used [of st' p] by auto
qed

text \<open>A freed frame makes the next allocation succeed.\<close>

lemma free_makes_room:
  assumes "inv st" and "p \<in> used st"
  shows "fst (alloc (free p st)) \<noteq> NULL"
proof -
  have "p \<in> frames (free p st)" "p \<notin> used (free p st)" "inv (free p st)"
    using assms finite_frames [OF assms(1)] free_used [OF assms(1), of p] by auto
  then show ?thesis using alloc_NULL_iff [of "free p st"] by auto
qed

end

section \<open>The bitmap meets it\<close>

definition frame :: "page_state \<Rightarrow> nat \<Rightarrow> u32" where
  "frame st i = physical_memory st + of_nat (i * 4096)"

definition frame_set :: "page_state \<Rightarrow> u32 set" where
  "frame_set st = frame st ` {..<4096}"

definition used_frames :: "page_state \<Rightarrow> u32 set" where
  "used_frames st = frame st ` {i. i < 4096 \<and> page_bitmap st (of_nat i) \<noteq> 0}"

text \<open>The array lies in the address space, not at 0.\<close>

definition pages_ok :: "page_state \<Rightarrow> bool" where
  "pages_ok st \<longleftrightarrow> physical_memory st \<noteq> NULL \<and> unat (physical_memory st) + 4096 * 4096 \<le> 2 ^ 32"

lemma MAX_PAGES_eq: "MAX_PAGES = 4096"
  by (simp add: MAX_PAGES_def PHYS_MEM_SIZE_def PAGE_SIZE_def unat_div word_unat_eq_iff)

lemma frame_bitmap [simp]: "frame (st\<lparr>page_bitmap := b\<rparr>) = frame st"
  by (simp add: frame_def fun_eq_iff)

lemma frame_inj:
  assumes "i < 4096" and "j < 4096"
  shows "frame st i = frame st j \<longleftrightarrow> i = j"
proof
  assume "frame st i = frame st j"
  then have "(of_nat (i * 4096) :: u32) = of_nat (j * 4096)" by (simp add: frame_def)
  then have "unat (of_nat (i * 4096) :: u32) = unat (of_nat (j * 4096) :: u32)" by (rule arg_cong)
  then show "i = j" using assms by (simp add: unat_of_nat32 del: of_nat_mult)
qed simp

lemma unat_frame:
  assumes "pages_ok st" and "i < 4096"
  shows "unat (frame st i) = unat (physical_memory st) + i * 4096"
  using assms by (simp add: frame_def unat_plus_of_nat pages_ok_def del: of_nat_mult)

text \<open>The search returns the first frame that is not in use.\<close>

lemma alloc_page_loop_frame:
  assumes "i \<le> MAX_PAGES"
  shows "(\<exists>j. unat i \<le> j \<and> j < 4096 \<and> page_bitmap st (of_nat j) = 0 \<and>
            (\<forall>k. unat i \<le> k \<and> k < j \<longrightarrow> page_bitmap st (of_nat k) \<noteq> 0) \<and>
            alloc_page_loop i st =
              (frame st j, st\<lparr>page_bitmap := (page_bitmap st)(of_nat j := 1)\<rparr>)) \<or>
         (\<forall>k. unat i \<le> k \<and> k < 4096 \<longrightarrow> page_bitmap st (of_nat k) \<noteq> 0) \<and>
           alloc_page_loop i st = (NULL, st)"
  using assms
proof (induction rule: count_induct)
  case stop
  have "alloc_page_loop MAX_PAGES st = (NULL, st)" by (simp add: alloc_page_loop.simps [of MAX_PAGES st])
  then show ?case by (intro disjI2) (auto simp: MAX_PAGES_eq)
next
  case (step i)
  have lt: "unat i < 4096" using step(1) by (simp add: MAX_PAGES_eq word_less_nat_alt)
  show ?case
  proof (cases "page_bitmap st i = 0")
    case True
    have "of_nat (unat i * 4096) = i * PAGE_SIZE" by (simp add: PAGE_SIZE_def)
    then have "alloc_page_loop i st =
        (frame st (unat i), st\<lparr>page_bitmap := (page_bitmap st)(of_nat (unat i) := 1)\<rparr>)"
      using step(1) True by (simp add: alloc_page_loop.simps [of i st] frame_def)
    moreover have "page_bitmap st (of_nat (unat i)) = 0" using True by simp
    ultimately show ?thesis using lt by (intro disjI1 exI [of _ "unat i"] conjI) linarith+
  next
    case False
    have "alloc_page_loop i st = alloc_page_loop (i + 1) st"
      using step(1) False by (simp add: alloc_page_loop.simps [of i st])
    moreover have nz: "page_bitmap st (of_nat k) \<noteq> 0" if "k = unat i" for k
      using False that by simp
    moreover have le: "k = unat i \<or> unat (i + 1) \<le> k" if "unat i \<le> k" for k
      using unat_Suc_less [OF step(1)] that by auto
    moreover have "unat i \<le> k" if "unat (i + 1) \<le> k" for k
      using unat_Suc_less [OF step(1)] that by simp
    ultimately show ?thesis using step(2) by metis
  qed
qed

lemma alloc_page_cases:
  obtains (found) j where "j < 4096" "page_bitmap st (of_nat j) = 0"
      "\<forall>k < j. page_bitmap st (of_nat k) \<noteq> 0"
      "alloc_page st = (frame st j, st\<lparr>page_bitmap := (page_bitmap st)(of_nat j := 1)\<rparr>)"
    | (exhausted) "\<forall>k < 4096. page_bitmap st (of_nat k) \<noteq> 0" "alloc_page st = (NULL, st)"
  using alloc_page_loop_frame [of 0 st] by (auto simp: alloc_page_def)

text \<open>The bitmap index of a frame, and the effect of a bitmap update on the set in use.\<close>

lemma index_eq: "i < 4096 \<Longrightarrow> k < 4096 \<Longrightarrow> (of_nat i :: u32) = of_nat k \<longleftrightarrow> i = k"
  by (rule of_nat_inj32) simp_all

lemma used_frames_set:
  assumes "j < 4096" and "b \<noteq> 0"
  shows "used_frames (st\<lparr>page_bitmap := (page_bitmap st)(of_nat j := b)\<rparr>) =
    insert (frame st j) (used_frames st)"
proof -
  have "{i. i < 4096 \<and> ((page_bitmap st)(of_nat j := b)) (of_nat i) \<noteq> 0} =
      insert j {i. i < 4096 \<and> page_bitmap st (of_nat i) \<noteq> 0}"
    using assms by (auto simp: index_eq)
  then show ?thesis unfolding used_frames_def by simp
qed

lemma used_frames_clear:
  assumes "j < 4096"
  shows "used_frames (st\<lparr>page_bitmap := (page_bitmap st)(of_nat j := 0)\<rparr>) =
    used_frames st - {frame st j}"
proof -
  have "{i. i < 4096 \<and> ((page_bitmap st)(of_nat j := 0)) (of_nat i) \<noteq> 0} =
      {i. i < 4096 \<and> page_bitmap st (of_nat i) \<noteq> 0} - {j}"
    using assms by (auto simp: index_eq)
  then have "used_frames (st\<lparr>page_bitmap := (page_bitmap st)(of_nat j := 0)\<rparr>) =
      frame st ` ({i. i < 4096 \<and> page_bitmap st (of_nat i) \<noteq> 0} - {j})"
    unfolding used_frames_def by simp
  then show ?thesis using assms by (auto simp: used_frames_def frame_inj)
qed

lemma frame_in_used: "j < 4096 \<Longrightarrow> frame st j \<in> used_frames st \<longleftrightarrow> page_bitmap st (of_nat j) \<noteq> 0"
  by (auto simp: used_frames_def frame_inj)

text \<open>\<open>free_page\<close> clears the bit of a frame and ignores every other pointer.\<close>

lemma free_page_cases:
  obtains (frame) j where "j < 4096" "ptr = frame st j"
      "free_page ptr st = st\<lparr>page_bitmap := (page_bitmap st)(of_nat j := 0)\<rparr>"
    | (ignored) "ptr \<notin> frame_set st" "free_page ptr st = st"
proof -
  define d where "d = unat (ptr - physical_memory st)"
  have off: "ptr - physical_memory st = of_nat d" by (simp add: d_def)
  have d: "d < 2 ^ 32" unfolding d_def by (rule unat32_less)
  have md: "of_nat d mod PAGE_SIZE = of_nat (d mod 4096)" "of_nat d div PAGE_SIZE = of_nat (d div 4096)"
    using d by (simp_all add: PAGE_SIZE_def word_unat_eq_iff unat_mod unat_div unat_of_nat32
      less_imp_le_nat order.strict_trans1 [OF mod_less_eq_dividend] order.strict_trans1 [OF div_le_dividend])
  have z: "(of_nat (d mod 4096) :: u32) = 0 \<longleftrightarrow> d mod 4096 = 0"
    using of_nat_inj32 [of "d mod 4096" 0] d order.strict_trans1 [OF mod_less_eq_dividend d] by simp
  have lt: "(of_nat (d div 4096) :: u32) < MAX_PAGES \<longleftrightarrow> d div 4096 < 4096"
    using unat_of_nat32 [OF order.strict_trans1 [OF div_le_dividend d]]
    by (simp add: MAX_PAGES_eq word_less_nat_alt)
  have fp: "free_page ptr st = (if d mod 4096 = 0 \<and> d div 4096 < 4096
      then st\<lparr>page_bitmap := (page_bitmap st)(of_nat (d div 4096) := 0)\<rparr> else st)"
    using z lt by (simp add: free_page_def Let_def off md del: of_nat_mod)
  have ptr: "ptr = physical_memory st + of_nat d" using off by (simp add: algebra_simps)
  show thesis
  proof (cases "d mod 4096 = 0 \<and> d div 4096 < 4096")
    case True
    then have "d = d div 4096 * 4096" by auto
    then have "ptr = frame st (d div 4096)" unfolding frame_def using ptr by simp
    then show thesis using True fp by (intro frame [of "d div 4096"]) simp_all
  next
    case False
    have "ptr \<notin> frame_set st"
    proof
      assume "ptr \<in> frame_set st"
      then obtain i where "i < 4096" "ptr = frame st i" by (auto simp: frame_set_def)
      then have "(of_nat d :: u32) = of_nat (i * 4096)" using ptr by (simp add: frame_def)
      then have "d = i * 4096" using of_nat_inj32 [OF d, of "i * 4096"] \<open>i < 4096\<close> by simp
      then show False using False \<open>i < 4096\<close> by simp
    qed
    then show thesis using False fp by (intro ignored) auto
  qed
qed

lemma frame_set_bitmap [simp]: "frame_set (st\<lparr>page_bitmap := b\<rparr>) = frame_set st"
  by (simp add: frame_set_def)

lemma pages_ok_bitmap [simp]: "pages_ok (st\<lparr>page_bitmap := b\<rparr>) = pages_ok st"
  by (simp add: pages_ok_def)

lemma used_frames_subset: "used_frames st \<subseteq> frame_set st"
  by (auto simp: used_frames_def frame_set_def)

lemma card_frame_set: "card (frame_set st) = 4096"
  unfolding frame_set_def by (subst card_image) (auto simp: inj_on_def frame_inj)

interpretation pg: page_allocator alloc_page free_page used_frames frame_set pages_ok
proof
  fix st p st'
  assume ok: "pages_ok st"
  have "0 < unat (frame st i)" if "i < 4096" for i
    using unat_frame [OF ok that] ok by (simp add: pages_ok_def unat_gt_0)
  then have "NULL \<notin> frame_set st" by (force simp: frame_set_def)
  then show "finite (frame_set st) \<and> used_frames st \<subseteq> frame_set st \<and> NULL \<notin> frame_set st"
    by (simp add: frame_set_def [of st] used_frames_subset [unfolded frame_set_def])
  show "p \<in> frame_set st - used_frames st \<and> used_frames st' = insert p (used_frames st) \<and>
      frame_set st' = frame_set st \<and> pages_ok st'"
    if "used_frames st \<noteq> frame_set st" "alloc_page st = (p, st')"
  proof (cases rule: alloc_page_cases [of st])
    case (found j)
    then show ?thesis using that ok by (auto simp: used_frames_set frame_in_used frame_set_def)
  next
    case exhausted
    then have "used_frames st = frame_set st" by (auto simp: used_frames_def frame_set_def)
    then show ?thesis using that by simp
  qed
  show "alloc_page st = (NULL, st)" if "used_frames st = frame_set st"
  proof (cases rule: alloc_page_cases [of st])
    case (found j)
    then have "frame st j \<in> used_frames st" using that by (simp add: frame_set_def)
    then show ?thesis using found by (simp add: frame_in_used)
  qed
  show "used_frames (free_page p st) = used_frames st - {p} \<and>
      frame_set (free_page p st) = frame_set st \<and> pages_ok (free_page p st)"
    by (cases rule: free_page_cases [of p st])
       (use ok used_frames_subset [of st] in \<open>auto simp: used_frames_clear\<close>)
qed

text \<open>Two frames do not share a byte.\<close>

lemma frames_disjoint:
  assumes "pages_ok st" and "p \<in> frame_set st" and "q \<in> frame_set st" and "p \<noteq> q"
  shows "rng_disj p (unat PAGE_SIZE) q (unat PAGE_SIZE)"
proof -
  obtain i j where ij: "i < 4096" "j < 4096" "p = frame st i" "q = frame st j"
    using assms by (auto simp: frame_set_def)
  have "i \<noteq> j" using ij assms(4) by auto
  then show ?thesis
    using ij unat_frame [OF assms(1)] assms(1)
    by (intro rng_disj_unatI) (auto simp: PAGE_SIZE_def pages_ok_def)
qed

end
