(* ===== verification/Hardware.thy ===== *)
theory Hardware
  imports Prelude
begin

text \<open>
  The machine outside the C program, as far as the code reaches it: the I/O ports behind
  \<open>inb\<close>, \<open>outb\<close>, \<open>inw\<close>, \<open>outw\<close>, \<open>inl\<close>, \<open>outl\<close> (one instruction of inline assembly each) and
  volatile device registers in memory. A device is a parameter: what a read returns may be any
  function of the accesses made so far, so that polling loops, devices that never answer and
  devices with state are all instances.
\<close>

section \<open>Accesses and devices\<close>

datatype io =
    OutB u16 u8 | OutW u16 u16 | OutL u16 u32
  | InB u16 u8 | InW u16 u16 | InL u16 u32
  | MWrite u32 u32 | MRead u32 u32

text \<open>\<open>trace\<close> holds the accesses made, the latest first; \<open>dev_port\<close> and \<open>dev_reg\<close> answer reads.\<close>

record hw =
  trace :: "io list"
  dev_port :: "io list \<Rightarrow> u16 \<Rightarrow> u32"
  dev_reg :: "io list \<Rightarrow> u32 \<Rightarrow> u32"

definition emit :: "io \<Rightarrow> hw \<Rightarrow> hw" where
  "emit e h = h\<lparr>trace := e # trace h\<rparr>"

definition inb :: "u16 \<Rightarrow> hw \<Rightarrow> u8 \<times> hw" where
  "inb port h = (let v = ucast (dev_port h (trace h) port) in (v, emit (InB port v) h))"

definition outb :: "u16 \<Rightarrow> u8 \<Rightarrow> hw \<Rightarrow> hw" where
  "outb port v h = emit (OutB port v) h"

definition inw :: "u16 \<Rightarrow> hw \<Rightarrow> u16 \<times> hw" where
  "inw port h = (let v = ucast (dev_port h (trace h) port) in (v, emit (InW port v) h))"

definition outw :: "u16 \<Rightarrow> u16 \<Rightarrow> hw \<Rightarrow> hw" where
  "outw port v h = emit (OutW port v) h"

text \<open>\<open>inl\<close> takes a 32-bit port number; the instruction uses the low half of the register.\<close>

definition inl :: "u32 \<Rightarrow> hw \<Rightarrow> u32 \<times> hw" where
  "inl port h = (let v = dev_port h (trace h) (ucast port) in (v, emit (InL (ucast port) v) h))"

definition outl :: "u16 \<Rightarrow> u32 \<Rightarrow> hw \<Rightarrow> hw" where
  "outl port v h = emit (OutL port v) h"

text \<open>A read and a write of a volatile register.\<close>

definition reg_read :: "u32 \<Rightarrow> hw \<Rightarrow> u32 \<times> hw" where
  "reg_read addr h = (let v = dev_reg h (trace h) addr in (v, emit (MRead addr v) h))"

definition reg_write :: "u32 \<Rightarrow> u32 \<Rightarrow> hw \<Rightarrow> hw" where
  "reg_write addr v h = emit (MWrite addr v) h"

lemmas io_defs = inb_def outb_def inw_def outw_def inl_def outl_def reg_read_def reg_write_def

section \<open>What an access leaves alone\<close>

lemma emit_sel [simp]:
  "trace (emit e h) = e # trace h" "dev_port (emit e h) = dev_port h" "dev_reg (emit e h) = dev_reg h"
  by (simp_all add: emit_def)

text \<open>\<open>same_devices h h'\<close>: the devices are those of \<open>h\<close>, and the trace has only grown.\<close>

definition same_devices :: "hw \<Rightarrow> hw \<Rightarrow> bool" where
  "same_devices h h' \<longleftrightarrow> dev_port h' = dev_port h \<and> dev_reg h' = dev_reg h \<and>
     (\<exists>es. trace h' = es @ trace h)"

lemma same_devices_refl [simp]: "same_devices h h"
  by (simp add: same_devices_def)

lemma same_devices_trans: "same_devices h h1 \<Longrightarrow> same_devices h1 h2 \<Longrightarrow> same_devices h h2"
  by (auto simp: same_devices_def)

lemma same_devices_emit [simp]: "same_devices h (emit e h)"
  by (simp add: same_devices_def)

lemma same_devices_io [simp]:
  "same_devices h (snd (inb p h))" "same_devices h (outb p b h)" "same_devices h (snd (inw p h))"
  "same_devices h (outw p w h)" "same_devices h (snd (inl q h))" "same_devices h (outl p l h)"
  "same_devices h (snd (reg_read a h))" "same_devices h (reg_write a l h)"
  by (simp_all add: io_defs Let_def)

text \<open>The accesses that write to a port or a register, in a trace.\<close>

fun is_write :: "io \<Rightarrow> bool" where
  "is_write (OutB p v) = True"
| "is_write (OutW p v) = True"
| "is_write (OutL p v) = True"
| "is_write (MWrite a v) = True"
| "is_write _ = False"

definition writes :: "hw \<Rightarrow> io list" where
  "writes h = rev (filter is_write (trace h))"

lemma writes_emit [simp]: "writes (emit e h) = (if is_write e then writes h @ [e] else writes h)"
  by (simp add: writes_def)

end
