(* ===== verification/Time.thy ===== *)
theory Time
  imports Hardware
begin

text \<open>
  The clock of \<open>libs/System/time.c\<close>: programming the PIT, the tick counter, the conversions,
  the system calls, and \<open>sleep\<close>.
\<close>

section \<open>The model\<close>

definition PIT_COMMAND_PORT :: u16 where "PIT_COMMAND_PORT = 0x43"
definition PIT_DATA_PORT :: u16 where "PIT_DATA_PORT = 0x40"
definition PIT_DIVISOR :: u32 where "PIT_DIVISOR = 3600"
definition TICKS_PER_SECOND :: u32 where "TICKS_PER_SECOND = 18"

definition init_pit_timer :: "hw \<Rightarrow> hw" where
  "init_pit_timer h =
     outb PIT_DATA_PORT (ucast (drop_bit 8 PIT_DIVISOR))
       (outb PIT_DATA_PORT (ucast (PIT_DIVISOR AND 0xFF))
         (outb PIT_COMMAND_PORT 0x36 h))"

text \<open>The only state is the global \<open>ticks\<close>.\<close>

record clock =
  ticks :: u32

definition timer_interrupt_handler :: "clock \<Rightarrow> clock" where
  "timer_interrupt_handler c = c\<lparr>ticks := ticks c + 1\<rparr>"

definition get_time :: "clock \<Rightarrow> s32" where
  "get_time c = ticks c"

definition get_time_in_seconds :: "clock \<Rightarrow> s32" where
  "get_time_in_seconds c = ticks c div TICKS_PER_SECOND"

definition get_time_in_minutes :: "clock \<Rightarrow> s32" where
  "get_time_in_minutes c = word_of_int (sint (get_time_in_seconds c) sdiv 60)"

definition syscall_handler :: "s32 \<Rightarrow> s32 \<Rightarrow> clock \<Rightarrow> s32" where
  "syscall_handler syscall_number arg c =
     (if syscall_number = 1 then get_time c
      else if syscall_number = 2 then get_time_in_seconds c
      else if syscall_number = 3 then get_time_in_minutes c
      else - 1)"

text \<open>
  \<open>while (get_time_in_seconds!=time+duration/100) {}\<close> compares the ADDRESS of the function with
  the target: \<open>fn\<close> is that address, and no interrupt changes either side.
\<close>

partial_function (option) sleep_loop :: "u32 \<Rightarrow> s32 \<Rightarrow> unit option" where
  "sleep_loop fn target = (if fn \<noteq> target then sleep_loop fn target else Some ())"

definition sleep :: "u32 \<Rightarrow> s32 \<Rightarrow> clock \<Rightarrow> clock option" where
  "sleep fn duration c = do {
     let time = get_time_in_seconds c;
     d \<leftarrow> c_div duration 100;
     _ \<leftarrow> sleep_loop fn (time + d);
     Some c
   }"

section \<open>Ticks and conversions\<close>

text \<open>The counter after \<open>n\<close> interrupts.\<close>

lemma ticks_after: "ticks ((timer_interrupt_handler ^^ n) c) = ticks c + of_nat n"
  by (induction n) (simp_all add: timer_interrupt_handler_def)

lemma seconds_eq: "unat (get_time_in_seconds c) = unat (ticks c) div 18"
  by (simp add: get_time_in_seconds_def TICKS_PER_SECOND_def unat_div)

lemma seconds_small: "unat (get_time_in_seconds c) < 2 ^ 28"
  unfolding seconds_eq using unat32_less [of "ticks c"] by simp

lemma minutes_eq: "unat (get_time_in_minutes c) = unat (ticks c) div 18 div 60"
proof -
  let ?s = "unat (get_time_in_seconds c)"
  have "sint (get_time_in_seconds c) = int ?s"
    using sint_of_nat32 [of ?s] seconds_small [of c] by simp
  moreover have "int ?s sdiv 60 = int (?s div 60)"
    by (simp add: signed_divide_int_def sgn_if zdiv_int)
  ultimately have "get_time_in_minutes c = of_nat (?s div 60)"
    by (simp add: get_time_in_minutes_def)
  moreover have "?s div 60 < 2 ^ 32" using seconds_small [of c] by simp
  ultimately show ?thesis using unat_of_nat32 [of "?s div 60"] by (simp only: seconds_eq)
qed

section \<open>sleep\<close>

lemma sleep_loop_diverges: "fn \<noteq> target \<Longrightarrow> sleep_loop fn target = None"
proof (rule ccontr)
  assume ne: "fn \<noteq> target" and "sleep_loop fn target \<noteq> None"
  then obtain r where r: "sleep_loop fn target = Some r" by auto
  have "fn = target"
    by (rule sleep_loop.raw_induct [where P = "\<lambda>fn target r. fn = target", OF _ r])
       (auto split: if_splits)
  then show False using ne by simp
qed

text \<open>A call returns only if the target number of seconds happens to be the function's address.\<close>

lemma sleep_returns_iff:
  "sleep fn duration c \<noteq> None \<longleftrightarrow>
    fn = get_time_in_seconds c + word_of_int (sint duration sdiv 100)"
proof -
  have "c_div duration 100 = Some (word_of_int (sint duration sdiv 100))"
    by (simp add: c_div_def idiv_faults_def)
  moreover have "sleep_loop fn fn = Some ()" by (simp add: sleep_loop.simps)
  ultimately show ?thesis
    using sleep_loop_diverges
    by (cases "fn = get_time_in_seconds c + word_of_int (sint duration sdiv 100)")
       (simp_all add: sleep_def)
qed

end
