(* ===== verification/CNumbers.thy ===== *)
theory CNumbers
  imports CStrings
begin

text \<open>
  Character classes and number conversion: \<open>isspace\<close>, \<open>isalpha\<close>, \<open>isdigit\<close>, \<open>isalnum\<close> and
  \<open>atoi\<close> of \<open>libs/System/system.c\<close>, \<open>itoa\<close> of \<open>libs/System/standard.c\<close>. The reference is
  the positional value of a digit string and the digit string of a number; \<open>atoi\<close> undoes
  \<open>itoa\<close> on every \<open>int\<close> but \<open>INT_MIN\<close>.
\<close>

section \<open>Character classes\<close>

text \<open>The argument is an \<open>int\<close>; a \<open>char\<close> is promoted with its sign.\<close>

definition isspace :: "int \<Rightarrow> bool" where
  "isspace c \<longleftrightarrow> c = 32 \<or> c = 9 \<or> c = 10 \<or> c = 11 \<or> c = 12 \<or> c = 13"

definition isalpha :: "int \<Rightarrow> bool" where
  "isalpha c \<longleftrightarrow> 65 \<le> c \<and> c \<le> 90 \<or> 97 \<le> c \<and> c \<le> 122"

definition isdigit :: "int \<Rightarrow> bool" where
  "isdigit c \<longleftrightarrow> 48 \<le> c \<and> c \<le> 57"

definition isalnum :: "int \<Rightarrow> bool" where
  "isalnum c \<longleftrightarrow> isalpha c \<or> isdigit c"

lemmas char_class_defs = isspace_def isalpha_def isdigit_def isalnum_def

lemma char_classes_disjoint:
  "isspace c \<Longrightarrow> \<not> isalnum c" "isdigit c \<Longrightarrow> \<not> isalpha c"
  by (auto simp: char_class_defs)

lemma NUL_class [simp]:
  "\<not> isspace 0" "\<not> isalpha 0" "\<not> isdigit 0" "\<not> isalnum 0"
  by (simp_all add: char_class_defs)

section \<open>atoi\<close>

partial_function (option) skip_spaces :: "mem \<Rightarrow> u32 \<Rightarrow> u32 option" where
  "skip_spaces m str = (if isspace (sint (m str)) then skip_spaces m (str + 1) else Some str)"

partial_function (option) atoi_digits :: "mem \<Rightarrow> u32 \<Rightarrow> s32 \<Rightarrow> s32 option" where
  "atoi_digits m str result =
     (if 48 \<le> sint (m str) \<and> sint (m str) \<le> 57
      then atoi_digits m (str + 1) (result * 10 + word_of_int (sint (m str) - 48))
      else Some result)"

definition atoi :: "mem \<Rightarrow> u32 \<Rightarrow> s32 option" where
  "atoi m str0 = do {
     str \<leftarrow> skip_spaces m str0;
     let sign = (if m str = ch CHR ''-'' then - 1 else 1);
     let str' = (if m str = ch CHR ''-'' \<or> m str = ch CHR ''+'' then str + 1 else str);
     result \<leftarrow> atoi_digits m str' 0;
     Some (sign * result)
   }"

text \<open>The value of a digit string, most significant digit first.\<close>

definition dec_val :: "nat \<Rightarrow> u8 list \<Rightarrow> nat" where
  "dec_val v ds = foldl (\<lambda>v c. 10 * v + (unat c - 48)) v ds"

lemma dec_val_simps [simp]:
  "dec_val v [] = v"
  "dec_val v (c # ds) = dec_val (10 * v + (unat c - 48)) ds"
  by (simp_all add: dec_val_def)

lemma dec_val_append: "dec_val v (ds @ es) = dec_val (dec_val v ds) es"
  by (simp add: dec_val_def)

lemma isdigit_unat: "isdigit (sint (c :: u8)) \<Longrightarrow> sint c = int (unat c) \<and> 48 \<le> unat c \<and> unat c \<le> 57"
proof -
  assume d: "isdigit (sint c)"
  have "uint c < 256" using unsigned_less [of c] by simp
  then have "sint c = uint c" and "48 \<le> uint c" and "uint c \<le> 57"
    using d by (auto simp: isdigit_def sint_u8 split: if_splits)
  moreover have "uint c = int (unat c)" by simp
  ultimately show ?thesis by linarith
qed

lemma digit_step:
  assumes "isdigit (sint (c :: u8))"
  shows "of_nat v * 10 + word_of_int (sint c - 48) = (of_nat (10 * v + (unat c - 48)) :: s32)"
proof -
  have "word_of_int (sint c - 48) = (of_nat (unat c - 48) :: s32)"
    using isdigit_unat [OF assms] by (simp only: of_nat_diff_if) (simp add: of_nat_diff)
  then show ?thesis by simp
qed

lemma atoi_digits_cstr:
  assumes "cstr m p (ds @ rest)" and "\<forall>c \<in> set ds. isdigit (sint c)"
    and "rest = [] \<or> \<not> isdigit (sint (hd rest))"
  shows "atoi_digits m p (of_nat v) = Some (of_nat (dec_val v ds))"
  using assms(1,2)
proof (induction ds arbitrary: p v)
  case Nil
  then have "\<not> isdigit (sint (m p))" using assms(3) by (cases rest) auto
  then show ?case by (subst atoi_digits.simps) (auto simp: isdigit_def)
next
  case (Cons c ds)
  then have "isdigit (sint (m p))" by simp
  note d = this
  have "atoi_digits m p (of_nat v) = atoi_digits m (p + 1) (of_nat (10 * v + (unat (m p) - 48)))"
    using d digit_step [OF d, of v] by (subst atoi_digits.simps) (simp only: isdigit_def simp_thms if_True)
  also have "\<dots> = Some (of_nat (dec_val (10 * v + (unat (m p) - 48)) ds))"
    by (rule Cons.IH) (use Cons.prems in auto)
  finally show ?case using Cons.prems by simp
qed

lemma skip_spaces_cstr:
  assumes "cstr m p (ws @ rest)" and "\<forall>c \<in> set ws. isspace (sint c)"
    and "rest = [] \<or> \<not> isspace (sint (hd rest))"
  shows "skip_spaces m p = Some (p + of_nat (length ws))"
  using assms(1,2)
proof (induction ws arbitrary: p)
  case Nil
  then have "\<not> isspace (sint (m p))" using assms(3) by (cases rest) auto
  then show ?case by (subst skip_spaces.simps) simp
next
  case (Cons c ws)
  then show ?case by (subst skip_spaces.simps) (simp add: add.assoc)
qed

text \<open>White space, an optional sign, digits: \<open>atoi\<close> is the signed value, modulo 2^32.\<close>

lemma atoi_cstr:
  assumes c: "cstr m p (ws @ sg @ ds @ rest)"
    and ws: "\<forall>c \<in> set ws. isspace (sint c)"
    and sg: "sg \<in> {[], [ch CHR ''+''], [ch CHR ''-'']}"
    and ds: "ds \<noteq> []" "\<forall>c \<in> set ds. isdigit (sint c)"
    and rest: "rest = [] \<or> \<not> isdigit (sint (hd rest))"
  shows "atoi m p = Some ((if sg = [ch CHR ''-''] then - 1 else 1) * of_nat (dec_val 0 ds))"
proof -
  let ?q = "p + of_nat (length ws)"
  obtain d ds' where d: "ds = d # ds'" "isdigit (sint d)" using ds by (cases ds) auto
  have nd: "d \<noteq> ch CHR ''-''" "d \<noteq> ch CHR ''+''" "\<not> isspace (sint d)"
    using d(2) char_classes_disjoint [of "sint d"] by (auto simp: ch_def char_class_defs)
  have "skip_spaces m p = Some ?q"
    by (rule skip_spaces_cstr [OF c ws]) (use sg d nd in \<open>auto simp: ch_def isspace_def\<close>)
  moreover have q: "cstr m ?q (sg @ ds @ rest)" using c by (simp add: cstr_append)
  moreover have "atoi_digits m (?q + of_nat (length sg)) (of_nat 0) = Some (of_nat (dec_val 0 ds))"
    by (rule atoi_digits_cstr [OF _ ds(2) rest]) (use q in \<open>simp add: cstr_append\<close>)
  ultimately show ?thesis
    using sg d nd by (auto simp: atoi_def ch_def)
qed

section \<open>itoa\<close>

text \<open>\<open>while (value) { tmp_value = value % base; *ptr++ = ...; value /= base; }\<close>\<close>

partial_function (option) itoa_digits :: "mem \<Rightarrow> u32 \<Rightarrow> s32 \<Rightarrow> s32 \<Rightarrow> (mem \<times> u32) option" where
  "itoa_digits m ptr value base =
     (if value \<noteq> 0 then
        do { tmp_value \<leftarrow> c_mod value base;
             let c = (if sint tmp_value < 10 then 48 + tmp_value else 97 + tmp_value - 10);
             value' \<leftarrow> c_div value base;
             itoa_digits (m(ptr := ucast c)) (ptr + 1) value' base }
      else Some (m, ptr))"

text \<open>\<open>while (ptr1 < --ptr)\<close>: swap the outer bytes and move inwards.\<close>

partial_function (option) itoa_reverse :: "mem \<Rightarrow> u32 \<Rightarrow> u32 \<Rightarrow> mem option" where
  "itoa_reverse m ptr1 ptr0 =
     (let ptr = ptr0 - 1
      in if ptr1 < ptr
         then itoa_reverse (m(ptr := m ptr1, ptr1 := m ptr)) (ptr1 + 1) ptr
         else Some m)"

definition itoa :: "mem \<Rightarrow> s32 \<Rightarrow> u32 \<Rightarrow> s32 \<Rightarrow> mem option" where
  "itoa m value0 str base =
     (if value0 = 0 then Some (m(str := ch CHR ''0'', str + 1 := 0))
      else
        let neg = (sint value0 < 0 \<and> base = 10);
            m1 = (if neg then m(str := ch CHR ''-'') else m);
            ptr1 = (if neg then str + 1 else str);
            value = (if neg then - value0 else value0)
        in do { (m2, ptr) \<leftarrow> itoa_digits m1 ptr1 value base;
                itoa_reverse (m2(ptr := 0)) ptr1 ptr })"

text \<open>The digits of a number, least significant first, and their characters.\<close>

fun digits_le :: "nat \<Rightarrow> nat \<Rightarrow> nat list" where
  "digits_le b n = (if n = 0 \<or> b < 2 then [] else n mod b # digits_le b (n div b))"

declare digits_le.simps [simp del]

definition digit_char :: "nat \<Rightarrow> u8" where
  "digit_char d = of_nat (if d < 10 then 48 + d else 87 + d)"

definition nat_str :: "nat \<Rightarrow> nat \<Rightarrow> u8 list" where
  "nat_str b n = (if n = 0 then [digit_char 0] else map digit_char (rev (digits_le b n)))"

lemma ucast_of_nat: "k < 2 ^ 32 \<Longrightarrow> ucast (of_nat k :: s32) = (of_nat k :: u8)"
proof -
  assume k: "k < 2 ^ 32"
  have "ucast (of_nat k :: s32) = (of_nat (unat (of_nat k :: s32)) :: u8)" by simp
  then show ?thesis by (simp only: unat_of_nat32 [OF k])
qed

lemma digit_char_ucast:
  assumes "d < 2 ^ 31"
  shows "ucast (if sint (of_nat d :: s32) < 10 then 48 + of_nat d else 97 + of_nat d - 10 :: s32)
    = digit_char d"
proof -
  have "(48 + of_nat d :: s32) = of_nat (48 + d)" and "(97 + of_nat d - 10 :: s32) = of_nat (87 + d)"
    by (simp_all add: algebra_simps)
  then show ?thesis
    using assms ucast_of_nat [of "48 + d"] ucast_of_nat [of "87 + d"]
    by (simp add: sint_of_nat32 digit_char_def)
qed

lemma length_digits_le: "length (digits_le b n) \<le> n"
proof (induction b n rule: digits_le.induct)
  case (1 b n)
  show ?case
  proof (cases "n = 0 \<or> b < 2")
    case False
    then have "n div b < n" by simp
    then show ?thesis using 1 False by (simp add: digits_le.simps [of b n])
  qed (auto simp: digits_le.simps [of b n])
qed

lemma itoa_digits_eq:
  assumes "2 \<le> b" and "b < 2 ^ 31" and "n < 2 ^ 31"
  shows "itoa_digits m p (of_nat n) (of_nat b) =
    Some (store m p (map digit_char (digits_le b n)), p + of_nat (length (digits_le b n)))"
  using assms
proof (induction b n arbitrary: m p rule: digits_le.induct)
  case (1 b n)
  show ?case
  proof (cases "n = 0")
    case True
    then show ?thesis by (simp add: itoa_digits.simps digits_le.simps)
  next
    case False
    let ?m = "m(p := digit_char (n mod b))" and ?ds = "digits_le b (n div b)"
    have "unat (of_nat n :: s32) = n" by (rule unat_of_nat32) (use 1 in simp)
    then have nz: "(of_nat n :: s32) \<noteq> 0" using False by auto
    have md: "n mod b < 2 ^ 31" using 1 by (meson le_less_trans mod_less_eq_dividend)
    have "itoa_digits m p (of_nat n) (of_nat b) = itoa_digits ?m (p + 1) (of_nat (n div b)) (of_nat b)"
      using 1 nz digit_char_ucast [OF md]
      by (subst itoa_digits.simps) (simp add: c_mod_of_nat c_div_of_nat Let_def)
    also have "\<dots> = Some (store ?m (p + 1) (map digit_char ?ds), p + 1 + of_nat (length ?ds))"
      using False 1 by (intro "1.IH") (auto intro: le_less_trans [OF div_le_dividend])
    also have "store ?m (p + 1) (map digit_char ?ds) =
        store m p (map digit_char (digits_le b n))"
      using False 1 order.trans [OF length_digits_le div_le_dividend, of b n b]
      by (simp add: digits_le.simps [of b n] store_Cons)
    finally show ?thesis using False 1 by (simp add: digits_le.simps [of b n] add.assoc)
  qed
qed

lemma itoa_reverse_eq:
  assumes "0 < unat p" and "unat p + length (pre @ mid @ post) < 2 ^ 32"
  shows "itoa_reverse (store m p (pre @ mid @ post)) (p + of_nat (length pre))
      (p + of_nat (length pre) + of_nat (length mid)) = Some (store m p (pre @ rev mid @ post))"
  using assms(2)
proof (induction "length mid" arbitrary: pre mid post rule: less_induct)
  case less
  let ?xs = "pre @ mid @ post"
  have addr: "unat (p + of_nat i) = unat p + i" if "i \<le> length ?xs" for i
    by (rule unat_plus_of_nat) (use that less.prems in linarith)
  show ?case
  proof (cases "length mid \<le> 1")
    case True
    then consider "mid = []" | x where "mid = [x]" by (cases mid) auto
    then show ?thesis
    proof cases
      case 1
      have "unat (p + of_nat (length pre)) > 0" using assms(1) addr [of "length pre"] by simp
      then have "\<not> p + of_nat (length pre) < p + of_nat (length pre) - 1"
        by (simp add: word_less_nat_alt unat_minus_one unat_gt_0)
      then show ?thesis using 1 by (subst itoa_reverse.simps) (simp add: Let_def)
    next
      case 2
      then show ?thesis by (subst itoa_reverse.simps) (simp add: Let_def)
    qed
  next
    case False
    then obtain x mid' y where mid: "mid = x # mid' @ [y]"
      by (cases mid; cases "tl mid" rule: rev_cases) auto
    let ?i = "length pre" and ?j = "length pre + Suc (length mid')"
    have ptr: "p + of_nat ?i + of_nat (length mid) - 1 = p + of_nat ?j" by (simp add: mid)
    have lt: "p + of_nat ?i < p + of_nat ?j"
      using addr [of ?i] addr [of ?j] by (simp add: word_less_nat_alt mid)
    have "itoa_reverse (store m p ?xs) (p + of_nat ?i) (p + of_nat ?i + of_nat (length mid)) =
       itoa_reverse (store m p (pre @ y # mid' @ x # post)) (p + of_nat ?i + 1) (p + of_nat ?j)"
    proof -
      let ?m = "store m p ?xs"
      have x: "?m (p + of_nat ?i) = x" and y: "?m (p + of_nat ?j) = y"
        using store_inside [of ?i ?xs m p] store_inside [of ?j ?xs m p] less.prems
        by (simp_all add: mid nth_append)
      have "?xs[?j := x, ?i := y] = pre @ y # mid' @ x # post"
        by (simp add: mid list_update_append)
      then have "?m(p + of_nat ?j := x, p + of_nat ?i := y) = store m p (pre @ y # mid' @ x # post)"
        using store_update [of ?j ?xs m p x] store_update [of ?i "?xs[?j := x]" m p y] less.prems
        by (simp add: mid)
      then show ?thesis
        using x y lt by (subst itoa_reverse.simps) (simp add: Let_def ptr)
    qed
    also have "\<dots> = Some (store m p (pre @ rev mid @ post))"
      using less.hyps [of mid' "pre @ [y]" "x # post"] less.prems
      by (simp add: mid ac_simps)
    finally show ?thesis .
  qed
qed

text \<open>The digits loop, the NUL and the reversal together.\<close>

lemma itoa_positive:
  assumes "2 \<le> b" and "b < 2 ^ 31" and "0 < n" and "n < 2 ^ 31"
    and "0 < unat p" and "unat p + length (nat_str b n) + 1 < 2 ^ 32"
  shows "do { (m2, ptr) \<leftarrow> itoa_digits m p (of_nat n) (of_nat b);
              itoa_reverse (m2(ptr := 0)) p ptr } = Some (store m p (nat_str b n @ [0]))"
proof -
  let ?D = "map digit_char (digits_le b n)"
  have ns: "nat_str b n = rev ?D" using assms(3) by (simp add: nat_str_def rev_map)
  have "(store m p ?D)(p + of_nat (length ?D) := 0) = store m p (?D @ [0])"
    using assms(6) by (intro store_snoc) (simp add: ns)
  then show ?thesis
    using assms itoa_reverse_eq [of p "[]" ?D "[0]" m]
    by (simp add: itoa_digits_eq ns)
qed

definition itoa_text :: "nat \<Rightarrow> int \<Rightarrow> u8 list" where
  "itoa_text b v = (if v < 0 then ch CHR ''-'' # nat_str b (nat (- v)) else nat_str b (nat v))"

lemma itoa_eq:
  assumes b: "2 \<le> b" "b < 2 ^ 31"
    and v: "0 \<le> sint v \<or> b = 10 \<and> sint v \<noteq> - (2 ^ 31)"
    and str: "0 < unat str" "unat str + length (itoa_text b (sint v)) + 1 < 2 ^ 32"
  shows "itoa m v str (of_nat b) = Some (store m str (itoa_text b (sint v) @ [0]))"
proof -
  have lo: "- (2 ^ 31) \<le> sint v" and hi: "sint v < 2 ^ 31"
    using sint_ge [of v] sint_lt [of v] by simp_all
  consider "sint v = 0" | "0 < sint v" | "sint v < 0" by linarith
  then show ?thesis
  proof cases
    case 1
    then have "v = 0" by (simp add: signed_eq_0_iff)
    then show ?thesis
      by (simp add: itoa_def itoa_text_def nat_str_def store_Cons digit_char_def ch_def)
  next
    case 2
    define n where "n = nat (sint v)"
    have v_eq: "v = of_nat n" using 2 by (simp add: n_def)
    have n: "0 < n" "n < 2 ^ 31" using 2 hi by (simp_all add: n_def)
    have "v \<noteq> 0" using 2 by auto
    have "unat str + length (nat_str b n) + 1 < 2 ^ 32"
      using str(2) 2 by (simp add: itoa_text_def n_def)
    note this [THEN itoa_positive [OF b n str(1)], of m, folded v_eq]
    with 2 \<open>v \<noteq> 0\<close> show ?thesis by (simp add: itoa_def itoa_text_def Let_def flip: n_def)
  next
    case 3
    define n where "n = nat (- sint v)"
    have v_eq: "- v = of_nat n" using 3 by (simp add: n_def)
    have n: "0 < n" "n < 2 ^ 31" using 3 v lo by (auto simp: n_def)
    have ten: "b = 10" using 3 v by simp
    have "v \<noteq> 0" using 3 by auto
    have p1: "unat (str + 1) = Suc (unat str)"
      using str by (intro unat_Suc_less [of _ "-1"]) (simp add: word_less_nat_alt)
    have fits: "unat str + length (nat_str 10 n) + 2 < 2 ^ 32"
      using str(2) 3 by (simp add: itoa_text_def n_def ten)
    have "store (m(str := ch CHR ''-'')) (str + 1) (nat_str 10 n @ [0]) =
        store m str (ch CHR ''-'' # nat_str 10 n @ [0])"
      using fits by (intro store_Cons [symmetric]) simp
    moreover note itoa_positive [of 10 n "str + 1" "m(str := ch CHR ''-'')", OF _ _ n, folded v_eq]
    ultimately show ?thesis
      using 3 \<open>v \<noteq> 0\<close> fits p1 by (simp add: itoa_def itoa_text_def Let_def ten flip: n_def)
  qed
qed

section \<open>Round trip\<close>

lemma digits_le_bound: "2 \<le> b \<Longrightarrow> d \<in> set (digits_le b n) \<Longrightarrow> d < b"
proof (induction b n rule: digits_le.induct)
  case (1 b n)
  then show ?case by (cases "n = 0") (auto simp: digits_le.simps [of b n] digits_le.simps [of b 0])
qed

lemma digits_le_nonempty: "2 \<le> b \<Longrightarrow> 0 < n \<Longrightarrow> digits_le b n \<noteq> []"
  by (simp add: digits_le.simps [of b n])

lemma unat_digit_char:
  assumes "d < 36"
  shows "unat (digit_char d) = (if d < 10 then 48 + d else 87 + d)"
proof -
  have "unat (of_nat k :: u8) = k" if "k < 256" for k
    using that by (simp add: unat_of_nat)
  note u = this
  show ?thesis unfolding digit_char_def by (rule u) (use assms in simp)
qed

lemma digit_char_digit:
  assumes "d < 10"
  shows "isdigit (sint (digit_char d))" and "unat (digit_char d) = 48 + d"
proof -
  show u: "unat (digit_char d) = 48 + d" using assms by (simp add: unat_digit_char)
  have "uint (digit_char d) = int (unat (digit_char d))" by simp
  then have "uint (digit_char d) = 48 + int d" by (simp only: u of_nat_add of_nat_numeral)
  then show "isdigit (sint (digit_char d))"
    using assms by (simp add: isdigit_def sint_u8)
qed

lemma digit_char_nonzero:
  assumes "d < 36"
  shows "digit_char d \<noteq> 0"
proof
  assume "digit_char d = 0"
  then have "unat (digit_char d) = 0" by simp
  then show False using assms by (simp add: unat_digit_char split: if_splits)
qed

lemma dec_val_digits: "dec_val 0 (map digit_char (rev (digits_le 10 n))) = n"
proof (induction "10 :: nat" n rule: digits_le.induct)
  case (1 n)
  show ?case
  proof (cases "n = 0")
    case False
    then show ?thesis
      using 1 digit_char_digit(2) [of "n mod 10"]
      by (simp add: digits_le.simps [of 10 n] dec_val_append)
  qed (simp add: digits_le.simps)
qed

lemma nat_str_digits:
  "nat_str 10 n \<noteq> []" "\<forall>c \<in> set (nat_str 10 n). isdigit (sint c)" "dec_val 0 (nat_str 10 n) = n"
  using digits_le_bound [of 10 _ n] digits_le_nonempty [of 10 n] digit_char_digit
  by (auto simp: nat_str_def dec_val_digits)

lemma nat_str_nonzero: "2 \<le> b \<Longrightarrow> b \<le> 36 \<Longrightarrow> 0 \<notin> set (nat_str b n)"
proof
  assume b: "2 \<le> b" "b \<le> 36" and "0 \<in> set (nat_str b n)"
  then obtain d where d: "d = 0 \<or> d \<in> set (digits_le b n)" "digit_char d = 0"
    by (fastforce simp: nat_str_def split: if_splits)
  then have "d < b" using digits_le_bound [OF b(1), of d n] b(1) by auto
  then show False using d(2) digit_char_nonzero [of d] b(2) by simp
qed

lemma itoa_text_nonzero: "2 \<le> b \<Longrightarrow> b \<le> 36 \<Longrightarrow> 0 \<notin> set (itoa_text b v)"
  using nat_str_nonzero by (auto simp: itoa_text_def ch_def)

lemma length_digits_bound: "n < b ^ k \<Longrightarrow> length (digits_le b n) \<le> k"
proof (induction b n arbitrary: k rule: digits_le.induct)
  case (1 b n)
  show ?case
  proof (cases "n = 0 \<or> b < 2")
    case False
    then obtain k' where k: "k = Suc k'" using 1 by (cases k) auto
    then have "n div b < b ^ k'" using 1 False by (simp add: less_mult_imp_div_less mult.commute)
    then show ?thesis using 1 False k by (simp add: digits_le.simps [of b n])
  qed (auto simp: digits_le.simps [of b n])
qed

lemma length_itoa_text_10: "- (2 ^ 31) \<le> v \<Longrightarrow> v < 2 ^ 31 \<Longrightarrow> length (itoa_text 10 v) \<le> 11"
  using length_digits_bound [of "nat v" 10 10] length_digits_bound [of "nat (- v)" 10 10]
  by (auto simp: itoa_text_def nat_str_def nat_less_iff)

lemma atoi_itoa_text:
  assumes "cstr m p (itoa_text 10 (sint v) @ rest)" and "rest = [] \<or> \<not> isdigit (sint (hd rest))"
  shows "atoi m p = Some v"
proof -
  let ?n = "nat (if sint v < 0 then - sint v else sint v)"
  let ?sg = "if sint v < 0 then [ch CHR ''-''] else []"
  have "cstr m p ([] @ ?sg @ nat_str 10 ?n @ rest)"
    using assms(1) by (simp add: itoa_text_def split: if_splits)
  then have "atoi m p = Some ((if ?sg = [ch CHR ''-''] then - 1 else 1) * of_nat (dec_val 0 (nat_str 10 ?n)))"
    by (rule atoi_cstr) (use assms(2) nat_str_digits in auto)
  also have "\<dots> = Some v" by (simp add: nat_str_digits)
  finally show ?thesis .
qed

lemma itoa_decimal:
  assumes "sint v \<noteq> - (2 ^ 31)" and "0 < unat str" and "unat str + 12 < 2 ^ 32"
  shows "\<exists>m'. itoa m v str 10 = Some m' \<and> cstr m' str (itoa_text 10 (sint v))"
proof -
  let ?t = "itoa_text 10 (sint v)"
  have len: "length ?t \<le> 11"
    using length_itoa_text_10 [of "sint v"] sint_ge [of v] sint_lt [of v] by simp
  have "itoa m v str 10 = Some (store m str (?t @ [0]))"
    using itoa_eq [of 10 v str m] assms len by simp
  moreover have "cstr (store m str (?t @ [0])) str ?t"
    using len by (intro cstr_store itoa_text_nonzero) simp_all
  ultimately show ?thesis by blast
qed

end
