(* ===== verification/Terminal.thy ===== *)
theory Terminal
  imports CStrings
begin

text \<open>
  The VGA text terminal of \<open>kernel.c\<close>: colours and cells, the cursor, \<open>terminal_putchar\<close> and
  what is written through it. The locale \<open>text_screen\<close> is the contract of a character
  screen (a printable character lands under the cursor and moves it on); its lemmas on whole
  strings are proved from the contract, and it is interpreted on \<open>terminal_putchar\<close>.
\<close>

section \<open>Colours and cells\<close>

datatype vga_color =
    VGA_COLOR_BLACK | VGA_COLOR_BLUE | VGA_COLOR_GREEN | VGA_COLOR_CYAN
  | VGA_COLOR_RED | VGA_COLOR_MAGENTA | VGA_COLOR_BROWN | VGA_COLOR_LIGHT_GREY
  | VGA_COLOR_DARK_GREY | VGA_COLOR_LIGHT_BLUE | VGA_COLOR_LIGHT_GREEN | VGA_COLOR_LIGHT_CYAN
  | VGA_COLOR_LIGHT_RED | VGA_COLOR_LIGHT_MAGENTA | VGA_COLOR_LIGHT_BROWN | VGA_COLOR_WHITE

fun vga_code :: "vga_color \<Rightarrow> u8" where
  "vga_code VGA_COLOR_BLACK = 0"
| "vga_code VGA_COLOR_BLUE = 1"
| "vga_code VGA_COLOR_GREEN = 2"
| "vga_code VGA_COLOR_CYAN = 3"
| "vga_code VGA_COLOR_RED = 4"
| "vga_code VGA_COLOR_MAGENTA = 5"
| "vga_code VGA_COLOR_BROWN = 6"
| "vga_code VGA_COLOR_LIGHT_GREY = 7"
| "vga_code VGA_COLOR_DARK_GREY = 8"
| "vga_code VGA_COLOR_LIGHT_BLUE = 9"
| "vga_code VGA_COLOR_LIGHT_GREEN = 10"
| "vga_code VGA_COLOR_LIGHT_CYAN = 11"
| "vga_code VGA_COLOR_LIGHT_RED = 12"
| "vga_code VGA_COLOR_LIGHT_MAGENTA = 13"
| "vga_code VGA_COLOR_LIGHT_BROWN = 14"
| "vga_code VGA_COLOR_WHITE = 15"

lemma vga_code_inj [simp]: "vga_code a = vga_code b \<longleftrightarrow> a = b"
  by (cases a; cases b; simp)

text \<open>Colours are ordered by their code, as C orders the enumerators.\<close>

instantiation vga_color :: linorder
begin

definition less_eq_vga_color :: "vga_color \<Rightarrow> vga_color \<Rightarrow> bool" where
  "less_eq_vga_color a b \<longleftrightarrow> vga_code a \<le> vga_code b"

definition less_vga_color :: "vga_color \<Rightarrow> vga_color \<Rightarrow> bool" where
  "less_vga_color a b \<longleftrightarrow> vga_code a < vga_code b"

instance
  by standard (auto simp: less_eq_vga_color_def less_vga_color_def order.strict_iff_order)

end

definition vga_entry_color :: "vga_color \<Rightarrow> vga_color \<Rightarrow> u8" where
  "vga_entry_color fg bg = vga_code fg OR push_bit 4 (vga_code bg)"

definition vga_entry :: "u8 \<Rightarrow> u8 \<Rightarrow> u16" where
  "vga_entry uc color = ucast uc OR push_bit 8 (ucast color)"

lemma vga_entry_color_fields:
  "vga_entry_color fg bg AND 0x0F = vga_code fg" "drop_bit 4 (vga_entry_color fg bg) = vga_code bg"
  by (cases fg; cases bg; simp add: vga_entry_color_def)+

lemma vga_entry_fields:
  "ucast (vga_entry uc color) = uc" "ucast (drop_bit 8 (vga_entry uc color)) = color"
  by (rule bit_word_eqI; auto simp: vga_entry_def bit_simps dest: bit_imp_le_length)+

section \<open>The terminal\<close>

definition VGA_WIDTH :: u32 where "VGA_WIDTH = 80"
definition VGA_HEIGHT :: u32 where "VGA_HEIGHT = 25"

text \<open>
  \<open>terminal_buffer\<close> is the address of the first cell; \<open>vram\<close> holds the 16-bit cells by
  address. It is kept apart from the byte memory: no C string lies in the video memory.
\<close>

record terminal =
  terminal_row :: u32
  terminal_column :: u32
  terminal_color :: u8
  terminal_buffer :: u32
  vram :: "u32 \<Rightarrow> u16"

definition set_cell :: "u32 \<Rightarrow> u16 \<Rightarrow> terminal \<Rightarrow> terminal" where
  "set_cell index v t = t\<lparr>vram := (vram t)(terminal_buffer t + 2 * index := v)\<rparr>"

function init_row :: "u32 \<Rightarrow> u32 \<Rightarrow> terminal \<Rightarrow> terminal" where
  "init_row y x t =
     (if x < VGA_WIDTH
      then init_row y (x + 1)
             (set_cell (y * VGA_WIDTH + x) (vga_entry (ch CHR '' '') (terminal_color t)) t)
      else t)"
  by pat_completeness auto
termination
  by (relation "measure (\<lambda>(y, x, t). unat VGA_WIDTH - unat x)") auto

function init_rows :: "u32 \<Rightarrow> terminal \<Rightarrow> terminal" where
  "init_rows y t = (if y < VGA_HEIGHT then init_rows (y + 1) (init_row y 0 t) else t)"
  by pat_completeness auto
termination
  by (relation "measure (\<lambda>(y, t). unat VGA_HEIGHT - unat y)") auto

declare init_row.simps [simp del] init_rows.simps [simp del]

definition terminal_initialize :: "terminal \<Rightarrow> terminal" where
  "terminal_initialize t =
     init_rows 0 (t\<lparr>terminal_row := 0, terminal_column := 0,
       terminal_color := vga_entry_color VGA_COLOR_LIGHT_GREY VGA_COLOR_BLACK,
       terminal_buffer := 0xB8000\<rparr>)"

definition terminal_setcolor :: "u8 \<Rightarrow> terminal \<Rightarrow> terminal" where
  "terminal_setcolor color t = t\<lparr>terminal_color := color\<rparr>"

definition terminal_putentryat :: "u8 \<Rightarrow> u8 \<Rightarrow> u32 \<Rightarrow> u32 \<Rightarrow> terminal \<Rightarrow> terminal" where
  "terminal_putentryat c color x y t = set_cell (y * VGA_WIDTH + x) (vga_entry c color) t"

definition terminal_putchar :: "u8 \<Rightarrow> terminal \<Rightarrow> terminal" where
  "terminal_putchar c t =
     (if c = ch CHR 0x0A then
        let t1 = t\<lparr>terminal_column := 0, terminal_row := terminal_row t + 1\<rparr> in
        if terminal_row t1 = VGA_HEIGHT then t1\<lparr>terminal_row := 0\<rparr> else t1
      else if c = ch CHR 0x08 then
        let t1 = (if terminal_column t > 0 then t\<lparr>terminal_column := terminal_column t - 1\<rparr>
                  else if terminal_row t > 0
                  then t\<lparr>terminal_row := terminal_row t - 1, terminal_column := VGA_WIDTH - 1\<rparr>
                  else t)
        in terminal_putentryat (ch CHR '' '') (terminal_color t1) (terminal_column t1) (terminal_row t1) t1
      else
        let t1 = terminal_putentryat c (terminal_color t) (terminal_column t) (terminal_row t) t;
            t2 = t1\<lparr>terminal_column := terminal_column t1 + 1\<rparr>
        in if terminal_column t2 = VGA_WIDTH then
             let t3 = t2\<lparr>terminal_column := 0, terminal_row := terminal_row t2 + 1\<rparr>
             in if terminal_row t3 = VGA_HEIGHT then t3\<lparr>terminal_row := 0\<rparr> else t3
           else t2)"

function terminal_write_loop :: "mem \<Rightarrow> u32 \<Rightarrow> u32 \<Rightarrow> u32 \<Rightarrow> terminal \<Rightarrow> terminal" where
  "terminal_write_loop m data sz i t =
     (if i < sz then terminal_write_loop m data sz (i + 1) (terminal_putchar (m (data + i)) t) else t)"
  by pat_completeness auto
termination
  by (relation "measure (\<lambda>(m, d, n, i, t). unat n - unat i)") auto

declare terminal_write_loop.simps [simp del]

definition terminal_write :: "mem \<Rightarrow> u32 \<Rightarrow> u32 \<Rightarrow> terminal \<Rightarrow> terminal" where
  "terminal_write m data sz t = terminal_write_loop m data sz 0 t"

definition terminal_writestring :: "mem \<Rightarrow> u32 \<Rightarrow> terminal \<Rightarrow> terminal option" where
  "terminal_writestring m data t =
     do { l \<leftarrow> strlen m data; Some (terminal_write m data l t) }"

definition terminal_writeline :: "mem \<Rightarrow> u32 \<Rightarrow> terminal \<Rightarrow> terminal option" where
  "terminal_writeline m data t =
     do { l \<leftarrow> strlen m data; Some (terminal_write m data l t) }"

definition hex_chars :: "u8 list" where
  "hex_chars = lit ''0123456789ABCDEF''"

definition printk_hex :: "u8 \<Rightarrow> terminal \<Rightarrow> terminal option" where
  "printk_hex value t =
     (let hex_string = (lit ''0x00'')
            [2 := hex_chars ! unat (drop_bit 4 value AND 0x0F),
             3 := hex_chars ! unat (value AND 0x0F)]
      in terminal_writestring (lit_mem hex_string) 0 t)"

definition us_normal_to_shifted :: "char \<Rightarrow> u8" where
  "us_normal_to_shifted c =
     (case map_of (zip ''0123456789abcdefghijklmnopqrstuvwxyz-=[];,./''
                       '')!@#$%^&*(ABCDEFGHIJKLMNOPQRSTUVWXYZ_+{}:<>?'') c of
        Some d \<Rightarrow> ch d
      | None \<Rightarrow> if c = CHR 0x27 then ch CHR 0x22 else if c = CHR 0x5C then ch CHR ''|'' else 0)"

section \<open>The contract of a text screen\<close>

text \<open>
  \<open>pos\<close> is the cell under the cursor, of \<open>cap\<close> cells in reading order; \<open>entry c a\<close> the value
  of a cell that shows the character \<open>c\<close> in the attribute \<open>a\<close>.
\<close>

definition printable :: "u8 \<Rightarrow> bool" where
  "printable c \<longleftrightarrow> c \<noteq> ch CHR 0x0A \<and> c \<noteq> ch CHR 0x08"

lemma mod_add_cancel_less:
  assumes "k < l" and "l < cap"
  shows "(p + k) mod cap \<noteq> (p + l) mod (cap :: nat)"
proof
  assume "(p + k) mod cap = (p + l) mod cap"
  then have "cap dvd (p + l) - (p + k)"
    using assms by (metis add_le_cancel_left less_imp_le mod_eq_dvd_iff_nat)
  then show False using assms by (auto dest: dvd_imp_le)
qed

locale text_screen =
  fixes put :: "u8 \<Rightarrow> 's \<Rightarrow> 's"
    and pos :: "'s \<Rightarrow> nat"
    and cell :: "'s \<Rightarrow> nat \<Rightarrow> u16"
    and attr :: "'s \<Rightarrow> u8"
    and entry :: "u8 \<Rightarrow> u8 \<Rightarrow> u16"
    and inv :: "'s \<Rightarrow> bool"
    and cap :: nat
  assumes pos_less: "inv s \<Longrightarrow> pos s < cap"
    and put_inv: "inv s \<Longrightarrow> inv (put c s) \<and> attr (put c s) = attr s"
    and put_pos: "inv s \<Longrightarrow> printable c \<Longrightarrow> pos (put c s) = (pos s + 1) mod cap"
    and put_cell: "inv s \<Longrightarrow> printable c \<Longrightarrow> i < cap \<Longrightarrow>
      cell (put c s) i = (if i = pos s then entry c (attr s) else cell s i)"
begin

lemma puts_inv: "inv s \<Longrightarrow> inv (fold put cs s) \<and> attr (fold put cs s) = attr s"
  by (induction cs arbitrary: s) (simp_all add: put_inv)

lemma puts_pos: "inv s \<Longrightarrow> \<forall>c \<in> set cs. printable c \<Longrightarrow> pos (fold put cs s) = (pos s + length cs) mod cap"
  by (induction cs arbitrary: s) (simp_all add: put_pos put_inv pos_less mod_add_left_eq)

text \<open>A string no longer than the screen is shown whole, and nothing else changes.\<close>

lemma puts_cell:
  assumes "inv s" and "\<forall>c \<in> set cs. printable c" and "length cs \<le> cap"
  shows "k < length cs \<Longrightarrow> cell (fold put cs s) ((pos s + k) mod cap) = entry (cs ! k) (attr s)"
    and "i < cap \<Longrightarrow> (\<forall>k < length cs. i \<noteq> (pos s + k) mod cap) \<Longrightarrow> cell (fold put cs s) i = cell s i"
proof -
  have "(k < length cs \<longrightarrow> cell (fold put cs s) ((pos s + k) mod cap) = entry (cs ! k) (attr s)) \<and>
    (i < cap \<longrightarrow> (\<forall>k < length cs. i \<noteq> (pos s + k) mod cap) \<longrightarrow> cell (fold put cs s) i = cell s i)"
    for i k
    using assms
  proof (induction cs arbitrary: i k rule: rev_induct)
    case (snoc c cs)
    note ih = snoc.IH [OF snoc.prems(1), simplified]
    let ?s = "fold put cs s"
    have puts: "fold put (cs @ [c]) s = put c ?s" by simp
    have s: "inv ?s" "attr ?s = attr s" "pos ?s = (pos s + length cs) mod cap" "0 < cap"
      using puts_inv [of s cs] puts_pos [of s cs] snoc.prems pos_less [of s] by simp_all
    have neq: "(pos s + k) mod cap \<noteq> (pos s + length cs) mod cap" if "k < length cs"
      using that snoc.prems(3) by (simp add: mod_add_cancel_less)
    show ?case
      using s snoc.prems neq ih [of k] ih [of _ i]
      by (auto simp: put_cell nth_append less_Suc_eq)
  qed (simp add: assms)
  then show "k < length cs \<Longrightarrow> cell (fold put cs s) ((pos s + k) mod cap) = entry (cs ! k) (attr s)"
    and "i < cap \<Longrightarrow> (\<forall>k < length cs. i \<noteq> (pos s + k) mod cap) \<Longrightarrow> cell (fold put cs s) i = cell s i"
    by blast+
qed

end

section \<open>The terminal meets it\<close>

definition term_ok :: "terminal \<Rightarrow> bool" where
  "term_ok t \<longleftrightarrow> terminal_row t < VGA_HEIGHT \<and> terminal_column t < VGA_WIDTH"

definition cursor :: "terminal \<Rightarrow> nat" where
  "cursor t = unat (terminal_row t) * 80 + unat (terminal_column t)"

definition cell_at :: "terminal \<Rightarrow> nat \<Rightarrow> u16" where
  "cell_at t i = vram t (terminal_buffer t + 2 * of_nat i)"

lemma term_ok_unat: "term_ok t \<longleftrightarrow> unat (terminal_row t) < 25 \<and> unat (terminal_column t) < 80"
  by (simp add: term_ok_def VGA_HEIGHT_def VGA_WIDTH_def word_less_nat_alt)

lemma cursor_less: "term_ok t \<Longrightarrow> cursor t < 2000"
  by (auto simp: term_ok_unat cursor_def)

text \<open>Cells of distinct screen positions are distinct addresses.\<close>

lemma cell_addr_eq:
  assumes "i < 2000" and "j < 2000"
  shows "b + 2 * of_nat i = b + (2 * of_nat j :: u32) \<longleftrightarrow> i = j"
proof -
  have "b + 2 * of_nat i = b + (2 * of_nat j :: u32) \<longleftrightarrow> (of_nat (2 * i) :: u32) = of_nat (2 * j)"
    by simp
  also have "\<dots> \<longleftrightarrow> i = j" using of_nat_inj32 [of "2 * i" "2 * j"] assms by simp
  finally show ?thesis .
qed

lemma cell_at_set_cell:
  assumes "i < 2000" and "j < 2000"
  shows "cell_at (set_cell (of_nat i) v t) j = (if j = i then v else cell_at t j)"
  using cell_addr_eq [OF assms(2,1)] by (simp add: cell_at_def set_cell_def)

lemma cursor_index:
  "terminal_row t * VGA_WIDTH + terminal_column t = of_nat (cursor t)"
  by (simp add: cursor_def VGA_WIDTH_def)

lemma set_cell_sel [simp]:
  "terminal_row (set_cell i v t) = terminal_row t"
  "terminal_column (set_cell i v t) = terminal_column t"
  "terminal_color (set_cell i v t) = terminal_color t"
  "terminal_buffer (set_cell i v t) = terminal_buffer t"
  by (simp_all add: set_cell_def)

lemma cell_at_cursor_moved [simp]:
  "cell_at (t\<lparr>terminal_row := r\<rparr>) = cell_at t" "cell_at (t\<lparr>terminal_column := c\<rparr>) = cell_at t"
  "cell_at (t\<lparr>terminal_column := c, terminal_row := r\<rparr>) = cell_at t"
  by (simp_all add: cell_at_def fun_eq_iff)

text \<open>A printable character: the cell under the cursor, then one position on, modulo the screen.\<close>

lemma putchar_printable:
  assumes "printable c"
  shows "terminal_putchar c t =
    (let t1 = set_cell (of_nat (cursor t)) (vga_entry c (terminal_color t)) t in
     if terminal_column t + 1 = VGA_WIDTH
     then t1\<lparr>terminal_column := 0,
             terminal_row := if terminal_row t + 1 = VGA_HEIGHT then 0 else terminal_row t + 1\<rparr>
     else t1\<lparr>terminal_column := terminal_column t + 1\<rparr>)"
  using assms
  by (simp add: terminal_putchar_def printable_def terminal_putentryat_def cursor_index Let_def)

lemma unat_Suc_row: "term_ok t \<Longrightarrow> unat (terminal_row t + 1) = unat (terminal_row t) + 1"
  by (simp add: term_ok_unat unat_word_ariths)

lemma unat_Suc_column: "term_ok t \<Longrightarrow> unat (terminal_column t + 1) = unat (terminal_column t) + 1"
  by (simp add: term_ok_unat unat_word_ariths)

lemma row_end: "term_ok t \<Longrightarrow> terminal_row t + 1 = VGA_HEIGHT \<longleftrightarrow> unat (terminal_row t) = 24"
  using unat_Suc_row [of t] by (simp add: VGA_HEIGHT_def word_unat_eq_iff)

lemma column_end: "term_ok t \<Longrightarrow> terminal_column t + 1 = VGA_WIDTH \<longleftrightarrow> unat (terminal_column t) = 79"
  using unat_Suc_column [of t] by (simp add: VGA_WIDTH_def word_unat_eq_iff)

lemmas cursor_simps = unat_Suc_row unat_Suc_column row_end column_end

lemma putchar_newline:
  "terminal_putchar (ch CHR 0x0A) t =
    t\<lparr>terminal_column := 0,
      terminal_row := if terminal_row t + 1 = VGA_HEIGHT then 0 else terminal_row t + 1\<rparr>"
  by (simp add: terminal_putchar_def Let_def)

definition cursor_back :: "terminal \<Rightarrow> terminal" where
  "cursor_back t =
     (if terminal_column t > 0 then t\<lparr>terminal_column := terminal_column t - 1\<rparr>
      else if terminal_row t > 0
      then t\<lparr>terminal_row := terminal_row t - 1, terminal_column := VGA_WIDTH - 1\<rparr> else t)"

lemma putchar_backspace:
  "terminal_putchar (ch CHR 0x08) t =
    set_cell (of_nat (cursor (cursor_back t)))
      (vga_entry (ch CHR '' '') (terminal_color t)) (cursor_back t)"
proof -
  have "ch CHR 0x08 \<noteq> ch CHR 0x0A" by (simp add: ch_def)
  then show ?thesis
    by (auto simp: terminal_putchar_def cursor_back_def terminal_putentryat_def cursor_index Let_def)
qed

lemma cursor_back_ok:
  assumes "term_ok t"
  shows "term_ok (cursor_back t)" and "cursor (cursor_back t) = cursor t - 1"
    and "terminal_color (cursor_back t) = terminal_color t" and "cell_at (cursor_back t) = cell_at t"
proof -
  have 1: "x > 0 \<Longrightarrow> unat (x - 1) = unat x - 1" for x :: u32
    by (simp add: unat_minus_one word_gt_0)
  show "term_ok (cursor_back t)"
    using assms by (auto simp: term_ok_unat cursor_back_def VGA_WIDTH_def 1)
  have nz: "0 < unat x" if "x \<noteq> 0" for x :: u32 using that by (simp add: unat_gt_0)
  show "cursor (cursor_back t) = cursor t - 1"
    using assms nz [of "terminal_column t"] nz [of "terminal_row t"]
    by (auto simp: term_ok_unat cursor_def cursor_back_def VGA_WIDTH_def 1 word_gt_0 diff_mult_distrib)
qed (simp_all add: cursor_back_def cell_at_def fun_eq_iff)

lemma term_ok_set_cell [simp]: "term_ok (set_cell i v t) = term_ok t"
  by (simp add: term_ok_def)

lemma cursor_set_cell [simp]: "cursor (set_cell i v t) = cursor t"
  by (simp add: cursor_def)

text \<open>The cursor stays on the screen, whatever the character.\<close>

lemma putchar_ok:
  assumes "term_ok t"
  shows "term_ok (terminal_putchar c t)" and "terminal_color (terminal_putchar c t) = terminal_color t"
proof -
  have "term_ok (terminal_putchar c t) \<and> terminal_color (terminal_putchar c t) = terminal_color t"
  proof (cases "printable c")
    case True
    then show ?thesis
      using assms by (auto simp: putchar_printable Let_def term_ok_unat cursor_simps)
  next
    case False
    then consider "c = ch CHR 0x0A" | "c = ch CHR 0x08" by (auto simp: printable_def)
    then show ?thesis
    proof cases
      case 1
      then show ?thesis using assms by (auto simp: putchar_newline term_ok_unat cursor_simps)
    next
      case 2
      then show ?thesis using cursor_back_ok [OF assms] by (simp add: putchar_backspace)
    qed
  qed
  then show "term_ok (terminal_putchar c t)" "terminal_color (terminal_putchar c t) = terminal_color t"
    by simp_all
qed

lemma putchar_cursor:
  assumes "term_ok t" and "printable c"
  shows "cursor (terminal_putchar c t) = (cursor t + 1) mod 2000"
  using assms unat_Suc_row [OF assms(1)] unat_Suc_column [OF assms(1)]
  by (auto simp: putchar_printable Let_def cursor_def row_end column_end term_ok_unat)

lemma putchar_cell:
  assumes "term_ok t" and "printable c" and "i < 2000"
  shows "cell_at (terminal_putchar c t) i =
    (if i = cursor t then vga_entry c (terminal_color t) else cell_at t i)"
  using assms(2) cell_at_set_cell [OF cursor_less [OF assms(1)] assms(3)]
  by (cases "i = cursor t") (simp_all add: putchar_printable Let_def)

interpretation scr: text_screen terminal_putchar cursor cell_at terminal_color vga_entry term_ok 2000
  by unfold_locales (simp_all add: cursor_less putchar_ok putchar_cursor putchar_cell)

text \<open>A newline starts the next row, or the first one after the last; it changes no cell.\<close>

lemma newline_cursor:
  assumes "term_ok t"
  shows "cursor (terminal_putchar (ch CHR 0x0A) t) = ((cursor t div 80 + 1) * 80) mod 2000"
    and "cell_at (terminal_putchar (ch CHR 0x0A) t) = cell_at t"
proof -
  have "cursor t div 80 = unat (terminal_row t)" using assms by (simp add: cursor_def term_ok_unat)
  then show "cursor (terminal_putchar (ch CHR 0x0A) t) = ((cursor t div 80 + 1) * 80) mod 2000"
    using assms by (auto simp: putchar_newline cursor_def cursor_simps term_ok_unat)
qed (simp add: putchar_newline)

text \<open>Backspace takes back a character: cursor and every other cell as before, the cell blank.\<close>

lemma backspace_undoes:
  assumes "term_ok t" and "printable c" and "cursor t \<noteq> 1999" and "i < 2000"
  shows "cursor (terminal_putchar (ch CHR 0x08) (terminal_putchar c t)) = cursor t"
    and "cell_at (terminal_putchar (ch CHR 0x08) (terminal_putchar c t)) i =
      (if i = cursor t then vga_entry (ch CHR '' '') (terminal_color t) else cell_at t i)"
proof -
  let ?t = "terminal_putchar c t"
  have "cursor ?t = cursor t + 1"
    using putchar_cursor [OF assms(1,2)] cursor_less [OF assms(1)] assms(3) by simp
  then have cb: "cursor (cursor_back ?t) = cursor t" "cell_at (cursor_back ?t) = cell_at ?t"
    using cursor_back_ok [OF putchar_ok(1) [OF assms(1)]] by simp_all
  then show "cursor (terminal_putchar (ch CHR 0x08) ?t) = cursor t"
    by (simp add: putchar_backspace)
  show "cell_at (terminal_putchar (ch CHR 0x08) ?t) i =
      (if i = cursor t then vga_entry (ch CHR '' '') (terminal_color t) else cell_at t i)"
    using cb cursor_less [OF assms(1)] assms putchar_cell [OF assms(1,2,4)] putchar_ok(2) [OF assms(1)]
    by (simp add: putchar_backspace cell_at_set_cell)
qed

section \<open>Strings on the terminal\<close>

lemma bytes_at_rec: "bytes_at m p (Suc n) = m p # bytes_at m (p + 1) n"
  by (rule nth_equalityI) (auto simp: nth_Cons add.assoc split: nat.split)

lemma write_loop_fold:
  "i \<le> n \<Longrightarrow> terminal_write_loop m p n i t =
     fold terminal_putchar (bytes_at m (p + i) (unat n - unat i)) t"
proof (induction arbitrary: t rule: count_induct)
  case stop
  show ?case by (simp add: terminal_write_loop.simps [of m p n n] bytes_at_def)
next
  case (step i)
  have "unat n - unat i = Suc (unat n - unat (i + 1))"
    using unat_Suc_less [OF step(1)] step(1) by (simp add: word_less_nat_alt)
  then show ?case
    using step by (simp add: terminal_write_loop.simps [of m p n i] bytes_at_rec add.assoc)
qed

lemma terminal_write_fold: "terminal_write m p n t = fold terminal_putchar (bytes_at m p (unat n)) t"
  by (simp add: terminal_write_def write_loop_fold)

lemma cstr_bytes_at: "cstr m p s \<Longrightarrow> bytes_at m p (length s) = s"
  by (rule nth_equalityI) (simp_all add: cstr_iff)

lemma writestring_cstr:
  assumes "cstr m p s"
  shows "terminal_writestring m p t = Some (fold terminal_putchar s t)"
    and "terminal_writeline m p t = Some (fold terminal_putchar s t)"
  using strlen_cstr [OF assms] cstr_unat_length [OF assms] cstr_bytes_at [OF assms]
  by (simp_all add: terminal_writestring_def terminal_writeline_def terminal_write_fold)

lemma writestring_shows:
  assumes "term_ok t" and "cstr m p s" and "\<forall>c \<in> set s. printable c" and "length s \<le> 2000"
  shows "\<exists>t'. terminal_writestring m p t = Some t' \<and> term_ok t' \<and>
    cursor t' = (cursor t + length s) mod 2000 \<and>
    (\<forall>k < length s. cell_at t' ((cursor t + k) mod 2000) = vga_entry (s ! k) (terminal_color t))"
  using writestring_cstr [OF assms(2)] scr.puts_inv [OF assms(1)] scr.puts_pos [OF assms(1,3)]
    scr.puts_cell(1) [OF assms(1,3,4)]
  by simp

section \<open>Clearing the screen\<close>

abbreviation blank :: "terminal \<Rightarrow> u16" where
  "blank t \<equiv> vga_entry (ch CHR '' '') (terminal_color t)"

definition same_cursor :: "terminal \<Rightarrow> terminal \<Rightarrow> bool" where
  "same_cursor t t' \<longleftrightarrow> terminal_row t' = terminal_row t \<and> terminal_column t' = terminal_column t \<and>
     terminal_color t' = terminal_color t \<and> terminal_buffer t' = terminal_buffer t"

lemma row_col: "i div 80 = y \<Longrightarrow> i = y * 80 + i mod 80" for i y :: nat
  by (metis div_mult_mod_eq)

lemma init_row_cells:
  assumes "x \<le> VGA_WIDTH" and "y < VGA_HEIGHT" and "i < 2000"
  shows "same_cursor t (init_row y x t) \<and>
    cell_at (init_row y x t) i =
      (if i div 80 = unat y \<and> unat x \<le> i mod 80 then blank t else cell_at t i)"
  using assms(1)
proof (induction arbitrary: t rule: count_induct)
  case stop
  have "unat VGA_WIDTH = 80" by (simp add: VGA_WIDTH_def)
  moreover have "\<not> 80 \<le> i mod 80" by (simp add: not_le)
  ultimately show ?case by (simp add: init_row.simps [of y VGA_WIDTH t] same_cursor_def)
next
  case (step x)
  let ?i = "unat y * 80 + unat x"
  let ?t = "set_cell (y * VGA_WIDTH + x) (blank t) t"
  have x: "unat x < 80" using step(1) by (simp add: VGA_WIDTH_def word_less_nat_alt)
  have y: "unat y < 25" using assms(2) by (simp add: VGA_HEIGHT_def word_less_nat_alt)
  have idx: "y * VGA_WIDTH + x = of_nat ?i" by (simp add: VGA_WIDTH_def)
  have cell: "cell_at ?t i = (if i = ?i then blank t else cell_at t i)"
    unfolding idx using x y by (intro cell_at_set_cell assms(3)) simp
  have "i div 80 = unat y \<and> unat x \<le> i mod 80 \<longleftrightarrow>
      i = ?i \<or> i div 80 = unat y \<and> unat (x + 1) \<le> i mod 80"
    using x y unat_Suc_less [OF step(1)] row_col [of i "unat y"] by auto
  moreover have "init_row y x t = init_row y (x + 1) ?t"
    using step(1) by (simp add: init_row.simps [of y x t])
  moreover have "same_cursor t ?t" by (simp add: same_cursor_def)
  ultimately show ?case
    using step(2) [of ?t] cell by (auto simp: same_cursor_def)
qed

lemma init_rows_cells:
  assumes "y \<le> VGA_HEIGHT" and "i < 2000"
  shows "same_cursor t (init_rows y t) \<and>
    cell_at (init_rows y t) i = (if unat y \<le> i div 80 then blank t else cell_at t i)"
  using assms(1)
proof (induction arbitrary: t rule: count_induct)
  case stop
  have "i div 80 < unat VGA_HEIGHT" using assms(2) by (simp add: VGA_HEIGHT_def)
  then show ?case by (simp add: init_rows.simps [of VGA_HEIGHT t] same_cursor_def)
next
  case (step y)
  have "init_rows y t = init_rows (y + 1) (init_row y 0 t)"
    using step(1) by (simp add: init_rows.simps [of y t])
  moreover have "unat y \<le> i div 80 \<longleftrightarrow> i div 80 = unat y \<or> unat (y + 1) \<le> i div 80"
    using unat_Suc_less [OF step(1)] by auto
  ultimately show ?case
    using step(2) [of "init_row y 0 t"] init_row_cells [OF _ step(1) assms(2), of 0 t]
    by (auto simp: same_cursor_def)
qed

lemma initialize_blank:
  assumes "i < 2000"
  shows "term_ok (terminal_initialize t)" and "cursor (terminal_initialize t) = 0"
    and "terminal_color (terminal_initialize t) = 7"
    and "terminal_buffer (terminal_initialize t) = 0xB8000"
    and "cell_at (terminal_initialize t) i = vga_entry (ch CHR '' '') 7"
  using init_rows_cells [OF _ assms, of 0] 
  by (simp_all add: terminal_initialize_def same_cursor_def term_ok_unat cursor_def vga_entry_color_def)

section \<open>Hexadecimal output\<close>

text \<open>\<open>printk_hex\<close> prints \<open>0x\<close> and two digits.\<close>

definition hex_text :: "u8 \<Rightarrow> u8 list" where
  "hex_text v = lit ''0x'' @ [hex_chars ! (unat v div 16), hex_chars ! (unat v mod 16)]"

lemma hex_chars_nz: "k < 16 \<Longrightarrow> hex_chars ! k \<noteq> 0 \<and> printable (hex_chars ! k)"
proof -
  have "\<forall>k \<in> {..<16}. hex_chars ! k \<noteq> 0 \<and> printable (hex_chars ! k)"
    by (simp add: lessThan_nat_numeral lessThan_Suc hex_chars_def lit_def ch_def printable_def)
  then show "k < 16 \<Longrightarrow> hex_chars ! k \<noteq> 0 \<and> printable (hex_chars ! k)" by simp
qed

lemma nibbles:
  fixes v :: u8
  shows "unat (drop_bit 4 v AND 0x0F) = unat v div 16" and "unat (v AND 0x0F) = unat v mod 16"
proof -
  have m: "(0x0F :: u8) = mask 4" by (simp add: mask_eq_exp_minus_1)
  have "unat v div 16 < 16" using unat8_less [of v] by simp
  then show "unat (drop_bit 4 v AND 0x0F) = unat v div 16"
    unfolding m by (simp add: take_bit_eq_mask [symmetric] unsigned_take_bit_eq drop_bit_eq_div
        take_bit_eq_mod unat_div unat_mod)
  show "unat (v AND 0x0F) = unat v mod 16"
    unfolding m by (simp add: take_bit_eq_mask [symmetric] unsigned_take_bit_eq take_bit_eq_mod unat_mod)
qed

lemma printk_hex_text: "printk_hex v t = Some (fold terminal_putchar (hex_text v) t)"
proof -
  have d: "unat v div 16 < 16" using unat8_less [of v] by simp
  have "0 \<notin> set (hex_text v)"
    using hex_chars_nz [OF d] hex_chars_nz [of "unat v mod 16"] by (auto simp: hex_text_def ch_def)
  then have "cstr (lit_mem (hex_text v)) 0 (hex_text v)"
    by (intro cstr_lit_mem) (simp_all add: hex_text_def)
  moreover have "(lit ''0x00'') [2 := hex_chars ! unat (drop_bit 4 v AND 0x0F),
      3 := hex_chars ! unat (v AND 0x0F)] = hex_text v"
    by (simp only: nibbles(1), simp only: nibbles(2)) (simp add: hex_text_def numeral_2_eq_2 numeral_3_eq_3)
  ultimately show ?thesis
    by (simp only: printk_hex_def Let_def writestring_cstr(1))
qed

end
