(* ===== verification/Printk.thy ===== *)
theory Printk
  imports CNumbers Terminal
begin

text \<open>
  \<open>printk\<close> of \<open>libs/System/standard.c\<close>: the formatting loop with its two stack buffers
  (\<open>buffer[256]\<close>, never checked, and \<open>num_buffer[12]\<close>), and \<open>wrstr\<close> of \<open>system.c\<close>. The
  result is related to \<open>render\<close>, what the format denotes.
\<close>

section \<open>The model\<close>

text \<open>\<open>while (*src) *dst++ = *src++\<close>, without the terminator: the memory and the new \<open>dst\<close>.\<close>

partial_function (option) append_str :: "mem \<Rightarrow> u32 \<Rightarrow> u32 \<Rightarrow> (mem \<times> u32) option" where
  "append_str m dst src =
     (if m src \<noteq> 0 then append_str (m(dst := m src)) (dst + 1) (src + 1) else Some (m, dst))"

text \<open>
  The format is a string of the kernel's memory or a string literal. \<open>args\<close> are the words
  after the format on the stack, which \<open>va_arg\<close> takes one after the other (\<open>k\<close> is the next);
  \<open>num\<close> is the address of \<open>num_buffer\<close>.
\<close>

datatype str_src = In_memory | Literal "u8 list"

fun str_mem :: "str_src \<Rightarrow> mem \<Rightarrow> mem" where
  "str_mem In_memory m = m"
| "str_mem (Literal s) m = lit_mem s"

partial_function (option) printk_loop ::
    "str_src \<Rightarrow> u32 \<Rightarrow> u32 \<Rightarrow> (nat \<Rightarrow> u32) \<Rightarrow> nat \<Rightarrow> u32 \<Rightarrow> mem \<Rightarrow> (mem \<times> u32) option" where
  "printk_loop src num format args k buf_ptr m =
     (if str_mem src m format = 0 then Some (m, buf_ptr)
      else if str_mem src m format = ch CHR ''%'' \<and> str_mem src m (format + 1) \<noteq> 0 then
        if str_mem src m (format + 1) = ch CHR ''d'' then do {
          m1 \<leftarrow> itoa m (args k) num 10;
          r \<leftarrow> append_str m1 buf_ptr num;
          printk_loop src num (format + 2) args (Suc k) (snd r) (fst r)
        }
        else if str_mem src m (format + 1) = ch CHR ''s'' then do {
          r \<leftarrow> append_str m buf_ptr (args k);
          printk_loop src num (format + 2) args (Suc k) (snd r) (fst r)
        }
        else printk_loop src num (format + 2) args k (buf_ptr + 2)
               (m(buf_ptr := ch CHR ''%'',
                  buf_ptr + 1 := str_mem src (m(buf_ptr := ch CHR ''%'')) (format + 1)))
      else printk_loop src num (format + 1) args k (buf_ptr + 1)
             (m(buf_ptr := str_mem src m format)))"

definition printk ::
    "str_src \<Rightarrow> u32 \<Rightarrow> (nat \<Rightarrow> u32) \<Rightarrow> u32 \<Rightarrow> u32 \<Rightarrow> mem \<Rightarrow> terminal \<Rightarrow>
     (mem \<times> terminal) option" where
  "printk src format args buffer num m t =
     do {
       (m1, buf_ptr) \<leftarrow> printk_loop src num format args 0 buffer m;
       let m2 = m1(buf_ptr := 0);
       t1 \<leftarrow> terminal_writeline m2 buffer t;
       Some (m2, t1)
     }"

definition wrstr :: "u32 \<Rightarrow> (nat \<Rightarrow> u32) \<Rightarrow> u32 \<Rightarrow> u32 \<Rightarrow> mem \<Rightarrow> terminal \<Rightarrow> (mem \<times> terminal) option" where
  "wrstr str args buffer num m t = printk In_memory str args buffer num m t"

section \<open>What a format denotes\<close>

text \<open>\<open>strs p\<close> is the string at the pointer \<open>p\<close>, for the \<open>%s\<close> arguments.\<close>

fun render :: "(u32 \<Rightarrow> u8 list) \<Rightarrow> (nat \<Rightarrow> u32) \<Rightarrow> nat \<Rightarrow> u8 list \<Rightarrow> u8 list" where
  "render strs args k [] = []"
| "render strs args k [c] = [c]"
| "render strs args k (c # d # f) =
     (if c = ch CHR ''%'' then
        if d = ch CHR ''d'' then itoa_text 10 (sint (args k)) @ render strs args (Suc k) f
        else if d = ch CHR ''s'' then strs (args k) @ render strs args (Suc k) f
        else ch CHR ''%'' # d # render strs args k f
      else c # render strs args k (d # f))"

text \<open>
  What the arguments must be: a decimal is not \<open>INT_MIN\<close> (whose negation does not fit), a
  string is there and lies outside the buffers. \<open>okd\<close> and \<open>oks\<close> are these conditions.
\<close>

fun args_ok :: "(u32 \<Rightarrow> bool) \<Rightarrow> (u32 \<Rightarrow> bool) \<Rightarrow> (nat \<Rightarrow> u32) \<Rightarrow> nat \<Rightarrow> u8 list \<Rightarrow> bool" where
  "args_ok okd oks args k [] = True"
| "args_ok okd oks args k [c] = True"
| "args_ok okd oks args k (c # d # f) =
     (if c = ch CHR ''%'' then
        if d = ch CHR ''d'' then okd (args k) \<and> args_ok okd oks args (Suc k) f
        else if d = ch CHR ''s'' then oks (args k) \<and> args_ok okd oks args (Suc k) f
        else args_ok okd oks args k f
      else args_ok okd oks args k (d # f))"

section \<open>Appending to the buffer\<close>

lemma store_append:
  "length (s @ t) < 2 ^ 32 \<Longrightarrow> store (store m p s) (p + of_nat (length s)) t = store m p (s @ t)"
proof (induction t arbitrary: s)
  case (Cons c t)
  have "store (store m p s) (p + of_nat (length s)) (c # t) =
      store ((store m p s)(p + of_nat (length s) := c)) (p + of_nat (length (s @ [c]))) t"
    using Cons.prems by (simp add: store_Cons ac_simps)
  also have "\<dots> = store (store m p (s @ [c])) (p + of_nat (length (s @ [c]))) t"
    using Cons.prems by (simp add: store_snoc)
  also have "\<dots> = store m p ((s @ [c]) @ t)" using Cons.prems by (intro Cons.IH) simp
  finally show ?case by simp
qed simp

lemma append_str_cstr:
  assumes "cstr m src t" and "rng_disj dst (length t) src (Suc (length t))"
  shows "append_str m dst src = Some (store m dst t, dst + of_nat (length t))"
  using assms
proof (induction t arbitrary: m dst src)
  case Nil
  then show ?case by (simp add: append_str.simps)
next
  case (Cons c t)
  have c: "m src = c" "c \<noteq> 0" "cstr m (src + 1) t" using Cons.prems(1) by auto
  have nin: "\<not> in_rng src (Suc (Suc (length t))) dst"
    using Cons.prems(2) by (auto simp: rng_disj_def)
  have t: "cstr (m(dst := c)) (src + 1) t"
    using nin by (intro cstr_cong [OF c(3)]) (auto simp: in_rng_Suc)
  have "rng_disj (dst + 1) (length t) (src + 1) (Suc (length t))"
    using Cons.prems(2) by (auto simp: rng_disj_def in_rng_Suc)
  note ih = Cons.IH [OF t this]
  have "append_str m dst src = append_str (m(dst := c)) (dst + 1) (src + 1)"
    using c by (subst append_str.simps) simp
  also have "\<dots> = Some (store m dst (c # t), dst + of_nat (length (c # t)))"
    using ih cstr_length [OF Cons.prems(1)] by (simp add: store_Cons add.assoc fun_upd_def)
  finally show ?case .
qed

text \<open>
  \<open>shows m0 buf num s m\<close>: besides \<open>num_buffer\<close>, the memory is \<open>m0\<close> with the text \<open>s\<close> in the
  buffer.
\<close>

definition buffered :: "mem \<Rightarrow> u32 \<Rightarrow> u32 \<Rightarrow> u8 list \<Rightarrow> mem \<Rightarrow> bool" where
  "buffered m0 buf num s m \<longleftrightarrow> (\<forall>a. \<not> in_rng num 12 a \<longrightarrow> m a = store m0 buf s a)"

lemma buffered_Nil [simp]: "buffered m buf num [] m"
  by (simp add: buffered_def)

lemma buffered_snoc:
  assumes "buffered m0 buf num s m" and "length s < 256"
  shows "buffered m0 buf num (s @ [c]) (m(buf + of_nat (length s) := c))"
proof -
  have "store m0 buf (s @ [c]) = (store m0 buf s)(buf + of_nat (length s) := c)"
    using assms(2) by (simp add: store_snoc)
  then show ?thesis using assms(1) by (simp add: buffered_def)
qed

lemma buffered_append:
  assumes "buffered m0 buf num s m" and "length s + length t < 256"
  shows "buffered m0 buf num (s @ t) (store m (buf + of_nat (length s)) t)"
proof -
  have "store m0 buf (s @ t) = store (store m0 buf s) (buf + of_nat (length s)) t"
    using assms(2) by (simp add: store_append)
  then show ?thesis using assms(1) by (simp add: buffered_def store_def)
qed

lemma buffered_num:
  assumes "buffered m0 buf num s m" and "length t \<le> 12"
  shows "buffered m0 buf num s (store m num t)"
  using assms in_rng_mono [of num "length t"] by (auto simp: buffered_def store_def)

text \<open>A string that lies outside the buffers is still there.\<close>

definition clear_of :: "u32 \<Rightarrow> u32 \<Rightarrow> u32 \<Rightarrow> nat \<Rightarrow> bool" where
  "clear_of buf num p n \<longleftrightarrow> rng_disj buf 256 p n \<and> rng_disj num 12 p n"

lemma buffered_cstr:
  assumes "buffered m0 buf num s m" and "length s \<le> 256"
    and "cstr m0 p t" and "clear_of buf num p (Suc (length t))"
  shows "cstr m p t"
proof (rule cstr_cong [OF assms(3)])
  fix a assume a: "in_rng p (Suc (length t)) a"
  then have "\<not> in_rng num 12 a" "\<not> in_rng buf 256 a"
    using assms(4) by (auto simp: clear_of_def rng_disj_def)
  then show "m a = m0 a"
    using assms(1,2) in_rng_mono [of buf "length s" a 256] by (auto simp: buffered_def store_def)
qed

text \<open>One string appended to what the buffer holds.\<close>

lemma append_buffered:
  assumes "buffered m0 buf num s m" and "cstr m p t" and "length s + length t < 256"
    and "rng_disj buf 256 p (Suc (length t))"
  obtains m' where "append_str m (buf + of_nat (length s)) p =
      Some (m', buf + of_nat (length (s @ t)))" "buffered m0 buf num (s @ t) m'"
proof -
  have "rng_disj (buf + of_nat (length s)) (length t) p (Suc (length t))"
    using assms(3,4) in_rng_shift [of buf "length s" "length t" _ 256] by (auto simp: rng_disj_def)
  then have "append_str m (buf + of_nat (length s)) p =
      Some (store m (buf + of_nat (length s)) t, buf + of_nat (length (s @ t)))"
    using append_str_cstr [OF assms(2)] by (simp add: ac_simps)
  then show thesis using buffered_append [OF assms(1,3)] by (rule that)
qed

text \<open>The stack frame: the buffers are disjoint, and \<open>num_buffer\<close> does not wrap.\<close>

definition frame_ok :: "u32 \<Rightarrow> u32 \<Rightarrow> bool" where
  "frame_ok buf num \<longleftrightarrow> rng_disj buf 256 num 12 \<and> 0 < unat num \<and> unat num + 12 < 2 ^ 32"

lemma itoa_buffered:
  assumes "buffered m0 buf num s m" and "frame_ok buf num" and "sint v \<noteq> - (2 ^ 31)"
    and "length s + length (itoa_text 10 (sint v)) < 256"
  obtains m1 m2 where "itoa m v num 10 = Some m1"
    "append_str m1 (buf + of_nat (length s)) num =
      Some (m2, buf + of_nat (length (s @ itoa_text 10 (sint v))))"
    "buffered m0 buf num (s @ itoa_text 10 (sint v)) m2"
proof -
  let ?t = "itoa_text 10 (sint v)"
  have len: "length ?t \<le> 11"
    using length_itoa_text_10 [of "sint v"] sint_ge [of v] sint_lt [of v] by simp
  have it: "itoa m v num 10 = Some (store m num (?t @ [0]))"
    using itoa_eq [of 10 v num m] assms(2,3) len by (simp add: frame_ok_def)
  have "cstr (store m num (?t @ [0])) num ?t"
    using len by (intro cstr_store itoa_text_nonzero) simp_all
  moreover have "buffered m0 buf num s (store m num (?t @ [0]))"
    using len by (intro buffered_num assms(1)) simp
  moreover have "rng_disj buf 256 num (Suc (length ?t))"
    using assms(2) len by (auto simp: frame_ok_def intro: rng_disj_mono)
  ultimately show thesis
    using append_buffered [of m0 buf num s "store m num (?t @ [0])" num ?t] assms(4) it that by blast
qed

text \<open>Where the format is: a literal, or a string of the memory clear of the buffers.\<close>

definition format_at :: "str_src \<Rightarrow> mem \<Rightarrow> u32 \<Rightarrow> u32 \<Rightarrow> u32 \<Rightarrow> u8 list \<Rightarrow> bool" where
  "format_at src m0 buf num p f \<longleftrightarrow> cstr (str_mem src m0) p f \<and>
     (src = In_memory \<longrightarrow> clear_of buf num p (Suc (length f)))"

lemma format_at_now:
  assumes "format_at src m0 buf num p f" and "buffered m0 buf num s m" and "length s \<le> 256"
  shows "cstr (str_mem src m) p f"
  using assms buffered_cstr [OF assms(2,3)] by (cases src) (auto simp: format_at_def)

lemma format_at_Cons:
  assumes "format_at src m0 buf num p (c # f)"
  shows "format_at src m0 buf num (p + 1) f"
  using assms by (auto simp: format_at_def clear_of_def rng_disj_def in_rng_Suc)

section \<open>printk prints what the format denotes\<close>

text \<open>One turn of the loop at a character, at the end, and at a conversion.\<close>

lemma printk_end: "cstr (str_mem src m) p [] \<Longrightarrow> printk_loop src num p args k b m = Some (m, b)"
  by (subst printk_loop.simps) simp

lemma printk_char:
  assumes "cstr (str_mem src m) p (c # f)" and "c \<noteq> ch CHR ''%'' \<or> f = []"
  shows "printk_loop src num p args k b m = printk_loop src num (p + 1) args k (b + 1) (m(b := c))"
  using assms by (subst printk_loop.simps) auto

lemma printk_d:
  assumes "cstr (str_mem src m) p (ch CHR ''%'' # ch CHR ''d'' # f)"
    and "itoa m (args k) num 10 = Some m1" and "append_str m1 b num = Some (m2, b2)"
  shows "printk_loop src num p args k b m = printk_loop src num (p + 2) args (Suc k) b2 m2"
  using assms by (subst printk_loop.simps) auto

lemma printk_s:
  assumes "cstr (str_mem src m) p (ch CHR ''%'' # ch CHR ''s'' # f)"
    and "append_str m b (args k) = Some (m2, b2)"
  shows "printk_loop src num p args k b m = printk_loop src num (p + 2) args (Suc k) b2 m2"
proof -
  have "ch CHR ''s'' \<noteq> ch CHR ''d''" by (simp add: ch_def)
  then show ?thesis using assms by (subst printk_loop.simps) auto
qed

lemma printk_other:
  assumes "cstr (str_mem src m) p (ch CHR ''%'' # d # f)" and "d \<noteq> ch CHR ''d''" "d \<noteq> ch CHR ''s''"
    and "cstr (str_mem src (m(b := ch CHR ''%''))) p (ch CHR ''%'' # d # f)"
  shows "printk_loop src num p args k b m =
    printk_loop src num (p + 2) args k (b + 2) (m(b := ch CHR ''%'', b + 1 := d))"
proof -
  have "str_mem src m (p + 1) = d" "str_mem src m p = ch CHR ''%''" "d \<noteq> 0"
    "str_mem src (m(b := ch CHR ''%'')) (p + 1) = d" "ch CHR ''%'' \<noteq> 0"
    using assms(1,4) by (auto simp: ch_def)
  then show ?thesis using assms(2,3) by (subst printk_loop.simps) simp
qed

lemma printk_loop_render:
  assumes "frame_ok buf num"
    and "format_at src m0 buf num p f" and "buffered m0 buf num s m"
    and "length s + length (render strs args k f) < 256"
    and "args_ok (\<lambda>v. sint v \<noteq> - (2 ^ 31))
           (\<lambda>q. cstr m0 q (strs q) \<and> clear_of buf num q (Suc (length (strs q)))) args k f"
  shows "\<exists>m'. printk_loop src num p args k (buf + of_nat (length s)) m =
      Some (m', buf + of_nat (length (s @ render strs args k f))) \<and>
    buffered m0 buf num (s @ render strs args k f) m'"
  using assms(2-)
proof (induction strs args k f arbitrary: p s m rule: render.induct)
  case (1 strs args k)
  then show ?case using format_at_now [OF 1(1,2)] by (auto simp: printk_end)
next
  case (2 strs args k c)
  note at = format_at_now [OF 2(1,2)]
  let ?m = "m(buf + of_nat (length s) := c)"
  have b: "buffered m0 buf num (s @ [c]) ?m" using 2 by (intro buffered_snoc) simp_all
  have "cstr (str_mem src ?m) (p + 1) []"
    using format_at_now [OF format_at_Cons [OF 2(1)] b] 2(3) by simp
  then have "printk_loop src num (p + 1) args k (buf + of_nat (length s) + 1) ?m =
      Some (?m, buf + of_nat (length s) + 1)" by (rule printk_end)
  moreover have "printk_loop src num p args k (buf + of_nat (length s)) m =
      printk_loop src num (p + 1) args k (buf + of_nat (length s) + 1) ?m"
    using at 2(3) by (intro printk_char [of _ _ _ _ "[]"]) simp_all
  ultimately show ?case using b by (auto simp: ac_simps)
next
  case (3 strs args k c d f)
  note at = format_at_now [OF 3(5,6)]
  let ?b = "buf + of_nat (length s)"
  have tl: "format_at src m0 buf num (p + 1) (d # f)" "format_at src m0 buf num (p + 2) f"
    using format_at_Cons [OF 3(5)] format_at_Cons [OF format_at_Cons [OF 3(5)]]
    by (simp_all add: add.assoc)
  have ls: "length s \<le> 256" "length s < 256" using 3(7) by simp_all
  note at = format_at_now [OF 3(5,6) ls(1)]
  note prem = 3
  consider "c \<noteq> ch CHR ''%''" | "c = ch CHR ''%''" "d = ch CHR ''d''"
    | "c = ch CHR ''%''" "d = ch CHR ''s''" "d \<noteq> ch CHR ''d''"
    | "c = ch CHR ''%''" "d \<noteq> ch CHR ''d''" "d \<noteq> ch CHR ''s''" by blast
  then show ?case
  proof cases
    case 1
    note b = buffered_snoc [OF 3(6) ls(2), of c]
    show ?thesis
      using 3(4) [OF 1 tl(1) b] printk_char [OF at disjI1 [OF 1]] 3(7,8) 1
      by (simp add: ac_simps fun_upd_def)
  next
    case 2
    then obtain m1 m2 where r: "itoa m (args k) num 10 = Some m1"
      "append_str m1 ?b num = Some (m2, buf + of_nat (length (s @ itoa_text 10 (sint (args k)))))"
      "buffered m0 buf num (s @ itoa_text 10 (sint (args k))) m2"
      using itoa_buffered [OF 3(6) assms(1), of "args k"] 3(7,8) by auto
    show ?thesis
      using 3(1) [OF 2 tl(2) r(3)] printk_d [where args = args and k = k, OF at [unfolded 2] r(1,2)] 3(7,8) 2 by simp
  next
    case 3
    let ?t = "strs (args k)"
    have a: "cstr m0 (args k) ?t" "clear_of buf num (args k) (Suc (length ?t))"
      and len: "length s + length ?t < 256"
      using prem(7,8) 3 by simp_all
    then have "cstr m (args k) ?t" using buffered_cstr [OF prem(6) ls(1)] by simp
    then obtain m2 where r: "append_str m ?b (args k) = Some (m2, buf + of_nat (length (s @ ?t)))"
      "buffered m0 buf num (s @ ?t) m2"
      using append_buffered [OF prem(6) _ len] a(2) by (auto simp: clear_of_def)
    have "printk_loop src num p args k ?b m =
        printk_loop src num (p + 2) args (Suc k) (buf + of_nat (length (s @ ?t))) m2"
      using at 3 r(1) by (intro printk_s [where f = f]) simp_all
    then show ?thesis
      using prem(2) [OF 3(1,3,2) tl(2) r(2)] prem(7,8) 3 by simp
  next
    case 4
    note b1 = buffered_snoc [OF prem(6) ls(2), of "ch CHR ''%''"]
    have len: "length (s @ [ch CHR ''%'']) < 256" using prem(7) 4 by simp
    note b2 = buffered_snoc [OF b1 len, of d]
    have "printk_loop src num p args k ?b m = printk_loop src num (p + 2) args k (?b + 2)
        (m(?b := ch CHR ''%'', ?b + 1 := d))"
      using at 4 format_at_now [OF prem(5) b1] len by (intro printk_other [where f = f]) simp_all
    then show ?thesis
      using prem(3) [OF 4 tl(2) b2] prem(7,8) 4 by (simp add: ac_simps fun_upd_def)
  qed
qed

lemma render_nonzero:
  "0 \<notin> set f \<Longrightarrow> (\<And>q. 0 \<notin> set (strs q)) \<Longrightarrow> 0 \<notin> set (render strs args k f)"
  by (induction strs args k f rule: render.induct) (auto simp: itoa_text_nonzero ch_def)

lemma buffered_text:
  assumes "buffered m0 buf num s m" and "frame_ok buf num" and "length s < 256" and "0 \<notin> set s"
  shows "cstr (m(buf + of_nat (length s) := 0)) buf s"
proof -
  let ?m = "m(buf + of_nat (length s) := 0)"
  have "buffered m0 buf num (s @ [0]) ?m" using assms(1,3) by (rule buffered_snoc)
  then have "?m a = store m0 buf (s @ [0]) a" if "in_rng buf (Suc (length s)) a" for a
    using that assms(2,3) in_rng_mono [OF that, of 256]
    by (auto simp: buffered_def frame_ok_def rng_disj_def)
  moreover have "cstr (store m0 buf (s @ [0])) buf s"
    using assms(3,4) by (intro cstr_store) simp_all
  ultimately show ?thesis by (rule cstr_cong [rotated])
qed

text \<open>The whole call: the text on the terminal, and the memory outside the two buffers kept.\<close>

lemma printk_render:
  fixes strs args
  defines "r \<equiv> render strs args 0"
  assumes "frame_ok buf num" and "format_at src m buf num p f" and "length (r f) < 256"
    and "args_ok (\<lambda>v. sint v \<noteq> - (2 ^ 31))
           (\<lambda>q. cstr m q (strs q) \<and> clear_of buf num q (Suc (length (strs q)))) args 0 f"
    and "\<And>q. 0 \<notin> set (strs q)"
  shows "\<exists>m'. printk src p args buf num m t = Some (m', fold terminal_putchar (r f) t) \<and>
    buffered m buf num (r f @ [0]) m'"
proof -
  obtain m' where l: "printk_loop src num p args 0 buf m = Some (m', buf + of_nat (length (r f)))"
    "buffered m buf num (r f) m'"
    using printk_loop_render [OF assms(2,3), of "[]" m strs args 0] assms(4,5)
    by (auto simp: r_def)
  have "0 \<notin> set f" using assms(3) by (auto simp: format_at_def dest: cstr_nonzero)
  then have "0 \<notin> set (r f)" using assms(6) by (simp add: r_def render_nonzero)
  then have "cstr (m'(buf + of_nat (length (r f)) := 0)) buf (r f)"
    by (rule buffered_text [OF l(2) assms(2,4)])
  then show ?thesis
    using l writestring_cstr(2) buffered_snoc [OF l(2) assms(4), of 0]
    by (simp add: printk_def)
qed

text \<open>A literal without conversions is printed as it stands.\<close>

lemma render_plain: "ch CHR ''%'' \<notin> set f \<Longrightarrow> render strs args k f = f"
  by (induction strs args k f rule: render.induct) auto

lemma args_ok_plain: "ch CHR ''%'' \<notin> set f \<Longrightarrow> args_ok okd oks args k f"
  by (induction okd oks args k f rule: args_ok.induct) auto

lemma printk_literal:
  assumes "frame_ok buf num" and "length s < 256" and "0 \<notin> set s" and "ch CHR ''%'' \<notin> set s"
  shows "\<exists>m'. printk (Literal s) 0 args buf num m t = Some (m', fold terminal_putchar s t) \<and>
    buffered m buf num (s @ [0]) m'"
proof -
  have "format_at (Literal s) m buf num 0 s"
    using assms by (simp add: format_at_def cstr_lit_mem)
  then show ?thesis
    using printk_render [OF assms(1), of "Literal s" m 0 s "\<lambda>_. []" args t] assms
    by (simp add: render_plain args_ok_plain)
qed

section \<open>The console of the drivers\<close>

text \<open>
  What the drivers print through: the kernel's memory, the terminal, and the addresses of
  \<open>printk\<close>'s two buffers in its stack frame. \<open>kprint\<close> is a call with a literal format and the
  given arguments.
\<close>

record console =
  con_mem :: mem
  con_term :: terminal
  con_buf :: u32
  con_num :: u32

definition args_of :: "u32 list \<Rightarrow> nat \<Rightarrow> u32" where
  "args_of xs k = (if k < length xs then xs ! k else 0)"

definition kprint :: "string \<Rightarrow> u32 list \<Rightarrow> console \<Rightarrow> console option" where
  "kprint f xs c = do {
     (m, t) \<leftarrow> printk (Literal (lit f)) 0 (args_of xs) (con_buf c) (con_num c) (con_mem c) (con_term c);
     Some (c\<lparr>con_mem := m, con_term := t\<rparr>)
   }"

definition con_ok :: "console \<Rightarrow> bool" where
  "con_ok c \<longleftrightarrow> frame_ok (con_buf c) (con_num c) \<and> term_ok (con_term c)"

text \<open>\<open>printed c s c'\<close>: \<open>c'\<close> is \<open>c\<close> with the text \<open>s\<close> written, the buffers apart.\<close>

definition printed :: "console \<Rightarrow> u8 list \<Rightarrow> console \<Rightarrow> bool" where
  "printed c s c' \<longleftrightarrow> con_term c' = fold terminal_putchar s (con_term c) \<and>
     con_buf c' = con_buf c \<and> con_num c' = con_num c \<and>
     (\<forall>a. \<not> in_rng (con_buf c) 256 a \<and> \<not> in_rng (con_num c) 12 a \<longrightarrow> con_mem c' a = con_mem c a)"

lemma printed_ok: "printed c s c' \<Longrightarrow> con_ok c \<Longrightarrow> con_ok c'"
  using scr.puts_inv [of "con_term c" s] by (simp add: printed_def con_ok_def)

lemma printed_trans: "printed c s c1 \<Longrightarrow> printed c1 t c2 \<Longrightarrow> printed c (s @ t) c2"
  by (simp add: printed_def)

lemma printed_refl [simp]: "printed c [] c"
  by (simp add: printed_def)

text \<open>A format whose arguments are only decimals: a condition that can be checked by computation.\<close>

fun no_strings :: "u8 list \<Rightarrow> bool" where
  "no_strings [] = True"
| "no_strings [c] = True"
| "no_strings (c # d # f) =
     (if c = ch CHR ''%'' then d \<noteq> ch CHR ''s'' \<and> no_strings f else no_strings (d # f))"

lemma args_ok_decimals:
  "no_strings f \<Longrightarrow> (\<And>i. okd (args i)) \<Longrightarrow> args_ok okd oks args k f"
  by (induction okd oks args k f rule: args_ok.induct) auto

definition fmt_text :: "string \<Rightarrow> u32 list \<Rightarrow> u8 list" where
  "fmt_text f xs = render (\<lambda>_. []) (args_of xs) 0 (lit f)"

lemma kprint_printed:
  assumes "con_ok c" and "0 \<notin> set (lit f)" and "no_strings (lit f)" and "length (lit f) < 2 ^ 32"
    and "\<forall>x \<in> set xs. sint x \<noteq> - (2 ^ 31)" and "length (fmt_text f xs) < 256"
  shows "\<exists>c'. kprint f xs c = Some c' \<and> printed c (fmt_text f xs) c'"
proof -
  have fr: "frame_ok (con_buf c) (con_num c)" using assms(1) by (simp add: con_ok_def)
  have at: "format_at (Literal (lit f)) (con_mem c) (con_buf c) (con_num c) 0 (lit f)"
    using cstr_lit_mem [OF assms(2,4)] by (simp add: format_at_def)
  have "sint (args_of xs i) \<noteq> - (2 ^ 31)" for i using assms(5) by (auto simp: args_of_def)
  then have ok: "args_ok (\<lambda>v. sint v \<noteq> - (2 ^ 31)) (\<lambda>q. cstr (con_mem c) q ((\<lambda>_. []) q) \<and>
      clear_of (con_buf c) (con_num c) q (Suc (length ((\<lambda>_. []) q)))) (args_of xs) 0 (lit f)"
    using assms(3) by (intro args_ok_decimals) simp_all
  obtain m' where "printk (Literal (lit f)) 0 (args_of xs) (con_buf c) (con_num c) (con_mem c) (con_term c) =
      Some (m', fold terminal_putchar (fmt_text f xs) (con_term c))"
    "buffered (con_mem c) (con_buf c) (con_num c) (fmt_text f xs @ [0]) m'"
    using printk_render [OF fr at, of "\<lambda>_. []" "args_of xs"] ok assms(6)
    by (auto simp: fmt_text_def)
  moreover have "store (con_mem c) (con_buf c) (fmt_text f xs @ [0]) a = con_mem c a"
    if "\<not> in_rng (con_buf c) 256 a" for a
    using that assms(6) in_rng_mono [of "con_buf c" "Suc (length (fmt_text f xs))" a 256]
    by (auto simp: store_def)
  ultimately show ?thesis by (auto simp: kprint_def printed_def buffered_def)
qed

lemma fmt_text_plain: "ch CHR ''%'' \<notin> set (lit f) \<Longrightarrow> fmt_text f xs = lit f"
  by (simp add: fmt_text_def render_plain)

lemma no_strings_plain: "ch CHR ''%'' \<notin> set f \<Longrightarrow> no_strings f"
  by (induction f rule: no_strings.induct) auto

lemma kprint_plain:
  assumes "con_ok c" and "ch CHR ''%'' \<notin> set (lit f)" and "0 \<notin> set (lit f)" and "length f < 256"
  shows "\<exists>c'. kprint f [] c = Some c' \<and> printed c (lit f) c'"
proof -
  have "length (lit f) < 256" using assms(4) by (simp add: lit_def)
  then show ?thesis
    using kprint_printed [OF assms(1,3) no_strings_plain [OF assms(2)], of "[]"] assms(2)
    by (simp add: fmt_text_plain)
qed

text \<open>The drivers' messages are short and without conversions.\<close>

definition message :: "string \<Rightarrow> bool" where
  "message s \<longleftrightarrow> ch CHR ''%'' \<notin> set (lit s) \<and> 0 \<notin> set (lit s) \<and> length s < 256"

lemma kprint_message:
  assumes "con_ok c" and "message s"
  shows "\<exists>c'. kprint s [] c = Some c' \<and> printed c (lit s) c' \<and> con_ok c'"
proof -
  obtain c' where "kprint s [] c = Some c'" "printed c (lit s) c'"
    using kprint_plain [OF assms(1), of s] assms(2) by (auto simp: message_def)
  then show ?thesis using printed_ok assms(1) by blast
qed

end
