(* ===== verification/CStructs.thy ===== *)
theory CStructs
  imports Prelude
begin

text \<open>
  The layout of C structures as the i386 ABI of the compiler gives it: sizes, alignment, bit-fields
  and the offset of a member. The declarations of \<open>disk.h\<close>, \<open>acpi.c\<close>, \<open>pci.h\<close>, \<open>usb.h\<close>,
  \<open>microshell.h\<close> and \<open>kernel.c\<close> are values of the type \<open>ctype\<close>, and the offsets that the drivers' models use are
  computed from them.
\<close>

section \<open>Types and their layout\<close>

datatype ctype =
    U8 | U16 | U32 | U64 | Pointer | Enumeration
  | Array ctype nat
  | Struct "member list"
  | Union "member list"
and member = Member string ctype | Bitfield string ctype nat

definition round_up :: "nat \<Rightarrow> nat \<Rightarrow> nat" where
  "round_up n a = (n + (a - 1)) div a * a"

text \<open>\<open>uint64_t\<close> is aligned to four bytes in a structure on i386.\<close>

fun alignof :: "ctype \<Rightarrow> nat" and max_align :: "member list \<Rightarrow> nat" where
  "alignof U8 = 1"
| "alignof U16 = 2"
| "alignof U32 = 4"
| "alignof U64 = 4"
| "alignof Pointer = 4"
| "alignof Enumeration = 4"
| "alignof (Array t n) = alignof t"
| "alignof (Struct ms) = max_align ms"
| "alignof (Union ms) = max_align ms"
| "max_align [] = 1"
| "max_align (Member n t # ms) = max (alignof t) (max_align ms)"
| "max_align (Bitfield n t w # ms) = max (alignof t) (max_align ms)"

text \<open>
  Positions are in bits. A member starts at the next multiple of its alignment; a bit-field
  follows its predecessor unless it would cross a boundary of its declared type.
\<close>

definition bit_start :: "nat \<Rightarrow> nat \<Rightarrow> nat \<Rightarrow> nat" where
  "bit_start unit w pos = (if pos div unit = (pos + w - 1) div unit then pos else round_up pos unit)"

fun sizeof :: "ctype \<Rightarrow> nat" and end_pos :: "nat \<Rightarrow> member list \<Rightarrow> nat" and widest :: "member list \<Rightarrow> nat" where
  "sizeof U8 = 1"
| "sizeof U16 = 2"
| "sizeof U32 = 4"
| "sizeof U64 = 8"
| "sizeof Pointer = 4"
| "sizeof Enumeration = 4"
| "sizeof (Array t n) = n * sizeof t"
| "sizeof (Struct ms) = round_up ((end_pos 0 ms + 7) div 8) (max_align ms)"
| "sizeof (Union ms) = round_up (widest ms) (max_align ms)"
| "end_pos pos [] = pos"
| "end_pos pos (Member n t # ms) = end_pos (round_up pos (8 * alignof t) + 8 * sizeof t) ms"
| "end_pos pos (Bitfield n t w # ms) = end_pos (bit_start (8 * sizeof t) w pos + w) ms"
| "widest [] = 0"
| "widest (Member n t # ms) = max (sizeof t) (widest ms)"
| "widest (Bitfield n t w # ms) = max (sizeof t) (widest ms)"

text \<open>The members of a structure with their positions and widths.\<close>

fun placed :: "nat \<Rightarrow> member list \<Rightarrow> (string \<times> nat \<times> nat) list" where
  "placed pos [] = []"
| "placed pos (Member n t # ms) =
     (let p = round_up pos (8 * alignof t) in (n, p, 8 * sizeof t) # placed (p + 8 * sizeof t) ms)"
| "placed pos (Bitfield n t w # ms) =
     (let p = bit_start (8 * sizeof t) w pos in (n, p, w) # placed (p + w) ms)"

fun members_of :: "ctype \<Rightarrow> (string \<times> nat \<times> nat) list" where
  "members_of (Struct ms) = placed 0 ms"
| "members_of (Union ms) = map (\<lambda>m. case m of Member n t \<Rightarrow> (n, 0, 8 * sizeof t) | Bitfield n t w \<Rightarrow> (n, 0, w)) ms"
| "members_of _ = []"

definition bits_of_member :: "ctype \<Rightarrow> string \<Rightarrow> (nat \<times> nat) option" where
  "bits_of_member t n = map_of (members_of t) n"

definition offsetof :: "ctype \<Rightarrow> string \<Rightarrow> nat" where
  "offsetof t n = (case bits_of_member t n of Some (p, w) \<Rightarrow> p div 8 | None \<Rightarrow> 0)"

text \<open>Members follow each other without overlap and end inside the structure.\<close>

lemma round_up_ge: "0 < a \<Longrightarrow> n \<le> round_up n a"
proof -
  assume "0 < a"
  then have "n + (a - 1) < (n + (a - 1)) div a * a + a"
    by (metis add.commute dividend_less_div_times mult.commute)
  then show ?thesis using \<open>0 < a\<close> by (simp add: round_up_def)
qed

lemma round_up_dvd: "a dvd round_up n a"
  by (simp add: round_up_def)

lemma alignof_pos: "0 < alignof t" and max_align_pos: "0 < max_align ms"
  by (induction t and ms rule: alignof_max_align.induct) auto

lemma bit_start_ge: "0 < u \<Longrightarrow> pos \<le> bit_start u w pos"
  by (simp add: bit_start_def round_up_ge)

fun positive :: "member \<Rightarrow> bool" where
  "positive (Member n t) = True"
| "positive (Bitfield n t w) = (0 < sizeof t)"

definition well_formed :: "member list \<Rightarrow> bool" where
  "well_formed ms \<longleftrightarrow> list_all positive ms"

lemma end_pos_ge: "well_formed ms \<Longrightarrow> pos \<le> end_pos pos ms"
proof (induction pos ms rule: placed.induct)
  case (2 pos n t ms)
  have "pos \<le> round_up pos (8 * alignof t)" by (rule round_up_ge) (simp add: alignof_pos)
  then show ?case using 2 by (fastforce simp: well_formed_def Let_def)
next
  case (3 pos n t w ms)
  have "pos \<le> bit_start (8 * sizeof t) w pos" using 3 by (intro bit_start_ge) (simp add: well_formed_def)
  then show ?case using 3 by (fastforce simp: well_formed_def Let_def)
qed simp

lemma placed_bounds:
  "(n, p, w) \<in> set (placed pos ms) \<Longrightarrow> well_formed ms \<Longrightarrow> pos \<le> p \<and> p + w \<le> end_pos pos ms"
proof (induction pos ms rule: placed.induct)
  case (2 pos k t ms)
  have "pos \<le> round_up pos (8 * alignof t)" by (rule round_up_ge) (simp add: alignof_pos)
  then show ?case using 2 end_pos_ge [of ms] by (auto simp: well_formed_def Let_def intro: le_trans)
next
  case (3 pos k t v ms)
  have "pos \<le> bit_start (8 * sizeof t) v pos" using 3 by (intro bit_start_ge) (simp add: well_formed_def)
  then show ?case using 3 end_pos_ge [of ms] by (auto simp: well_formed_def Let_def intro: le_trans)
qed simp

definition apart :: "string \<times> nat \<times> nat \<Rightarrow> string \<times> nat \<times> nat \<Rightarrow> bool" where
  "apart a b \<longleftrightarrow> fst (snd a) + snd (snd a) \<le> fst (snd b)"

lemma placed_apart: "well_formed ms \<Longrightarrow> sorted_wrt apart (placed pos ms)"
  by (induction pos ms rule: placed.induct)
     (auto simp: well_formed_def Let_def apart_def dest!: placed_bounds)

lemma round_up_bits: "0 < a \<Longrightarrow> n \<le> 8 * round_up ((n + 7) div 8) a"
  using round_up_ge [of a "(n + 7) div 8"] by simp

lemma placed_inside:
  assumes "(n, p, w) \<in> set (members_of (Struct ms))" and "well_formed ms"
  shows "p + w \<le> 8 * sizeof (Struct ms)"
  using placed_bounds [of n p w 0 ms] round_up_bits [of "max_align ms" "end_pos 0 ms"] assms
  by (simp add: max_align_pos)

section \<open>The declarations\<close>

definition FIS_DEV_BITS :: ctype where
  "FIS_DEV_BITS = Struct
    [Member ''type'' U8, Member ''reserved'' (Array U8 3), Member ''device_bit'' U8,
     Member ''pad'' (Array U8 2)]"

definition HBA_PORT :: ctype where
  "HBA_PORT = Struct
    [Member ''clb'' U32, Member ''clbu'' U32, Member ''fb'' U32, Member ''fbu'' U32, Member ''is'' U32,
     Member ''ie'' U32, Member ''cmd'' U32, Member ''rsv0'' U32, Member ''tfd'' U32, Member ''sig'' U32,
     Member ''ssts'' U32, Member ''sctl'' U32, Member ''serr'' U32, Member ''sact'' U32, Member ''ci'' U32,
     Member ''sntf'' U32, Member ''fbs'' U32, Member ''rsv1'' (Array U32 11),
     Member ''vendor'' (Array U32 4)]"

definition HBA_PRDT_ENTRY :: ctype where
  "HBA_PRDT_ENTRY = Struct
    [Member ''dba'' U32, Member ''dbau'' U32, Member ''rsv0'' U32, Bitfield ''dbc'' U32 22,
     Bitfield ''rsv1'' U32 9, Bitfield ''i'' U32 1]"

definition FIS_REG_H2D :: ctype where
  "FIS_REG_H2D = Struct
    [Member ''fis_type'' U8, Bitfield ''pmport'' U8 4, Bitfield ''rsv0'' U8 3, Bitfield ''c'' U8 1,
     Member ''command'' U8, Member ''featurel'' U8, Member ''lba0'' U8, Member ''lba1'' U8,
     Member ''lba2'' U8, Member ''device'' U8, Member ''lba3'' U8, Member ''lba4'' U8, Member ''lba5'' U8,
     Member ''featureh'' U8, Member ''countl'' U8, Member ''counth'' U8, Member ''icc'' U8,
     Member ''control'' U8, Member ''rsv1'' (Array U8 4)]"

definition FIS_REG_D2H :: ctype where
  "FIS_REG_D2H = Struct
    [Member ''fis_type'' U8, Bitfield ''pmport'' U8 4, Bitfield ''rsv0'' U8 2, Bitfield ''i'' U8 1,
     Bitfield ''rsv1'' U8 1, Member ''status'' U8, Member ''error'' U8, Member ''lba0'' U8,
     Member ''lba1'' U8, Member ''lba2'' U8, Member ''device'' U8, Member ''lba3'' U8, Member ''lba4'' U8,
     Member ''lba5'' U8, Member ''rsv2'' U8, Member ''countl'' U8, Member ''counth'' U8,
     Member ''rsv3'' (Array U8 2), Member ''rsv4'' (Array U8 4)]"

definition FIS_DATA :: ctype where
  "FIS_DATA = Struct
    [Member ''fis_type'' U8, Bitfield ''pmport'' U8 4, Bitfield ''rsv0'' U8 4, Member ''rsv1'' (Array U8 2),
     Member ''data'' (Array U32 1)]"

definition FIS_PIO_SETUP :: ctype where
  "FIS_PIO_SETUP = Struct
    [Member ''fis_type'' U8, Bitfield ''pmport'' U8 4, Bitfield ''rsv0'' U8 1, Bitfield ''d'' U8 1,
     Bitfield ''i'' U8 1, Bitfield ''rsv1'' U8 1, Member ''status'' U8, Member ''error'' U8,
     Member ''lba0'' U8, Member ''lba1'' U8, Member ''lba2'' U8, Member ''device'' U8, Member ''lba3'' U8,
     Member ''lba4'' U8, Member ''lba5'' U8, Member ''rsv2'' U8, Member ''countl'' U8, Member ''counth'' U8,
     Member ''rsv3'' U8, Member ''e_status'' U8, Member ''tc'' U16, Member ''rsv4'' (Array U8 2)]"

definition FIS_DMA_SETUP :: ctype where
  "FIS_DMA_SETUP = Struct
    [Member ''fis_type'' U8, Bitfield ''pmport'' U8 4, Bitfield ''rsv0'' U8 1, Bitfield ''d'' U8 1,
     Bitfield ''i'' U8 1, Bitfield ''a'' U8 1, Member ''rsved'' (Array U8 2), Member ''DMAbufferID'' U64,
     Member ''rsvd'' U32, Member ''DMAbufOffset'' U32, Member ''TransferCount'' U32, Member ''resvd'' U32]"

definition HBA_MEM :: ctype where
  "HBA_MEM = Struct
    [Member ''cap'' U32, Member ''ghc'' U32, Member ''is'' U32, Member ''pi'' U32, Member ''vs'' U32,
     Member ''ccc_ctl'' U32, Member ''ccc_pts'' U32, Member ''em_loc'' U32, Member ''em_ctl'' U32,
     Member ''cap2'' U32, Member ''bohc'' U32, Member ''rsv'' (Array U8 0x74),
     Member ''vendor'' (Array U8 0x60), Member ''ports'' (Array HBA_PORT 1)]"

definition HBA_FIS :: ctype where
  "HBA_FIS = Struct
    [Member ''dsfis'' FIS_DMA_SETUP, Member ''pad0'' (Array U8 4), Member ''psfis'' FIS_PIO_SETUP,
     Member ''pad1'' (Array U8 12), Member ''rfis'' FIS_REG_D2H, Member ''pad2'' (Array U8 4),
     Member ''sdbfis'' FIS_DEV_BITS, Member ''ufis'' (Array U8 64), Member ''rsv'' (Array U8 0x60)]"

definition HBA_CMD_HEADER :: ctype where
  "HBA_CMD_HEADER = Struct
    [Bitfield ''cfl'' U8 5, Bitfield ''a'' U8 1, Bitfield ''w'' U8 1, Bitfield ''p'' U8 1,
     Bitfield ''r'' U8 1, Bitfield ''b'' U8 1, Bitfield ''c'' U8 1, Bitfield ''rsv0'' U8 1,
     Bitfield ''pmp'' U8 4, Member ''prdtl'' U16, Member ''prdbc'' U32, Member ''ctba'' U32,
     Member ''ctbau'' U32, Member ''rsv1'' (Array U32 4)]"

definition HBA_CMD_TBL :: ctype where
  "HBA_CMD_TBL = Struct
    [Member ''cfis'' (Array U8 64), Member ''acmd'' (Array U8 16), Member ''rsv'' (Array U8 48),
     Member ''prdt_entry'' (Array HBA_PRDT_ENTRY 1)]"

definition RSDPtr :: ctype where
  "RSDPtr = Struct
    [Member ''Signature'' (Array U8 8), Member ''CheckSum'' U8, Member ''OemID'' (Array U8 6),
     Member ''Revision'' U8, Member ''RsdtAddress'' Pointer]"

definition FACP :: ctype where
  "FACP = Struct
    [Member ''Signature'' (Array U8 4), Member ''Length'' U32, Member ''unneded1'' (Array U8 32),
     Member ''DSDT'' Pointer, Member ''unneded2'' (Array U8 4), Member ''SMI_CMD'' Pointer,
     Member ''ACPI_ENABLE'' U8, Member ''ACPI_DISABLE'' U8, Member ''unneded3'' (Array U8 10),
     Member ''PM1a_CNT_BLK'' Pointer, Member ''PM1b_CNT_BLK'' Pointer, Member ''unneded4'' (Array U8 17),
     Member ''PM1_CNT_LEN'' U8]"

definition pci_device_struct :: ctype where
  "pci_device_struct = Struct
    [Member ''bus'' U8, Member ''device'' U8, Member ''function'' U8, Member ''vendor_id'' U16,
     Member ''device_id'' U16, Member ''port'' U32]"

definition msh_value :: ctype where
  "msh_value = Union
    [Member ''int_val'' U32, Member ''float_val'' U32, Member ''str_val'' Pointer, Member ''bool_val'' U8]"

definition msh_var_struct :: ctype where
  "msh_var_struct = Struct
    [Member ''name'' (Array U8 32), Member ''type'' Enumeration, Member ''value'' msh_value]"

definition usb_endpoint_struct :: ctype where
  "usb_endpoint_struct = Struct
    [Member ''endpoint_address'' U8, Member ''transfer_type'' U8, Member ''direction'' U8,
     Member ''max_packet_size'' U16, Member ''polling_interval'' U8]"

definition usb_device_struct :: ctype where
  "usb_device_struct = Struct
    [Member ''address'' U8, Member ''class_code'' U8, Member ''subclass_code'' U8,
     Member ''protocol_code'' U8, Member ''num_endpoints'' U8,
     Member ''endpoints'' (Array usb_endpoint_struct 16)]"

definition EditorState :: ctype where
  "EditorState = Struct
    [Member ''buffer'' (Array U8 4096), Member ''position'' U32, Member ''cursor_x'' U32, Member ''cursor_y'' U32,
     Member ''is_active'' U8]"

lemmas struct_defs = HBA_PORT_def HBA_PRDT_ENTRY_def FIS_REG_H2D_def FIS_REG_D2H_def FIS_DATA_def FIS_PIO_SETUP_def
  FIS_DMA_SETUP_def FIS_DEV_BITS_def HBA_MEM_def HBA_FIS_def HBA_CMD_HEADER_def HBA_CMD_TBL_def RSDPtr_def FACP_def
  pci_device_struct_def msh_value_def msh_var_struct_def usb_endpoint_struct_def usb_device_struct_def EditorState_def

lemmas layout_defs = offsetof_def bits_of_member_def round_up_def bit_start_def

text \<open>The sizes that the code takes with \<open>sizeof\<close> or by pointer arithmetic.\<close>

lemma struct_sizes:
  "sizeof HBA_PORT = 0x80" "sizeof HBA_CMD_HEADER = 32" "sizeof HBA_PRDT_ENTRY = 16" "sizeof HBA_CMD_TBL = 0x90"
  "sizeof FIS_REG_H2D = 20" "sizeof pci_device_struct = 12" "sizeof msh_var_struct = 40"
  by (code_simp)+

lemma port_members:
  "offsetof HBA_PORT ''clb'' = 0x00" "offsetof HBA_PORT ''clbu'' = 0x04" "offsetof HBA_PORT ''fb'' = 0x08"
  "offsetof HBA_PORT ''fbu'' = 0x0C" "offsetof HBA_PORT ''is'' = 0x10" "offsetof HBA_PORT ''cmd'' = 0x18"
  "offsetof HBA_PORT ''tfd'' = 0x20" "offsetof HBA_PORT ''sig'' = 0x24" "offsetof HBA_PORT ''ssts'' = 0x28"
  "offsetof HBA_PORT ''sact'' = 0x34" "offsetof HBA_PORT ''ci'' = 0x38"
  "offsetof HBA_MEM ''pi'' = 0x0C" "offsetof HBA_MEM ''ports'' = 0x100"
  by (code_simp)+

lemma command_members:
  "bits_of_member HBA_CMD_HEADER ''cfl'' = Some (0, 5)" "bits_of_member HBA_CMD_HEADER ''w'' = Some (6, 1)"
  "offsetof HBA_CMD_HEADER ''prdtl'' = 2" "offsetof HBA_CMD_HEADER ''ctba'' = 8" "offsetof HBA_CMD_HEADER ''ctbau'' = 12"
  "offsetof HBA_CMD_TBL ''cfis'' = 0" "offsetof HBA_CMD_TBL ''prdt_entry'' = 0x80"
  "offsetof HBA_PRDT_ENTRY ''dba'' = 0" "bits_of_member HBA_PRDT_ENTRY ''dbc'' = Some (96, 22)"
  "bits_of_member HBA_PRDT_ENTRY ''i'' = Some (127, 1)"
  by (code_simp)+

lemma fis_members:
  "offsetof FIS_REG_H2D ''fis_type'' = 0" "bits_of_member FIS_REG_H2D ''c'' = Some (15, 1)"
  "offsetof FIS_REG_H2D ''command'' = 2" "offsetof FIS_REG_H2D ''lba0'' = 4" "offsetof FIS_REG_H2D ''lba1'' = 5"
  "offsetof FIS_REG_H2D ''lba2'' = 6" "offsetof FIS_REG_H2D ''device'' = 7" "offsetof FIS_REG_H2D ''lba3'' = 8"
  "offsetof FIS_REG_H2D ''lba4'' = 9" "offsetof FIS_REG_H2D ''lba5'' = 10" "offsetof FIS_REG_H2D ''countl'' = 12"
  "offsetof FIS_REG_H2D ''counth'' = 13"
  by (code_simp)+

lemma table_members:
  "offsetof RSDPtr ''RsdtAddress'' = 16" "offsetof FACP ''DSDT'' = 40" "offsetof FACP ''SMI_CMD'' = 48"
  "offsetof FACP ''ACPI_ENABLE'' = 52" "offsetof FACP ''ACPI_DISABLE'' = 53" "offsetof FACP ''PM1a_CNT_BLK'' = 64"
  "offsetof FACP ''PM1b_CNT_BLK'' = 68" "offsetof FACP ''PM1_CNT_LEN'' = 89"
  by (code_simp)+

lemma device_members:
  "offsetof pci_device_struct ''bus'' = 0" "offsetof pci_device_struct ''device'' = 1" "offsetof pci_device_struct ''function'' = 2"
  "offsetof pci_device_struct ''vendor_id'' = 4" "offsetof pci_device_struct ''device_id'' = 6" "offsetof pci_device_struct ''port'' = 8"
  by (code_simp)+

lemma editor_members:
  "offsetof EditorState ''buffer'' = 0" "offsetof EditorState ''position'' = 4096" "offsetof EditorState ''cursor_x'' = 4100"
  "offsetof EditorState ''cursor_y'' = 4104" "offsetof EditorState ''is_active'' = 4108"
  by (simp_all add: EditorState_def layout_defs)

text \<open>The received-FIS area: the comments place \<open>ufis\<close> at 0x60, but \<open>FIS_DEV_BITS\<close> has only seven bytes.\<close>

lemma fis_area:
  "offsetof HBA_FIS ''dsfis'' = 0" "offsetof HBA_FIS ''psfis'' = 0x20" "offsetof HBA_FIS ''rfis'' = 0x40" "offsetof HBA_FIS ''sdbfis'' = 0x58"
  "sizeof FIS_DEV_BITS = 7" "offsetof HBA_FIS ''ufis'' = 0x5F" "offsetof HBA_FIS ''rsv'' = 0x9F" "sizeof HBA_FIS = 0x100"
  by (code_simp)+

end
