(* ===== verification/Acpi.thy ===== *)
theory Acpi
  imports Time Printk CStructs
begin

text \<open>
  \<open>libs/Drivers/acpi.c\<close>: the search for the RSDP, the checksums, the walk from the RSDT over the
  FACP to the \<open>_S5_\<close> object, enabling ACPI and switching off. The tables lie in the flat memory, the
  registers behind ports.
\<close>

section \<open>State\<close>

record acpi =
  SMI_CMD :: u32
  ACPI_ENABLE :: u8
  ACPI_DISABLE :: u8
  PM1a_CNT :: u32
  PM1b_CNT :: u32
  SLP_TYPa :: u16
  SLP_TYPb :: u16
  SLP_EN :: u16
  SCI_EN :: u16
  PM1_CNT_LEN :: u8

text \<open>The fields of the tables, by the offsets of the members of \<open>struct RSDPtr\<close> and \<open>struct FACP\<close>.\<close>

definition RsdtAddress :: "mem \<Rightarrow> u32 \<Rightarrow> u32" where
  "RsdtAddress m p = load32 m (p + of_nat (offsetof RSDPtr ''RsdtAddress''))"

definition facp_DSDT :: "mem \<Rightarrow> u32 \<Rightarrow> u32" where
  "facp_DSDT m p = load32 m (p + of_nat (offsetof FACP ''DSDT''))"

definition facp_SMI_CMD :: "mem \<Rightarrow> u32 \<Rightarrow> u32" where
  "facp_SMI_CMD m p = load32 m (p + of_nat (offsetof FACP ''SMI_CMD''))"

definition facp_ACPI_ENABLE :: "mem \<Rightarrow> u32 \<Rightarrow> u8" where
  "facp_ACPI_ENABLE m p = m (p + of_nat (offsetof FACP ''ACPI_ENABLE''))"

definition facp_ACPI_DISABLE :: "mem \<Rightarrow> u32 \<Rightarrow> u8" where
  "facp_ACPI_DISABLE m p = m (p + of_nat (offsetof FACP ''ACPI_DISABLE''))"

definition facp_PM1a_CNT_BLK :: "mem \<Rightarrow> u32 \<Rightarrow> u32" where
  "facp_PM1a_CNT_BLK m p = load32 m (p + of_nat (offsetof FACP ''PM1a_CNT_BLK''))"

definition facp_PM1b_CNT_BLK :: "mem \<Rightarrow> u32 \<Rightarrow> u32" where
  "facp_PM1b_CNT_BLK m p = load32 m (p + of_nat (offsetof FACP ''PM1b_CNT_BLK''))"

definition facp_PM1_CNT_LEN :: "mem \<Rightarrow> u32 \<Rightarrow> u8" where
  "facp_PM1_CNT_LEN m p = m (p + of_nat (offsetof FACP ''PM1_CNT_LEN''))"

section \<open>Finding the tables\<close>

text \<open>\<open>for (i=0; i<20; i++) check += *bptr++\<close>\<close>

function rsdp_sum :: "mem \<Rightarrow> u32 \<Rightarrow> u32 \<Rightarrow> u8 \<Rightarrow> u8" where
  "rsdp_sum m bptr i check =
     (if i < 20 then rsdp_sum m (bptr + 1) (i + 1) (check + m bptr) else check)"
  by pat_completeness auto
termination
  by (relation "measure (\<lambda>(m, p, i, c). unat (20 :: u32) - unat i)") (auto dest: count_measure)

declare rsdp_sum.simps [simp del]

definition acpiCheckRSDPtr :: "mem \<Rightarrow> u32 \<Rightarrow> u32" where
  "acpiCheckRSDPtr m ptr =
     (if memcmp (lit_mem (lit ''RSD PTR '')) 0 m ptr 8 = 0 then
        if rsdp_sum m ptr 0 0 = 0 then RsdtAddress m ptr else NULL
      else NULL)"

partial_function (option) search_rsdp :: "mem \<Rightarrow> u32 \<Rightarrow> s32 \<Rightarrow> u32 option" where
  "search_rsdp m addr limit =
     (if sint addr < sint limit then
        if acpiCheckRSDPtr m addr \<noteq> NULL then Some (acpiCheckRSDPtr m addr)
        else search_rsdp m (addr + 16) limit
      else Some NULL)"

definition acpiGetRSDPtr :: "mem \<Rightarrow> u32 option" where
  "acpiGetRSDPtr m = do {
     rsdp \<leftarrow> search_rsdp m 0x000E0000 0x00100000;
     if rsdp \<noteq> NULL then Some rsdp
     else let ebda = scast (load16 m 0x40E) * 0x10 AND 0x000FFFFF in
       search_rsdp m ebda (ebda + 1024)
   }"

text \<open>\<open>while (0<len--) check += *checkPtr++\<close> with a signed counter.\<close>

function header_sum :: "mem \<Rightarrow> u32 \<Rightarrow> s32 \<Rightarrow> u8 \<Rightarrow> u8" where
  "header_sum m checkPtr len check =
     (if 0 < sint len then header_sum m (checkPtr + 1) (len - 1) (check + m checkPtr) else check)"
  by pat_completeness auto
termination
  by (relation "measure (\<lambda>(m, p, n, c). nat (sint n))") (auto simp: sint_pred)

declare header_sum.simps [simp del]

definition acpiCheckHeader :: "mem \<Rightarrow> u32 \<Rightarrow> string \<Rightarrow> int" where
  "acpiCheckHeader m ptr sig =
     (if memcmp m ptr (lit_mem (lit sig)) 0 4 = 0 then
        if header_sum m ptr (load32 m (ptr + 4)) 0 = 0 then 0 else - 1
      else - 1)"

section \<open>The S5 object\<close>

text \<open>\<open>wrstr\<close> of a literal.\<close>

definition wrstr_lit :: "string \<Rightarrow> console \<Rightarrow> console option" where
  "wrstr_lit s c = kprint s [] c"

text \<open>\<open>while (0 < dsdtLength--)\<close>: where the search stops, and the counter it leaves.\<close>

function s5_search :: "mem \<Rightarrow> u32 \<Rightarrow> s32 \<Rightarrow> u32 \<times> s32" where
  "s5_search m S5Addr dsdtLength =
     (if 0 < sint dsdtLength then
        if memcmp m S5Addr (lit_mem (lit ''_S5_'')) 0 4 = 0 then (S5Addr, dsdtLength - 1)
        else s5_search m (S5Addr + 1) (dsdtLength - 1)
      else (S5Addr, dsdtLength - 1))"
  by pat_completeness auto
termination
  by (relation "measure (\<lambda>(m, a, n). nat (sint n))") (auto simp: sint_pred)

declare s5_search.simps [simp del]

definition aml_ok :: "mem \<Rightarrow> u32 \<Rightarrow> bool" where
  "aml_ok m S5Addr \<longleftrightarrow>
     (m (S5Addr - 1) = 0x08 \<or> m (S5Addr - 2) = 0x08 \<and> m (S5Addr - 1) = 0x5C) \<and> m (S5Addr + 4) = 0x12"

text \<open>\<open>if (*S5Addr == 0x0A) S5Addr++\<close> and the 16-bit value \<open>*S5Addr << 10\<close>.\<close>

definition skip_prefix :: "mem \<Rightarrow> u32 \<Rightarrow> u32" where
  "skip_prefix m a = (if m a = 0x0A then a + 1 else a)"

definition slp_typ :: "mem \<Rightarrow> u32 \<Rightarrow> u16" where
  "slp_typ m a = ucast (push_bit 10 (scast (m a)) :: s32)"

definition s5_parse :: "mem \<Rightarrow> u32 \<Rightarrow> u32 \<Rightarrow> acpi \<Rightarrow> acpi" where
  "s5_parse m facp S5Addr st =
     (let a1 = S5Addr + 5;
          a2 = a1 + (drop_bit 6 (scast (m a1) AND 0xC0) + 2);
          a3 = skip_prefix m a2;
          a4 = skip_prefix m (a3 + 1)
      in st\<lparr>SLP_TYPa := slp_typ m a3, SLP_TYPb := slp_typ m a4,
            SMI_CMD := facp_SMI_CMD m facp,
            ACPI_ENABLE := facp_ACPI_ENABLE m facp, ACPI_DISABLE := facp_ACPI_DISABLE m facp,
            PM1a_CNT := facp_PM1a_CNT_BLK m facp, PM1b_CNT := facp_PM1b_CNT_BLK m facp,
            PM1_CNT_LEN := facp_PM1_CNT_LEN m facp,
            SLP_EN := push_bit 13 1, SCI_EN := 1\<rparr>)"

text \<open>What the code does once the FACP is found: \<open>Inl\<close> the new state, or \<open>Inr\<close> the message.\<close>

definition facp_scan :: "mem \<Rightarrow> u32 \<Rightarrow> acpi \<Rightarrow> acpi + string" where
  "facp_scan m facp st =
     (let dsdt = facp_DSDT m facp in
      if acpiCheckHeader m dsdt ''DSDT'' = 0 then
        case s5_search m (dsdt + 36) (load32 m (dsdt + 4) - 36) of (S5Addr, dsdtLength) \<Rightarrow>
          if 0 < sint dsdtLength then
            if aml_ok m S5Addr then Inl (s5_parse m facp S5Addr st)
            else Inr ([CHR 0x5C] @ ''_S5 parse error.'' @ [CHR 0x0A])
          else Inr ([CHR 0x5C] @ ''_S5 not present.'' @ [CHR 0x0A])
      else Inr (''DSDT invalid.'' @ [CHR 0x0A]))"

section \<open>initAcpi\<close>

text \<open>\<open>while (0<entrys--)\<close> over the pointers of the RSDT: \<open>entrys = -2\<close> ends it after the FACP.\<close>

function rsdt_loop :: "mem \<Rightarrow> u32 \<Rightarrow> s32 \<Rightarrow> acpi \<Rightarrow> console \<Rightarrow> (int \<times> acpi \<times> console) option" where
  "rsdt_loop m ptr entrys st c =
     (if 0 < sint entrys then
        if acpiCheckHeader m (load32 m ptr) ''FACP'' = 0 then
          case facp_scan m (load32 m ptr) st of
            Inl st' \<Rightarrow> Some (0, st', c)
          | Inr msg \<Rightarrow> do {
              c1 \<leftarrow> wrstr_lit msg c;
              c2 \<leftarrow> wrstr_lit (''no valid FACP present.'' @ [CHR 0x0A]) c1;
              Some (- 1, st, c2)
            }
        else rsdt_loop m (ptr + 4) (entrys - 1) st c
      else do {
        c1 \<leftarrow> wrstr_lit (''no valid FACP present.'' @ [CHR 0x0A]) c;
        Some (- 1, st, c1)
      })"
  by pat_completeness auto
termination
  by (relation "measure (\<lambda>(m, p, n, s, c). nat (sint n))") (auto simp: sint_pred)

declare rsdt_loop.simps [simp del]

definition initAcpi :: "mem \<Rightarrow> acpi \<Rightarrow> console \<Rightarrow> (int \<times> acpi \<times> console) option" where
  "initAcpi m st c = do {
     ptr \<leftarrow> acpiGetRSDPtr m;
     if ptr \<noteq> NULL \<and> acpiCheckHeader m ptr ''RSDT'' = 0 then
       let entrys = word_of_int (sint (load32 m (ptr + 4) - 36) sdiv 4)
       in rsdt_loop m (ptr + 36) entrys st c
     else do {
       c1 \<leftarrow> wrstr_lit (''no acpi.'' @ [CHR 0x0A]) c;
       Some (- 1, st, c1)
     }
   }"

section \<open>Enabling and switching off\<close>

text \<open>\<open>fn\<close> is the address of \<open>get_time_in_seconds\<close>, with which \<open>sleep\<close> compares its target.\<close>

definition sci_read :: "u32 \<Rightarrow> acpi \<Rightarrow> hw \<Rightarrow> u16 \<times> hw" where
  "sci_read port st h = (case inw (ucast port) h of (v, h1) \<Rightarrow> (v AND SCI_EN st, h1))"

function enable_wait ::
    "u32 \<Rightarrow> clock \<Rightarrow> u32 \<Rightarrow> acpi \<Rightarrow> u32 \<Rightarrow> hw \<Rightarrow> (u32 \<times> hw) option" where
  "enable_wait fn ck port st i h =
     (if i < 300 then
        case sci_read port st h of (v, h1) \<Rightarrow>
          if v = 1 then Some (i, h1)
          else do { _ \<leftarrow> sleep fn 10 ck; enable_wait fn ck port st (i + 1) h1 }
      else Some (i, h))"
  by pat_completeness auto
termination
  by (relation "measure (\<lambda>(fn, ck, p, s, i, h). unat (300 :: u32) - unat i)") (auto dest: count_measure)

declare enable_wait.simps [simp del]

definition acpiEnable ::
    "u32 \<Rightarrow> clock \<Rightarrow> acpi \<Rightarrow> hw \<Rightarrow> console \<Rightarrow> (int \<times> hw \<times> console) option" where
  "acpiEnable fn ck st h c =
     (case sci_read (PM1a_CNT st) st h of (v, h1) \<Rightarrow>
        if v = 0 then
          if SMI_CMD st \<noteq> 0 \<and> ACPI_ENABLE st \<noteq> 0 then do {
            let h2 = outb (ucast (SMI_CMD st)) (ACPI_ENABLE st) h1;
            (i, h3) \<leftarrow> enable_wait fn ck (PM1a_CNT st) st 0 h2;
            (j, h4) \<leftarrow> (if PM1b_CNT st \<noteq> 0 then enable_wait fn ck (PM1b_CNT st) st i h3 else Some (i, h3));
            if j < 300 then do { c1 \<leftarrow> wrstr_lit (''enabled acpi.'' @ [CHR 0x0A]) c; Some (0, h4, c1) }
            else do { c1 \<leftarrow> wrstr_lit (''couldn'' @ [CHR 0x27] @ ''t enable acpi.'' @ [CHR 0x0A]) c;
                      Some (- 1, h4, c1) }
          }
          else do { c1 \<leftarrow> wrstr_lit (''no known way to enable acpi.'' @ [CHR 0x0A]) c; Some (- 1, h1, c1) }
        else Some (0, h1, c))"

definition acpiPowerOff :: "u32 \<Rightarrow> clock \<Rightarrow> acpi \<Rightarrow> hw \<Rightarrow> console \<Rightarrow> (hw \<times> console) option" where
  "acpiPowerOff fn ck st h c =
     (if SCI_EN st = 0 then Some (h, c)
      else do {
        (_, h1, c1) \<leftarrow> acpiEnable fn ck st h c;
        let h2 = outw (ucast (PM1a_CNT st)) (SLP_TYPa st OR SLP_EN st) h1;
        let h3 = (if PM1b_CNT st \<noteq> 0 then outw (ucast (PM1b_CNT st)) (SLP_TYPb st OR SLP_EN st) h2 else h2);
        c2 \<leftarrow> wrstr_lit (''acpi poweroff failed.'' @ [CHR 0x0A]) c1;
        Some (h3, c2)
      })"

section \<open>Checksums and headers\<close>

lemma bytes_at_Suc: "bytes_at m p (Suc n) = m p # bytes_at m (p + 1) n"
  by (rule nth_equalityI) (auto simp: nth_Cons add.assoc split: nat.split)

lemma rsdp_sum_eq:
  assumes "i \<le> 20"
  shows "rsdp_sum m p i c = c + sum_list (bytes_at m p (20 - unat i))"
  using assms
proof (induction arbitrary: p c rule: count_induct)
  case stop
  show ?case by (simp add: rsdp_sum.simps [of m p 20 c] bytes_at_def)
next
  case (step i)
  have "unat i < 20" using step(1) by (simp add: word_less_nat_alt)
  then have "20 - unat i = Suc (20 - unat (i + 1))" using unat_Suc_less [OF step(1)] by simp
  then show ?case
    using step by (simp add: rsdp_sum.simps [of m p i c] bytes_at_Suc add.assoc)
qed

lemma header_sum_eq: "header_sum m p len c = c + sum_list (bytes_at m p (nat (sint len)))"
proof (induction m p len c rule: header_sum.induct)
  case (1 m p len c)
  show ?case
  proof (cases "0 < sint len")
    case True
    then have "nat (sint len) = Suc (nat (sint (len - 1)))" by (simp add: sint_pred)
    then show ?thesis
      using 1 True by (simp add: header_sum.simps [of m p len c] bytes_at_Suc add.assoc)
  next
    case False
    then show ?thesis by (simp add: header_sum.simps [of m p len c] bytes_at_def)
  qed
qed

text \<open>A valid RSDP, and a valid table: the signature, and bytes that sum to zero.\<close>

definition valid_rsdp :: "mem \<Rightarrow> u32 \<Rightarrow> bool" where
  "valid_rsdp m p \<longleftrightarrow> bytes_at m p 8 = lit ''RSD PTR '' \<and> sum_list (bytes_at m p 20) = 0"

definition valid_table :: "mem \<Rightarrow> u32 \<Rightarrow> string \<Rightarrow> bool" where
  "valid_table m p sig \<longleftrightarrow> bytes_at m p 4 = lit sig \<and>
     sum_list (bytes_at m p (nat (sint (load32 m (p + 4))))) = 0"

lemma check_rsdp: "acpiCheckRSDPtr m p = (if valid_rsdp m p then RsdtAddress m p else NULL)"
proof -
  have "memcmp (lit_mem (lit ''RSD PTR '')) 0 m p 8 = 0 \<longleftrightarrow> bytes_at m p 8 = lit ''RSD PTR ''"
    using memcmp_lit(2) [of 8 8 "lit ''RSD PTR ''" m p] by simp
  then show ?thesis by (simp add: acpiCheckRSDPtr_def valid_rsdp_def rsdp_sum_eq)
qed

lemma check_header:
  assumes "length sig = 4"
  shows "acpiCheckHeader m p sig = (if valid_table m p sig then 0 else - 1)"
proof -
  have "memcmp m p (lit_mem (lit sig)) 0 4 = 0 \<longleftrightarrow> bytes_at m p 4 = lit sig"
    using memcmp_lit(1) [of 4 4 "lit sig" m p] assms by (simp add: lit_def)
  then show ?thesis by (simp add: acpiCheckHeader_def valid_table_def header_sum_eq)
qed

section \<open>The search for the RSDP\<close>

lemma search_rsdp_first:
  assumes "sint limit = int l" and "l + 16 < 2 ^ 31" and "a < 2 ^ 31"
  shows "(\<exists>k. a + 16 * k < l \<and> acpiCheckRSDPtr m (of_nat (a + 16 * k)) \<noteq> NULL \<and>
      (\<forall>j < k. acpiCheckRSDPtr m (of_nat (a + 16 * j)) = NULL) \<and>
      search_rsdp m (of_nat a) limit = Some (acpiCheckRSDPtr m (of_nat (a + 16 * k)))) \<or>
    (\<forall>k. a + 16 * k < l \<longrightarrow> acpiCheckRSDPtr m (of_nat (a + 16 * k)) = NULL) \<and>
      search_rsdp m (of_nat a) limit = Some NULL"
  using assms(3)
proof (induction "l - a" arbitrary: a rule: less_induct)
  case less
  have s: "sint (of_nat a :: s32) = int a" using less.prems by (rule sint_of_nat32)
  show ?case
  proof (cases "a < l")
    case False
    then show ?thesis using s assms(1) by (subst (1 2) search_rsdp.simps) auto
  next
    case True
    show ?thesis
    proof (cases "acpiCheckRSDPtr m (of_nat a) = NULL")
      case False
      then show ?thesis using s assms(1) True
        by (intro disjI1 exI [of _ 0]) (subst search_rsdp.simps, simp)
    next
      case null: True
      have nx: "search_rsdp m (of_nat a) limit = search_rsdp m (of_nat (a + 16)) limit"
        using null s assms(1) True by (subst search_rsdp.simps) (simp add: add.commute)
      have all: "(\<forall>j < Suc k. acpiCheckRSDPtr m (of_nat (a + 16 * j)) = NULL) \<longleftrightarrow>
          (\<forall>j < k. acpiCheckRSDPtr m (of_nat (a + 16 + 16 * j)) = NULL)" for k
        using null by (auto simp: less_Suc_eq_0_disj algebra_simps)
      have "l - (a + 16) < l - a" "a + 16 < 2 ^ 31" using True assms(2) by simp_all
      from less.hyps [OF this] show ?thesis
      proof (elim disjE exE conjE)
        fix k assume "a + 16 + 16 * k < l" "acpiCheckRSDPtr m (of_nat (a + 16 + 16 * k)) \<noteq> NULL"
          "\<forall>j < k. acpiCheckRSDPtr m (of_nat (a + 16 + 16 * j)) = NULL"
          "search_rsdp m (of_nat (a + 16)) limit = Some (acpiCheckRSDPtr m (of_nat (a + 16 + 16 * k)))"
        then show ?thesis using nx all [of k]
          by (intro disjI1 exI [of _ "Suc k"]) (simp add: algebra_simps)
      next
        assume n: "\<forall>k. a + 16 + 16 * k < l \<longrightarrow> acpiCheckRSDPtr m (of_nat (a + 16 + 16 * k)) = NULL"
          and r: "search_rsdp m (of_nat (a + 16)) limit = Some NULL"
        have "acpiCheckRSDPtr m (of_nat (a + 16 * k)) = NULL" if "a + 16 * k < l" for k
          using null n [rule_format, of "k - 1"] that by (cases k) (simp_all add: algebra_simps)
        then show ?thesis using r nx by simp
      qed
    qed
  qed
qed

text \<open>The segment of the EBDA, as a linear address below 1 MB.\<close>

definition ebda_base :: "mem \<Rightarrow> u32" where
  "ebda_base m = scast (load16 m 0x40E) * 0x10 AND 0x000FFFFF"

lemma ebda_small: "unat (ebda_base m) < 2 ^ 20"
proof -
  have "(0x000FFFFF :: u32) = mask 20" by (simp add: mask_eq_exp_minus_1)
  then have "ebda_base m = take_bit 20 (scast (load16 m 0x40E) * 0x10)"
    by (simp only: ebda_base_def take_bit_eq_mask)
  then show ?thesis by (simp add: unsigned_take_bit_eq take_bit_eq_mod unat_mod)
qed

text \<open>
  The search always returns. What it returns, if not NULL, is the RSDT address of a valid RSDP,
  and it does not miss a valid one with an RSDT address on a 16-byte boundary below 1 MB.
\<close>

lemma get_rsdp:
  "\<exists>r. acpiGetRSDPtr m = Some r \<and>
    (r \<noteq> NULL \<longrightarrow> (\<exists>p. valid_rsdp m p \<and> RsdtAddress m p = r)) \<and>
    (r = NULL \<longrightarrow> (\<forall>k < 0x2000. \<not> (valid_rsdp m (0xE0000 + of_nat (16 * k)) \<and>
       RsdtAddress m (0xE0000 + of_nat (16 * k)) \<noteq> NULL)))"
proof -
  let ?b = "unat (ebda_base m)"
  have lim: "sint (0x100000 :: s32) = int 0x100000" by simp
  have blim: "sint (ebda_base m + 1024) = int (?b + 1024)"
    using sint_of_nat32 [of "?b + 1024"] ebda_small [of m] by simp
  have low: "acpiCheckRSDPtr m (of_nat (0xE0000 + 16 * k)) = NULL \<longleftrightarrow>
      \<not> (valid_rsdp m (0xE0000 + of_nat (16 * k)) \<and> RsdtAddress m (0xE0000 + of_nat (16 * k)) \<noteq> NULL)" for k
    by (simp add: check_rsdp)
  have got: "\<exists>p. valid_rsdp m p \<and> RsdtAddress m p = acpiCheckRSDPtr m q"
    if "acpiCheckRSDPtr m q \<noteq> NULL" for q
    using that by (auto simp: check_rsdp split: if_splits)
  obtain r1 where r1: "search_rsdp m 0xE0000 0x100000 = Some r1"
    and ne1: "r1 \<noteq> NULL \<Longrightarrow> \<exists>p. valid_rsdp m p \<and> RsdtAddress m p = r1"
    and none1: "r1 = NULL \<Longrightarrow> \<forall>k < 0x2000. acpiCheckRSDPtr m (of_nat (0xE0000 + 16 * k)) = NULL"
    using search_rsdp_first [OF lim, of "0xE0000" m] got by force
  obtain r2 where r2: "search_rsdp m (ebda_base m) (ebda_base m + 1024) = Some r2"
    and ne2: "r2 \<noteq> NULL \<Longrightarrow> \<exists>p. valid_rsdp m p \<and> RsdtAddress m p = r2"
    using search_rsdp_first [OF blim, of ?b m] got ebda_small [of m] by force
  show ?thesis
  proof (cases "r1 = NULL")
    case True
    then have "acpiGetRSDPtr m = Some r2"
      using r1 r2 by (simp add: acpiGetRSDPtr_def ebda_base_def Let_def)
    then show ?thesis using ne2 none1 [OF True] low by auto
  next
    case False
    then show ?thesis using r1 ne1 by (simp add: acpiGetRSDPtr_def)
  qed
qed

section \<open>The search for the S5 object\<close>

definition s5_at :: "mem \<Rightarrow> u32 \<Rightarrow> bool" where
  "s5_at m a \<longleftrightarrow> bytes_at m a 4 = lit ''_S5_''"

lemma s5_memcmp: "memcmp m a (lit_mem (lit ''_S5_'')) 0 4 = 0 \<longleftrightarrow> s5_at m a"
  using memcmp_lit(1) [of 4 4 "lit ''_S5_''" m a] by (simp add: s5_at_def)

lemma s5_search_eq:
  "s5_search m a len =
    (if 0 < sint len then if s5_at m a then (a, len - 1) else s5_search m (a + 1) (len - 1)
     else (a, len - 1))"
  by (subst s5_search.simps) (simp only: s5_memcmp)

text \<open>A match at offset \<open>k\<close> leaves the counter at \<open>len - k - 1\<close>.\<close>

lemma s5_search_match:
  assumes "sint len = int n" and "k < n" and "s5_at m (a + of_nat k)"
    and "\<forall>j < k. \<not> s5_at m (a + of_nat j)"
  shows "fst (s5_search m a len) = a + of_nat k" and "sint (snd (s5_search m a len)) = int (n - k - 1)"
proof -
  have "fst (s5_search m a len) = a + of_nat k \<and> sint (snd (s5_search m a len)) = int (n - k - 1)"
    using assms
  proof (induction k arbitrary: a len n)
    case 0
    then show ?case by (simp add: s5_search_eq [of m a len] sint_pred)
  next
    case (Suc k)
    have nm: "\<not> s5_at m a" using Suc.prems(4) [rule_format, of 0] by simp
    then have step: "s5_search m a len = s5_search m (a + 1) (len - 1)"
      using Suc.prems(1,2) by (simp add: s5_search_eq [of m a len])
    have "sint (len - 1) = int (n - 1)" using Suc.prems(1,2) by (simp add: sint_pred)
    moreover have "s5_at m (a + 1 + of_nat k)" using Suc.prems(3) by (simp add: add.assoc)
    moreover have "\<forall>j < k. \<not> s5_at m (a + 1 + of_nat j)"
    proof (intro allI impI)
      fix j assume "j < k"
      then show "\<not> s5_at m (a + 1 + of_nat j)"
        using Suc.prems(4) [rule_format, of "Suc j"] by (simp add: add.assoc)
    qed
    ultimately show ?case
      using Suc.IH [of "len - 1" "n - 1" "a + 1"] Suc.prems(2) step by (simp add: add.assoc)
  qed
  then show "fst (s5_search m a len) = a + of_nat k"
    "sint (snd (s5_search m a len)) = int (n - k - 1)" by simp_all
qed

lemma s5_search_none:
  assumes "sint len = int n" and "\<forall>j < n. \<not> s5_at m (a + of_nat j)"
  shows "sint (snd (s5_search m a len)) = - 1"
  using assms
proof (induction n arbitrary: a len)
  case 0
  then have "len = 0" by (simp add: signed_eq_0_iff)
  then show ?case by (simp add: s5_search_eq [of m a 0])
next
  case (Suc n)
  have nm: "\<not> s5_at m a" using Suc.prems(2) [rule_format, of 0] by simp
  have "\<forall>j < n. \<not> s5_at m (a + 1 + of_nat j)"
  proof (intro allI impI)
    fix j assume "j < n"
    then show "\<not> s5_at m (a + 1 + of_nat j)"
      using Suc.prems(2) [rule_format, of "Suc j"] by (simp add: add.assoc)
  qed
  moreover have "sint (len - 1) = int n" using Suc.prems(1) by (simp add: sint_pred)
  ultimately show ?case
    using Suc.IH [of "len - 1" "a + 1"] nm Suc.prems(1)
    by (simp add: s5_search_eq [of m a len])
qed

text \<open>
  With a valid DSDT of \<open>n\<close> bytes after its header, the package is parsed exactly when the first
  \<open>_S5_\<close> is at an offset \<open>k\<close> with \<open>k + 1 < n\<close> and the AML around it is as expected: a match in the
  last position is taken for no match.
\<close>

lemma facp_scan_iff:
  assumes "valid_table m (facp_DSDT m facp) ''DSDT''"
    and "sint (load32 m (facp_DSDT m facp + 4) - 36) = int n"
  shows "facp_scan m facp st = Inl st' \<longleftrightarrow>
    (\<exists>k. k + 1 < n \<and> s5_at m (facp_DSDT m facp + 36 + of_nat k) \<and>
      (\<forall>j < k. \<not> s5_at m (facp_DSDT m facp + 36 + of_nat j)) \<and>
      aml_ok m (facp_DSDT m facp + 36 + of_nat k) \<and>
      st' = s5_parse m facp (facp_DSDT m facp + 36 + of_nat k) st)"
proof -
  let ?d = "facp_DSDT m facp" and ?len = "load32 m (facp_DSDT m facp + 4) - 36"
  have hdr: "acpiCheckHeader m ?d ''DSDT'' = 0" using assms(1) by (simp add: check_header)
  show ?thesis
  proof (cases "\<exists>k < n. s5_at m (?d + 36 + of_nat k)")
    case False
    then have "sint (snd (s5_search m (?d + 36) ?len)) = - 1"
      using s5_search_none [OF assms(2)] by blast
    then show ?thesis using False hdr
      by (auto simp: facp_scan_def Let_def split: prod.splits)
  next
    case True
    define k where "k = (LEAST k. k < n \<and> s5_at m (?d + 36 + of_nat k))"
    have k: "k < n" "s5_at m (?d + 36 + of_nat k)"
      using LeastI_ex [OF True] by (simp_all add: k_def)
    have first: "\<forall>j < k. \<not> s5_at m (?d + 36 + of_nat j)"
      using not_less_Least k(1) unfolding k_def by (metis (mono_tags, lifting) order_less_trans)
    have uniq: "k' = k" if "s5_at m (?d + 36 + of_nat k')" "\<forall>j < k'. \<not> s5_at m (?d + 36 + of_nat j)" for k'
      using that first k(2) by (metis nat_neq_iff)
    note f = s5_search_match [OF assms(2) k first]
    have "facp_scan m facp st = Inl st' \<longleftrightarrow> k + 1 < n \<and> aml_ok m (?d + 36 + of_nat k) \<and>
        st' = s5_parse m facp (?d + 36 + of_nat k) st"
      using f hdr k(1) by (auto simp: facp_scan_def Let_def split: prod.splits)
    then show ?thesis using k first uniq by blast
  qed
qed

section \<open>initAcpi returns\<close>

lemma wrstr_message:
  assumes "con_ok c" and "message s"
  shows "\<exists>c'. wrstr_lit s c = Some c' \<and> printed c (lit s) c' \<and> con_ok c'"
  using kprint_message [OF assms] by (simp add: wrstr_lit_def)

lemma facp_scan_message: "facp_scan m facp st = Inr msg \<Longrightarrow> message msg"
  by (auto simp: facp_scan_def Let_def message_def ch_def split: if_splits prod.splits)

lemma rsdt_loop_result:
  assumes "con_ok c"
  shows "\<exists>r st' c'. rsdt_loop m ptr entrys st c = Some (r, st', c') \<and> con_ok c' \<and>
    (r = 0 \<and> (\<exists>f. valid_table m f ''FACP'' \<and> facp_scan m f st = Inl st') \<or> r = - 1 \<and> st' = st)"
  using assms
proof (induction m ptr entrys st c rule: rsdt_loop.induct)
  case (1 m ptr entrys st c)
  have nf: "message (''no valid FACP present.'' @ [CHR 0x0A])" by (simp add: message_def ch_def)
  consider "\<not> 0 < sint entrys" | "0 < sint entrys" "\<not> valid_table m (load32 m ptr) ''FACP''"
    | "0 < sint entrys" "valid_table m (load32 m ptr) ''FACP''" by blast
  then show ?case
  proof cases
    case 1
    then show ?thesis
      using wrstr_message [OF "1.prems" nf]
      by (auto simp: rsdt_loop.simps [of m ptr entrys st c] simp del: append_Cons append_Nil)
  next
    case 2
    then show ?thesis
      using "1.IH" "1.prems" by (simp add: rsdt_loop.simps [of m ptr entrys st c] check_header)
  next
    case 3
    show ?thesis
    proof (cases "facp_scan m (load32 m ptr) st")
      case (Inl st')
      then show ?thesis using 3 "1.prems"
        by (auto simp: rsdt_loop.simps [of m ptr entrys st c] check_header)
    next
      case (Inr msg)
      obtain c1 where c1: "wrstr_lit msg c = Some c1" "con_ok c1"
        using wrstr_message [OF "1.prems" facp_scan_message [OF Inr]] by blast
      then show ?thesis using 3 Inr wrstr_message [OF c1(2) nf]
        by (auto simp: rsdt_loop.simps [of m ptr entrys st c] check_header
            simp del: append_Cons append_Nil)
    qed
  qed
qed

text \<open>
  It always returns: 0 with the registers and sleep types read from a valid FACP, or -1 with the
  state unchanged.
\<close>

lemma s5_parse_sel [simp]:
  "SCI_EN (s5_parse m f a st) = 1" "SLP_EN (s5_parse m f a st) = 0x2000"
  "PM1a_CNT (s5_parse m f a st) = facp_PM1a_CNT_BLK m f"
  "PM1b_CNT (s5_parse m f a st) = facp_PM1b_CNT_BLK m f"
  by (simp_all add: s5_parse_def Let_def)

lemma facp_scan_Inl: "facp_scan m f st = Inl st' \<Longrightarrow> \<exists>a. st' = s5_parse m f a st"
  by (auto simp: facp_scan_def Let_def split: if_splits prod.splits)

lemma initAcpi_result:
  assumes "con_ok c"
  shows "\<exists>r st' c'. initAcpi m st c = Some (r, st', c') \<and> con_ok c' \<and>
    (r = 0 \<and> (\<exists>f. valid_table m f ''FACP'' \<and> facp_scan m f st = Inl st') \<or> r = - 1 \<and> st' = st)"
proof -
  obtain p where p: "acpiGetRSDPtr m = Some p" using get_rsdp by blast
  have na: "message (''no acpi.'' @ [CHR 0x0A])" by (simp add: message_def ch_def)
  show ?thesis
  proof (cases "p \<noteq> NULL \<and> acpiCheckHeader m p ''RSDT'' = 0")
    case True
    then show ?thesis using p rsdt_loop_result [OF assms] by (simp add: initAcpi_def Let_def)
  next
    case False
    then show ?thesis
      using p wrstr_message [OF assms na]
      by (auto simp: initAcpi_def simp del: append_Cons append_Nil)
  qed
qed

section \<open>Switching off\<close>

lemma acpiEnable_on:
  assumes "fst (sci_read (PM1a_CNT st) st h) \<noteq> 0"
  shows "acpiEnable fn ck st h c = Some (0, snd (sci_read (PM1a_CNT st) st h), c)"
  using assms by (cases "sci_read (PM1a_CNT st) st h") (simp add: acpiEnable_def)

lemma writes_sci_read [simp]: "writes (snd (sci_read p st h)) = writes h"
  by (simp add: sci_read_def inw_def Let_def)

text \<open>With ACPI on, the sleep type and the enable bit are written to the first block, then the second.\<close>

lemma power_off_on:
  assumes "con_ok c" and "SCI_EN st \<noteq> 0" and "fst (sci_read (PM1a_CNT st) st h) \<noteq> 0"
  shows "\<exists>h' c'. acpiPowerOff fn ck st h c = Some (h', c') \<and>
    writes h' = writes h @ OutW (ucast (PM1a_CNT st)) (SLP_TYPa st OR SLP_EN st) #
      (if PM1b_CNT st \<noteq> 0 then [OutW (ucast (PM1b_CNT st)) (SLP_TYPb st OR SLP_EN st)] else [])"
proof -
  have m: "message (''acpi poweroff failed.'' @ [CHR 0x0A])" by (simp add: message_def ch_def)
  from wrstr_message [OF assms(1) m] obtain c'
    where "wrstr_lit (''acpi poweroff failed.'' @ [CHR 0x0A]) c = Some c'" by blast
  then show ?thesis
    using assms(2) by (simp add: acpiPowerOff_def acpiEnable_on [OF assms(3)] outw_def)
qed

lemma power_off_disabled: "SCI_EN st = 0 \<Longrightarrow> acpiPowerOff fn ck st h c = Some (h, c)"
  by (simp add: acpiPowerOff_def)

text \<open>
  If ACPI is off and does not come on between the command and the next read, the wait calls
  \<open>sleep\<close>, which does not return.
\<close>

lemma enable_wait_stuck:
  assumes "sleep fn 10 ck = None" and "i < 300" and "fst (sci_read p st h) \<noteq> 1"
  shows "enable_wait fn ck p st i h = None"
  using assms by (cases "sci_read p st h") (simp add: enable_wait.simps [of fn ck p st i h])

lemma acpiEnable_stuck:
  fixes h st
  defines "h2 \<equiv> outb (ucast (SMI_CMD st)) (ACPI_ENABLE st) (snd (sci_read (PM1a_CNT st) st h))"
  assumes "sleep fn 10 ck = None" and "fst (sci_read (PM1a_CNT st) st h) = 0"
    and "SMI_CMD st \<noteq> 0" and "ACPI_ENABLE st \<noteq> 0"
    and "fst (sci_read (PM1a_CNT st) st h2) \<noteq> 1"
  shows "acpiEnable fn ck st h c = None"
  using enable_wait_stuck [OF assms(2) _ assms(6), of 0] assms(3-5)
  by (cases "sci_read (PM1a_CNT st) st h") (simp add: acpiEnable_def h2_def)

end
