(* ===== verification/Allocator.thy ===== *)
theory Allocator
  imports CStrings
begin

text \<open>
  The bump allocator of \<open>libs/System/system.c\<close> (\<open>malloc\<close>, \<open>free\<close>) and what is built on it:
  \<open>strdup\<close>, \<open>strndup\<close>, \<open>mmap\<close>, \<open>munmap\<close>. The locale \<open>block_source\<close> states what a client
  relies on (a block that is handed out was not handed out before and stays handed out);
  it is interpreted on \<open>malloc\<close>, for requests that do not wrap \<open>heap_index + size\<close>.
\<close>

section \<open>The model\<close>

definition HEAP_SIZE :: u32 where "HEAP_SIZE = 0x100000"
definition MAX_MAPPINGS :: u32 where "MAX_MAPPINGS = 256"
definition MAP_FAILED :: u32 where "MAP_FAILED = - 1"

record MemoryMapping =
  mm_addr :: u32
  mm_size :: u32
  mm_prot :: s32
  mm_allocated :: bool

text \<open>\<open>heap\<close> is the address of the static array; the mapping table is the array \<open>mappings\<close>.\<close>

record heap_state =
  hmem :: mem
  heap :: u32
  heap_index :: u32
  mappings :: "u32 \<Rightarrow> MemoryMapping"
  next_mapping :: u32

definition malloc :: "u32 \<Rightarrow> heap_state \<Rightarrow> u32 \<times> heap_state" where
  "malloc sz st =
     (if heap_index st + sz > HEAP_SIZE then (NULL, st)
      else (heap st + heap_index st, st\<lparr>heap_index := heap_index st + sz\<rparr>))"

definition free :: "u32 \<Rightarrow> heap_state \<Rightarrow> heap_state" where
  "free ptr st = st"

definition strdup :: "u32 \<Rightarrow> heap_state \<Rightarrow> (u32 \<times> heap_state) option" where
  "strdup s st =
     (if s = NULL then Some (NULL, st)
      else do {
        l \<leftarrow> strlen (hmem st) s;
        let len = l + 1;
        let (new, st1) = malloc len st;
        Some (new, if new \<noteq> NULL then st1\<lparr>hmem := snd (memcpy (hmem st1) new s len)\<rparr> else st1)
      })"

function strndup_loop :: "mem \<Rightarrow> u32 \<Rightarrow> u32 \<Rightarrow> u32 \<Rightarrow> u32 \<Rightarrow> u32 \<times> mem" where
  "strndup_loop m dup str n i =
     (if i < n \<and> m (str + i) \<noteq> 0
      then strndup_loop (m(dup + i := m (str + i))) dup str n (i + 1)
      else (i, m))"
  by pat_completeness auto
termination
  by (relation "measure (\<lambda>(m, d, s, n, i). unat n - unat i)") auto

declare strndup_loop.simps [simp del]

definition strndup :: "u32 \<Rightarrow> u32 \<Rightarrow> heap_state \<Rightarrow> u32 \<times> heap_state" where
  "strndup str n st =
     (case malloc (n + 1) st of (dup, st1) \<Rightarrow>
        if dup = NULL then (NULL, st1)
        else case strndup_loop (hmem st1) dup str n 0 of
          (i, m) \<Rightarrow> (dup, st1\<lparr>hmem := m(dup + i := 0)\<rparr>))"

text \<open>\<open>mmap\<close> ignores \<open>addr\<close>, \<open>flags\<close>, \<open>fd\<close> and \<open>offset\<close>.\<close>

definition mmap :: "u32 \<Rightarrow> u32 \<Rightarrow> s32 \<Rightarrow> s32 \<Rightarrow> s32 \<Rightarrow> s32 \<Rightarrow> heap_state \<Rightarrow> u32 \<times> heap_state" where
  "mmap addr len prot flags fd offset st =
     (if next_mapping st \<ge> MAX_MAPPINGS then (MAP_FAILED, st)
      else case malloc len st of (allocated_addr, st1) \<Rightarrow>
        if allocated_addr = NULL then (MAP_FAILED, st1)
        else (allocated_addr,
              st1\<lparr>mappings := (mappings st1)(next_mapping st1 :=
                    \<lparr>mm_addr = allocated_addr, mm_size = len, mm_prot = prot,
                     mm_allocated = True\<rparr>),
                  next_mapping := next_mapping st1 + 1\<rparr>))"

function munmap_loop :: "u32 \<Rightarrow> u32 \<Rightarrow> heap_state \<Rightarrow> int \<times> heap_state" where
  "munmap_loop i addr st =
     (if i < next_mapping st then
        if mm_addr (mappings st i) = addr \<and> mm_allocated (mappings st i)
        then (0, (free addr st)\<lparr>mappings := (mappings st)(i := (mappings st i)\<lparr>mm_allocated := False\<rparr>)\<rparr>)
        else munmap_loop (i + 1) addr st
      else (-1, st))"
  by pat_completeness auto
termination
  by (relation "measure (\<lambda>(i, addr, st). unat (next_mapping st) - unat i)") auto

declare munmap_loop.simps [simp del]

definition munmap :: "u32 \<Rightarrow> u32 \<Rightarrow> heap_state \<Rightarrow> int \<times> heap_state" where
  "munmap addr len st = munmap_loop 0 addr st"

section \<open>The contract of an allocator\<close>

text \<open>A sequence of requests: the blocks (address and size) in the order they are handed out.\<close>

fun alloc_seq :: "(u32 \<Rightarrow> 's \<Rightarrow> u32 \<times> 's) \<Rightarrow> u32 list \<Rightarrow> 's \<Rightarrow> (u32 \<times> u32) list \<times> 's" where
  "alloc_seq alloc [] st = ([], st)"
| "alloc_seq alloc (n # ns) st =
     (case alloc n st of (p, st1) \<Rightarrow>
        case alloc_seq alloc ns st1 of (bs, st2) \<Rightarrow> ((p, n) # bs, st2))"

text \<open>
  \<open>owned st a\<close>: the address \<open>a\<close> lies in a block that has been handed out. \<open>fits n\<close> are the
  requests the provider answers soundly.
\<close>

locale block_source =
  fixes alloc :: "u32 \<Rightarrow> 's \<Rightarrow> u32 \<times> 's"
    and owned :: "'s \<Rightarrow> u32 \<Rightarrow> bool"
    and inv :: "'s \<Rightarrow> bool"
    and fits :: "u32 \<Rightarrow> bool"
  assumes alloc_inv: "inv st \<Longrightarrow> fits n \<Longrightarrow> alloc n st = (p, st') \<Longrightarrow> inv st'"
    and alloc_fresh: "inv st \<Longrightarrow> fits n \<Longrightarrow> alloc n st = (p, st') \<Longrightarrow> p \<noteq> NULL \<Longrightarrow>
      in_rng p (unat n) a \<Longrightarrow> \<not> owned st a \<and> owned st' a"
    and alloc_mono: "inv st \<Longrightarrow> fits n \<Longrightarrow> alloc n st = (p, st') \<Longrightarrow> owned st a \<Longrightarrow> owned st' a"
begin

lemma seq_inv: "inv st \<Longrightarrow> \<forall>n \<in> set ns. fits n \<Longrightarrow> alloc_seq alloc ns st = (bs, st') \<Longrightarrow> inv st'"
  by (induction ns arbitrary: st bs) (auto split: prod.splits dest: alloc_inv)

lemma seq_not_owned:
  "inv st \<Longrightarrow> \<forall>n \<in> set ns. fits n \<Longrightarrow> alloc_seq alloc ns st = (bs, st') \<Longrightarrow>
   (p, n) \<in> set bs \<Longrightarrow> p \<noteq> NULL \<Longrightarrow> in_rng p (unat n) a \<Longrightarrow> \<not> owned st a"
proof (induction ns arbitrary: st bs)
  case (Cons k ns)
  obtain q st1 bs1 where s: "alloc k st = (q, st1)" "alloc_seq alloc ns st1 = (bs1, st')"
    "bs = (q, k) # bs1"
    using Cons.prems(3) by (auto split: prod.splits)
  show ?case
  proof (cases "(p, n) = (q, k)")
    case True
    then show ?thesis using alloc_fresh [of st k q st1 a] Cons.prems s(1) by simp
  next
    case False
    then have "\<not> owned st1 a"
      using Cons.IH [OF _ _ s(2)] Cons.prems s alloc_inv [of st k q st1] by auto
    then show ?thesis using alloc_mono [of st k q st1 a] Cons.prems s(1) by auto
  qed
qed simp

lemma seq_disjoint:
  "inv st \<Longrightarrow> \<forall>n \<in> set ns. fits n \<Longrightarrow> alloc_seq alloc ns st = (bs, st') \<Longrightarrow>
   i < j \<Longrightarrow> j < length bs \<Longrightarrow> fst (bs ! i) \<noteq> NULL \<Longrightarrow> fst (bs ! j) \<noteq> NULL \<Longrightarrow>
   rng_disj (fst (bs ! i)) (unat (snd (bs ! i))) (fst (bs ! j)) (unat (snd (bs ! j)))"
proof (induction ns arbitrary: st bs i j)
  case (Cons k ns)
  obtain q st1 bs1 where s: "alloc k st = (q, st1)" "alloc_seq alloc ns st1 = (bs1, st')"
    "bs = (q, k) # bs1"
    using Cons.prems(3) by (auto split: prod.splits)
  have inv1: "inv st1" using alloc_inv [of st k q st1] Cons.prems s(1) by simp
  obtain j' where j: "j = Suc j'" "j' < length bs1" using Cons.prems(4,5) s(3) by (cases j) auto
  show ?case
  proof (cases i)
    case 0
    have "\<not> owned st1 a" if "in_rng (fst (bs1 ! j')) (unat (snd (bs1 ! j'))) a" for a
      using seq_not_owned [OF inv1 _ s(2), of "fst (bs1 ! j')" "snd (bs1 ! j')" a] that
        Cons.prems s j by auto
    moreover have "owned st1 a" if "in_rng q (unat k) a" for a
      using alloc_fresh [of st k q st1 a] that Cons.prems s 0 by simp
    ultimately show ?thesis using 0 s j by (auto simp: rng_disj_def)
  next
    case (Suc i')
    then show ?thesis using Cons.IH [OF inv1 _ s(2), of i' j'] Cons.prems s j by simp
  qed
qed simp

end

section \<open>malloc meets it\<close>

text \<open>The array lies in the address space, not at 0, and the index is inside it.\<close>

definition heap_ok :: "heap_state \<Rightarrow> bool" where
  "heap_ok st \<longleftrightarrow> heap_index st \<le> HEAP_SIZE \<and> heap st \<noteq> NULL \<and>
     unat (heap st) + unat HEAP_SIZE \<le> 2 ^ 32"

definition heap_owned :: "heap_state \<Rightarrow> u32 \<Rightarrow> bool" where
  "heap_owned st a \<longleftrightarrow> in_rng (heap st) (unat (heap_index st)) a"

text \<open>Requests for which \<open>heap_index + size\<close> cannot wrap past 2^32.\<close>

definition small_request :: "u32 \<Rightarrow> bool" where
  "small_request n \<longleftrightarrow> unat n + unat HEAP_SIZE < 2 ^ 32"

lemma unat_HEAP_SIZE [simp]: "unat HEAP_SIZE = 1048576"
  by (simp add: HEAP_SIZE_def)

lemma index_plus:
  assumes "heap_ok st" and "small_request n"
  shows "unat (heap_index st + n) = unat (heap_index st) + unat n"
  using assms by (simp add: heap_ok_def small_request_def word_le_nat_alt unat_word_ariths)

text \<open>The invariant needs no hypothesis on the size: the test bounds the new index itself.\<close>

lemma malloc_heap_ok: "heap_ok st \<Longrightarrow> heap_ok (snd (malloc n st))"
  by (auto simp: malloc_def heap_ok_def)

lemma malloc_fresh:
  assumes "heap_ok st" and "small_request n" and "malloc n st = (p, st')" and "p \<noteq> NULL"
  shows "p = heap st + heap_index st" and "unat p + unat n \<le> unat (heap st) + unat HEAP_SIZE"
    and "in_rng p (unat n) a \<Longrightarrow> \<not> heap_owned st a \<and> heap_owned st' a"
proof -
  have le: "unat (heap_index st) + unat n \<le> unat HEAP_SIZE"
    using assms index_plus [OF assms(1,2)]
    by (auto simp: malloc_def word_le_nat_alt not_less split: if_splits)
  show p: "p = heap st + heap_index st"
    using assms(3,4) by (auto simp: malloc_def split: if_splits)
  have st': "heap st' = heap st" "heap_index st' = heap_index st + n"
    using assms(3,4) by (auto simp: malloc_def split: if_splits)
  have base: "unat (heap st) + unat HEAP_SIZE \<le> 2 ^ 32" using assms(1) by (simp add: heap_ok_def)
  have md: "unat p = (unat (heap st) + unat (heap_index st)) mod 2 ^ 32"
    by (simp add: p unat_word_ariths)
  have "unat (heap st) + unat (heap_index st) \<noteq> 2 ^ 32"
    using md assms(4) by (auto simp: unat_eq_zero)
  then have up: "unat p = unat (heap st) + unat (heap_index st)"
    using md le base by simp
  show "unat p + unat n \<le> unat (heap st) + unat HEAP_SIZE" using le up by simp
  assume "in_rng p (unat n) a"
  then have "unat p \<le> unat a" "unat a < unat p + unat n"
    using le up base by (simp_all add: in_rng_unat)
  then show "\<not> heap_owned st a \<and> heap_owned st' a"
    using le up base by (simp add: heap_owned_def st' in_rng_unat index_plus [OF assms(1,2)])
qed

lemma malloc_owned_mono:
  assumes "heap_ok st" and "small_request n" and "heap_owned st a"
  shows "heap_owned (snd (malloc n st)) a"
  using assms index_plus [OF assms(1,2)] by (auto simp: malloc_def heap_owned_def in_rng_def)

interpretation bump: block_source malloc heap_owned heap_ok small_request
proof
  fix st n p st' a
  assume *: "heap_ok st" "small_request n" "malloc n st = (p, st')"
  show "heap_ok st'" using malloc_heap_ok [OF *(1), of n] *(3) by simp
  show "\<not> heap_owned st a \<and> heap_owned st' a" if "p \<noteq> NULL" "in_rng p (unat n) a"
    using malloc_fresh(3) [OF * that] .
  show "heap_owned st' a" if "heap_owned st a"
    using malloc_owned_mono [OF *(1,2) that] *(3) by simp
qed

text \<open>When \<open>malloc\<close> fails it changes nothing, and it fails exactly when the block does not fit.\<close>

lemma malloc_NULL_iff:
  assumes "heap_ok st" and "small_request n" and "unat (heap st) + unat HEAP_SIZE < 2 ^ 32"
  shows "fst (malloc n st) = NULL \<longleftrightarrow> unat HEAP_SIZE < unat (heap_index st) + unat n"
proof -
  have "unat (heap_index st) \<le> unat HEAP_SIZE" "heap st \<noteq> NULL"
    using assms(1) by (simp_all add: heap_ok_def word_le_nat_alt)
  then have "unat (heap st + heap_index st) = unat (heap st) + unat (heap_index st)"
    and "0 < unat (heap st)"
    using assms(3) by (simp_all add: unat_word_ariths unat_gt_0)
  then have "heap st + heap_index st \<noteq> NULL" by (metis add_is_0 less_irrefl unat_0)
  then show ?thesis
    using index_plus [OF assms(1,2)] by (simp add: malloc_def word_less_nat_alt)
qed

text \<open>A request just below 2^32 wraps the sum: it succeeds and moves the index back.\<close>

lemma malloc_wraps:
  assumes "heap_ok st" and "0 < k" and "k \<le> heap_index st"
  shows "malloc (- k) st = (heap st + heap_index st, st\<lparr>heap_index := heap_index st - k\<rparr>)"
proof -
  have "heap_index st - k \<le> heap_index st" using assms(3) by (simp add: word_sub_le)
  then have "\<not> HEAP_SIZE < heap_index st - k" using assms(1) by (auto simp: heap_ok_def)
  then show ?thesis by (simp add: malloc_def)
qed

section \<open>strdup and strndup\<close>

text \<open>The source string does not lie in the part of the heap that is still free.\<close>

definition not_in_free_heap :: "heap_state \<Rightarrow> u32 \<Rightarrow> nat \<Rightarrow> bool" where
  "not_in_free_heap st s n \<longleftrightarrow>
     (\<forall>a. in_rng s n a \<longrightarrow> heap_owned st a \<or> \<not> in_rng (heap st) (unat HEAP_SIZE) a)"

text \<open>A request that fits: the block, the new index, and its distance from the source.\<close>

lemma malloc_block:
  assumes ok: "heap_ok st" "unat (heap st) + unat HEAP_SIZE < 2 ^ 32"
    and room: "unat (heap_index st) + unat n \<le> unat HEAP_SIZE"
  shows "malloc n st = (heap st + heap_index st, st\<lparr>heap_index := heap_index st + n\<rparr>)"
    and "heap st + heap_index st \<noteq> NULL"
    and "not_in_free_heap st s k \<Longrightarrow> rng_disj (heap st + heap_index st) (unat n) s k"
proof -
  let ?p = "heap st + heap_index st"
  have small: "small_request n" using room by (simp add: small_request_def)
  have p: "fst (malloc n st) \<noteq> NULL" using malloc_NULL_iff [OF ok(1) small ok(2)] room by simp
  then show m: "malloc n st = (?p, st\<lparr>heap_index := heap_index st + n\<rparr>)"
    by (auto simp: malloc_def split: if_splits)
  then show nz: "?p \<noteq> NULL" using p by simp
  assume src: "not_in_free_heap st s k"
  have "\<not> heap_owned st a \<and> in_rng (heap st) (unat HEAP_SIZE) a" if a: "in_rng ?p (unat n) a" for a
  proof
    show "\<not> heap_owned st a" using malloc_fresh(3) [OF ok(1) small m nz a] by simp
    have "unat ?p = unat (heap st) + unat (heap_index st)"
      using ok room by (simp add: unat_word_ariths)
    then show "in_rng (heap st) (unat HEAP_SIZE) a"
      using a room ok by (simp add: in_rng_unat)
  qed
  then show "rng_disj ?p (unat n) s k" using src by (auto simp: rng_disj_def not_in_free_heap_def)
qed

lemma strdup_cstr:
  assumes ok: "heap_ok st" "unat (heap st) + unat HEAP_SIZE < 2 ^ 32"
    and s: "s \<noteq> NULL" "cstr (hmem st) s t" "not_in_free_heap st s (Suc (length t))"
    and room: "unat (heap_index st) + length t + 1 \<le> unat HEAP_SIZE"
  shows "\<exists>st'. strdup s st = Some (heap st + heap_index st, st') \<and>
    cstr (hmem st') (heap st + heap_index st) t \<and> cstr (hmem st') s t \<and>
    unat (heap_index st') = unat (heap_index st) + length t + 1"
proof -
  let ?p = "heap st + heap_index st" and ?n = "of_nat (length t) + 1 :: u32"
  have n: "unat ?n = Suc (length t)"
    using room by (simp add: unat_word_ariths unat_of_nat)
  have blk: "unat (heap_index st) + unat ?n \<le> unat HEAP_SIZE" using room n by simp
  note b = malloc_block [OF ok blk]
  let ?m = "copied (hmem st) ?p s (Suc (length t))"
  let ?st = "st\<lparr>heap_index := heap_index st + ?n, hmem := ?m\<rparr>"
  have disj: "rng_disj ?p (Suc (length t)) s (Suc (length t))" using b(3) [OF s(3)] n by simp
  have "memcpy (hmem st) ?p s ?n = (?p + ?n, ?m)"
    using memcpy_eq [of ?p s ?n] copy_safe_disj [OF disj] n by (simp add: copied_def)
  then have "strdup s st = Some (?p, ?st)"
    using s b(1,2) by (simp add: strdup_def strlen_cstr)
  moreover have "cstr ?m ?p t" using cstr_copied [OF s(2)] .
  moreover have "cstr ?m s t"
    using disj by (intro cstr_cong [OF s(2)]) (auto simp: copied_def rng_disj_def)
  moreover have "unat (heap_index st + ?n) = unat (heap_index st) + length t + 1"
    using room n by (simp add: unat_word_ariths)
  ultimately show ?thesis by (intro exI [of _ ?st]) simp
qed

lemma strndup_loop_strncpy:
  "i \<le> n \<Longrightarrow> strndup_loop m d s n i = strncpy_copy m d s n i"
proof (induction arbitrary: m rule: count_induct)
  case stop
  show ?case by (simp add: strndup_loop.simps [of m d s n n] strncpy_copy.simps [of m d s n n])
next
  case (step i)
  then show ?case
    by (simp add: strndup_loop.simps [of m d s n i] strncpy_copy.simps [of m d s n i] fun_upd_def)
qed

text \<open>\<open>strndup\<close> copies at most \<open>n\<close> bytes and always terminates the copy.\<close>

lemma strndup_cstr:
  assumes ok: "heap_ok st" "unat (heap st) + unat HEAP_SIZE < 2 ^ 32"
    and s: "cstr (hmem st) s t" "not_in_free_heap st s (Suc (length t))"
    and room: "unat (heap_index st) + unat n + 1 \<le> unat HEAP_SIZE"
  shows "\<exists>st'. strndup s n st = (heap st + heap_index st, st') \<and>
    cstr (hmem st') (heap st + heap_index st) (take (unat n) t)"
proof -
  let ?p = "heap st + heap_index st" and ?k = "min (unat n) (length t)"
  have n1: "unat (n + 1) = Suc (unat n)" using room by (simp add: unat_word_ariths)
  have blk: "unat (heap_index st) + unat (n + 1) \<le> unat HEAP_SIZE" using room n1 by simp
  note b = malloc_block [OF ok blk]
  have disj: "rng_disj ?p (unat n) s (Suc (length t))"
    using b(3) [OF s(2)] n1 by (auto intro: rng_disj_mono)
  define m where "m = (\<lambda>a. if unat (a - ?p) < ?k then hmem st (s + (a - ?p)) else hmem st a)"
  have "strndup_loop (hmem st) ?p s n 0 = (of_nat ?k, m)"
    using strncpy_copy_cstr [of 0 n t "hmem st" s ?p] s(1) disj
    by (simp add: strndup_loop_strncpy m_def)
  then have dup: "strndup s n st =
      (?p, st\<lparr>heap_index := heap_index st + (n + 1), hmem := m(?p + of_nat ?k := 0)\<rparr>)"
    using b(1,2) by (simp add: strndup_def)
  have k: "?k < 2 ^ 32" using unat32_less [of n] by simp
  have "(m(?p + of_nat ?k := 0)) (?p + of_nat i) = t ! i \<and> t ! i \<noteq> 0" if "i < ?k" for i
  proof -
    have "i < 2 ^ 32" by (rule less_trans [OF that k])
    note ui = unat_of_nat32 [OF this] and uk = unat_of_nat32 [OF k]
    have "(of_nat i :: u32) \<noteq> of_nat ?k" using that ui uk by (metis less_irrefl)
    then show ?thesis using s(1) that ui by (simp add: m_def cstr_iff)
  qed
  then have "cstr (m(?p + of_nat ?k := 0)) ?p (take (unat n) t)"
    unfolding cstr_iff by (simp add: min.commute)
  then show ?thesis using dup by simp
qed

section \<open>mmap and munmap\<close>

definition live_at :: "heap_state \<Rightarrow> u32 \<Rightarrow> u32 \<Rightarrow> bool" where
  "live_at st addr i \<longleftrightarrow> mm_addr (mappings st i) = addr \<and> mm_allocated (mappings st i)"

definition release :: "u32 \<Rightarrow> heap_state \<Rightarrow> heap_state" where
  "release i st = st\<lparr>mappings := (mappings st)(i := (mappings st i)\<lparr>mm_allocated := False\<rparr>)\<rparr>"

lemma munmap_loop_cases:
  assumes "i \<le> next_mapping st"
  shows "(\<exists>j. i \<le> j \<and> j < next_mapping st \<and> live_at st addr j \<and>
            (\<forall>k. i \<le> k \<and> k < j \<longrightarrow> \<not> live_at st addr k) \<and>
            munmap_loop i addr st = (0, release j st)) \<or>
         (\<forall>k. i \<le> k \<and> k < next_mapping st \<longrightarrow> \<not> live_at st addr k) \<and>
           munmap_loop i addr st = (-1, st)"
  using assms
proof (induction rule: count_induct)
  case stop
  show ?case by (auto simp: munmap_loop.simps [of "next_mapping st" addr st])
next
  case (step i)
  have split: "i \<le> k \<longleftrightarrow> k = i \<or> i + 1 \<le> k" for k
    using step(1) by (auto simp: word_le_nat_alt unat_Suc_less word_unat_eq_iff)
  show ?case
  proof (cases "live_at st addr i")
    case True
    then have "munmap_loop i addr st = (0, release i st)"
      using step(1)
      by (simp add: munmap_loop.simps [of i addr st] release_def free_def live_at_def)
    then show ?thesis using step(1) True by (intro disjI1 exI [of _ i]) auto
  next
    case False
    then have "munmap_loop i addr st = munmap_loop (i + 1) addr st"
      using step(1) by (auto simp: munmap_loop.simps [of i addr st] live_at_def)
    then show ?thesis using step(2) False by (auto simp: split)
  qed
qed

text \<open>\<open>munmap\<close> succeeds exactly when the address has a live mapping, and then retires the first.\<close>

lemma munmap_cases:
  obtains (found) j where "j < next_mapping st" "live_at st addr j"
      "\<forall>k < j. \<not> live_at st addr k" "munmap addr len st = (0, release j st)"
    | (missing) "\<forall>k < next_mapping st. \<not> live_at st addr k" "munmap addr len st = (-1, st)"
  using munmap_loop_cases [of 0 st addr] by (auto simp: munmap_def)

text \<open>Every operation of the allocator, as a step of its state.\<close>

inductive heap_step :: "heap_state \<Rightarrow> heap_state \<Rightarrow> bool" where
  step_malloc: "heap_step st (snd (malloc n st))"
| step_free: "heap_step st (free p st)"
| step_strdup: "strdup s st = Some (p, st') \<Longrightarrow> heap_step st st'"
| step_strndup: "heap_step st (snd (strndup s n st))"
| step_mmap: "heap_step st (snd (mmap addr len prot flags fd offset st))"
| step_munmap: "heap_step st (snd (munmap addr len st))"

definition heap_inv :: "heap_state \<Rightarrow> bool" where
  "heap_inv st \<longleftrightarrow> heap_ok st \<and> next_mapping st \<le> MAX_MAPPINGS"

text \<open>What no operation other than \<open>mmap\<close> touches, and what \<open>malloc\<close> leaves alone.\<close>

lemma malloc_frame [simp]:
  "hmem (snd (malloc n st)) = hmem st" "mappings (snd (malloc n st)) = mappings st"
  "next_mapping (snd (malloc n st)) = next_mapping st" "heap (snd (malloc n st)) = heap st"
  by (simp_all add: malloc_def)

lemma heap_ok_hmem [simp]: "heap_ok (st\<lparr>hmem := m\<rparr>) = heap_ok st"
  by (simp add: heap_ok_def)

lemma hmem_id [simp]: "st\<lparr>hmem := hmem st\<rparr> = st"
  by (cases st) simp

lemma strdup_state:
  assumes "strdup s st = Some (p, st')"
  shows "st' = st \<or> (\<exists>n m. st' = (snd (malloc n st))\<lparr>hmem := m\<rparr>)"
proof (cases "s = NULL")
  case False
  then obtain l where l: "strlen (hmem st) s = Some l"
    using assms by (cases "strlen (hmem st) s") (auto simp: strdup_def)
  obtain new st1 where m: "malloc (l + 1) st = (new, st1)" by (cases "malloc (l + 1) st")
  let ?m = "if new \<noteq> NULL then snd (memcpy (hmem st1) new s (l + 1)) else hmem st1"
  have "st' = st1\<lparr>hmem := ?m\<rparr>" using assms False l m by (auto simp: strdup_def)
  then show ?thesis using m by (metis snd_conv)
qed (use assms in \<open>simp add: strdup_def\<close>)

lemma strndup_state: "\<exists>m. snd (strndup s n st) = (snd (malloc (n + 1) st))\<lparr>hmem := m\<rparr>"
proof -
  obtain dup st1 where m: "malloc (n + 1) st = (dup, st1)" by (cases "malloc (n + 1) st")
  obtain i m' where "strndup_loop (hmem st1) dup s n 0 = (i, m')"
    by (cases "strndup_loop (hmem st1) dup s n 0")
  then have "snd (strndup s n st) =
      st1\<lparr>hmem := if dup = NULL then hmem st1 else m'(dup + i := 0)\<rparr>"
    using m by (simp add: strndup_def)
  then show ?thesis using m by (metis snd_conv)
qed

lemma mmap_state:
  obtains (unchanged) n where
    "snd (mmap addr len prot flags fd offset st) = st \<or>
     snd (mmap addr len prot flags fd offset st) = snd (malloc n st)"
    "fst (mmap addr len prot flags fd offset st) = MAP_FAILED"
  | (mapped) p e where "next_mapping st < MAX_MAPPINGS" "p \<noteq> NULL"
    "fst (malloc len st) = p" "mm_addr e = p" "mm_size e = len" "mm_allocated e"
    "mmap addr len prot flags fd offset st =
      (p, (snd (malloc len st))\<lparr>mappings := (mappings st)(next_mapping st := e),
            next_mapping := next_mapping st + 1\<rparr>)"
proof (cases "next_mapping st \<ge> MAX_MAPPINGS")
  case True
  then show ?thesis by (intro unchanged) (simp_all add: mmap_def)
next
  case False
  obtain p st1 where m: "malloc len st = (p, st1)" by (cases "malloc len st")
  note fr = malloc_frame [of len st, unfolded m, simplified]
  show ?thesis
  proof (cases "p = NULL")
    case True
    then show ?thesis using False m by (intro unchanged [of len]) (simp_all add: mmap_def)
  next
    case p: False
    show ?thesis
      by (rule mapped [of p "\<lparr>mm_addr = p, mm_size = len, mm_prot = prot, mm_allocated = True\<rparr>"])
         (use False p m fr in \<open>auto simp: mmap_def\<close>)
  qed
qed

lemma unat_MAX_MAPPINGS [simp]: "unat MAX_MAPPINGS = 256"
  by (simp add: MAX_MAPPINGS_def)

lemma heap_inv_hmem [simp]: "heap_inv (st\<lparr>hmem := m\<rparr>) = heap_inv st"
  by (simp add: heap_inv_def)

lemma heap_inv_malloc: "heap_inv st \<Longrightarrow> heap_inv (snd (malloc n st))"
  by (simp add: heap_inv_def malloc_heap_ok)

lemma heap_ok_table [simp]:
  "heap_ok (st\<lparr>mappings := f, next_mapping := k\<rparr>) = heap_ok st"
  "heap_ok (st\<lparr>mappings := f\<rparr>) = heap_ok st"
  by (simp_all add: heap_ok_def)

lemma heap_inv_mmap:
  assumes "heap_inv st"
  shows "heap_inv (snd (mmap addr len prot flags fd offset st)) \<and>
    next_mapping st \<le> next_mapping (snd (mmap addr len prot flags fd offset st))"
proof (cases rule: mmap_state [of addr len prot flags fd offset st])
  case (unchanged n)
  then show ?thesis using assms heap_inv_malloc [OF assms, of n] malloc_frame(3) [of n st] by auto
next
  case (mapped p e)
  have lt: "next_mapping st < next_mapping st + 1" "next_mapping st + 1 \<le> MAX_MAPPINGS"
    using unat_Suc_less [OF mapped(1)] inc_le [OF mapped(1)] by (auto simp: word_less_nat_alt)
  have "heap_ok (snd (malloc len st))"
    using assms malloc_heap_ok [of st len] by (simp add: heap_inv_def)
  then show ?thesis using lt by (simp add: mapped(7) heap_inv_def)
qed

text \<open>The invariant holds after every step, and the table never shrinks.\<close>

lemma heap_step_inv:
  assumes "heap_step st st'" and "heap_inv st"
  shows "heap_inv st' \<and> next_mapping st \<le> next_mapping st'"
  using assms(1)
proof cases
  case (step_malloc n)
  then show ?thesis using heap_inv_malloc [OF assms(2), of n] by simp
next
  case (step_free p)
  then show ?thesis using assms(2) by (simp add: free_def)
next
  case (step_strdup s p)
  then show ?thesis using strdup_state [OF step_strdup] assms(2) heap_inv_malloc by auto
next
  case (step_strndup s n)
  then show ?thesis using strndup_state [of s n st] assms(2) heap_inv_malloc by auto
next
  case step_mmap
  then show ?thesis using heap_inv_mmap [OF assms(2)] by simp
next
  case (step_munmap addr len)
  have "heap_inv (release j st)" "next_mapping (release j st) = next_mapping st" for j
    using assms(2) by (simp_all add: heap_inv_def release_def)
  then show ?thesis using step_munmap assms(2) by (cases rule: munmap_cases [of st addr len]) simp_all
qed

lemma heap_run_inv:
  assumes "heap_step\<^sup>*\<^sup>* st st'" and "heap_inv st"
  shows "heap_inv st' \<and> next_mapping st \<le> next_mapping st'"
  using assms(1)
proof (induction rule: rtranclp_induct)
  case base
  then show ?case using assms(2) by simp
next
  case (step st1 st2)
  then show ?case using heap_step_inv [OF step.hyps(2)] by auto
qed

text \<open>A full table stays full: \<open>munmap\<close> marks an entry but never gives it back.\<close>

lemma mmap_exhausted:
  assumes "heap_inv st" and "next_mapping st = MAX_MAPPINGS" and "heap_step\<^sup>*\<^sup>* st st'"
  shows "mmap addr len prot flags fd offset st' = (MAP_FAILED, st')"
  using heap_run_inv [OF assms(3,1)] assms(2) by (simp add: mmap_def)

text \<open>What \<open>mmap\<close> returned, \<open>munmap\<close> accepts.\<close>

lemma mmap_then_munmap:
  assumes "mmap addr len prot flags fd offset st = (p, st')" and "p \<noteq> MAP_FAILED"
    and "heap_inv st"
  shows "fst (munmap p len' st') = 0"
proof (cases rule: mmap_state [of addr len prot flags fd offset st])
  case (unchanged n)
  then show ?thesis using assms by simp
next
  case (mapped q e)
  have "next_mapping st < next_mapping st + 1"
    using unat_Suc_less [OF mapped(1)] by (simp add: word_less_nat_alt)
  then have live: "live_at st' p (next_mapping st)" "next_mapping st < next_mapping st'"
    using assms(1) mapped by (auto simp: live_at_def)
  show ?thesis
    by (cases rule: munmap_cases [of st' p len']) (use live in auto)
qed

end
