(* ===== verification/Pci.thy ===== *)
theory Pci
  imports Hardware Printk Allocator
begin

text \<open>
  \<open>libs/Drivers/pci.c\<close>: configuration space accesses and the enumeration of the devices. A PCI
  bus is a hypothesis on the device: the data port answers with the register that the address
  port was last set to.
\<close>

section \<open>The model\<close>

record pci_device =
  pd_bus :: u8
  pd_device :: u8
  pd_function :: u8
  pd_vendor_id :: u16
  pd_device_id :: u16
  pd_port :: u32

text \<open>
  \<open>struct pci_device\<close> as it lies in memory: 12 bytes, byte 3 being padding (the offsets are those of
  \<open>CStructs.device_members\<close>). \<open>device_at\<close> reads an entry,
  \<open>store_device\<close> is the five assignments that the enumeration makes to a new one.
\<close>

definition device_at :: "mem \<Rightarrow> u32 \<Rightarrow> pci_device" where
  "device_at m p = \<lparr>pd_bus = m p, pd_device = m (p + 1), pd_function = m (p + 2),
     pd_vendor_id = load16 m (p + 4), pd_device_id = load16 m (p + 6), pd_port = load32 m (p + 8)\<rparr>"

definition store_device :: "mem \<Rightarrow> u32 \<Rightarrow> u8 \<Rightarrow> u8 \<Rightarrow> u8 \<Rightarrow> u16 \<Rightarrow> u16 \<Rightarrow> mem" where
  "store_device m p b d f vendor dev =
     store16 (store16 (m(p := b, p + 1 := d, p + 2 := f)) (p + 4) vendor) (p + 6) dev"

record pci_device_list =
  pl_ptr :: u32
  pl_length :: nat

text \<open>
  The state of the enumeration: the devices, the console with the memory, \<open>dev_list.pci_device\<close> and
  \<open>device_count\<close>.
\<close>

record pci_sys =
  pc_hw :: hw
  pc_con :: console
  pc_ptr :: u32
  pc_count :: nat

definition pc_store :: "(mem \<Rightarrow> mem) \<Rightarrow> pci_sys \<Rightarrow> pci_sys" where
  "pc_store g s = s\<lparr>pc_con := (pc_con s)\<lparr>con_mem := g (con_mem (pc_con s))\<rparr>\<rparr>"

definition entry_ptr :: "u32 \<Rightarrow> nat \<Rightarrow> u32" where
  "entry_ptr p i = p + 12 * of_nat i"

definition MAX_PCI_DEVICES :: nat where "MAX_PCI_DEVICES = 128"

definition pci_write_config_address :: "u32 \<Rightarrow> hw \<Rightarrow> hw" where
  "pci_write_config_address address h = outl 0xCF8 address h"

definition pci_read_config_data :: "hw \<Rightarrow> u32 \<times> hw" where
  "pci_read_config_data h = inl 0xCFC h"

definition pci_read_config_space :: "u8 \<Rightarrow> u8 \<Rightarrow> u8 \<Rightarrow> u8 \<Rightarrow> hw \<Rightarrow> u32 \<times> hw" where
  "pci_read_config_space b d f offset h =
     (let address = push_bit 16 (ucast b) OR push_bit 11 (ucast d) OR push_bit 8 (ucast f) OR
                    (ucast offset AND 0xFC) OR 0x80000000
      in inl 0xCFC (outl 0xCF8 address h))"

definition config_address :: "u8 \<Rightarrow> u8 \<Rightarrow> u8 \<Rightarrow> u32" where
  "config_address b d f =
     push_bit 16 (ucast b) OR push_bit 11 (ucast d) OR push_bit 8 (ucast f) OR 0x80000000"

text \<open>The body of the innermost loop; the flag is \<open>break\<close>.\<close>

definition enum_function :: "u8 \<Rightarrow> u8 \<Rightarrow> u8 \<Rightarrow> pci_sys \<Rightarrow> (bool \<times> pci_sys) option" where
  "enum_function b d f s =
     (case pci_read_config_data (pci_write_config_address (config_address b d f) (pc_hw s)) of
       (vendor_device_id, h1) \<Rightarrow>
         let s1 = s\<lparr>pc_hw := h1\<rparr>;
             vendor = vendor_device_id AND 0xFFFF;
             dev = drop_bit 16 vendor_device_id AND 0xFFFF
         in if vendor_device_id = 0xFFFFFFFF then Some (False, s1)
            else if vendor \<noteq> 0xFFFF \<and> dev \<noteq> 0xFFFF then
              if pc_count s < MAX_PCI_DEVICES then
                let e = entry_ptr (pc_ptr s) (pc_count s);
                    s2 = pc_store (\<lambda>m. store_device m e b d f (ucast vendor) (ucast dev)) s1
                in case pci_read_config_data h1 of (base_address, h2) \<Rightarrow>
                  let s3 = s2\<lparr>pc_hw := h2\<rparr>
                  in if base_address \<noteq> 0 then
                       Some (False, pc_store (\<lambda>m. store32 m (e + 8) base_address) (s3\<lparr>pc_count := pc_count s + 1\<rparr>))
                     else do {
                       c \<leftarrow> kprint (''Warning: Base address for device %d:%d:%d is invalid.'' @ [CHR 0x0A])
                              [ucast b, ucast d, ucast f] (pc_con s3);
                       Some (False, s3\<lparr>pc_con := c, pc_count := pc_count s + 1\<rparr>)
                     }
              else do {
                c \<leftarrow> kprint (''Error: Exceeded maximum number of PCI devices (%d).'' @ [CHR 0x0A]) [128] (pc_con s);
                Some (True, s1\<lparr>pc_con := c\<rparr>)
              }
            else Some (False, s1))"

function enum_functions :: "u8 \<Rightarrow> u8 \<Rightarrow> u8 \<Rightarrow> pci_sys \<Rightarrow> pci_sys option" where
  "enum_functions b d f s =
     (if f < 8 then do {
        (brk, s1) \<leftarrow> enum_function b d f s;
        if brk then Some s1 else enum_functions b d (f + 1) s1
      } else Some s)"
  by pat_completeness auto
termination
  by (relation "measure (\<lambda>(b, d, f, s). unat (8 :: u8) - unat f)") (auto dest: count_measure)

function enum_devices :: "u8 \<Rightarrow> u8 \<Rightarrow> pci_sys \<Rightarrow> pci_sys option" where
  "enum_devices b d s =
     (if d < 32 then do { s1 \<leftarrow> enum_functions b d 0 s; enum_devices b (d + 1) s1 } else Some s)"
  by pat_completeness auto
termination
  by (relation "measure (\<lambda>(b, d, s). unat (32 :: u8) - unat d)") (auto dest: count_measure)

declare enum_functions.simps [simp del] enum_devices.simps [simp del]

text \<open>
  \<open>bus\<close> is a \<open>uint8_t\<close>, so that \<open>bus < 256\<close> always holds and \<open>bus == 256\<close> never: the loop is
  left only once 128 devices have been recorded.
\<close>

partial_function (option) enum_buses :: "u8 \<Rightarrow> pci_sys \<Rightarrow> pci_sys option" where
  "enum_buses b s =
     (if unat b < 256 then
        if unat b = 256 then do {
          c \<leftarrow> kprint (''Bus enumeration finished.'' @ [CHR 0x0A]) [] (pc_con s);
          Some (s\<lparr>pc_con := c\<rparr>)
        }
        else do {
          s1 \<leftarrow> enum_devices b 0 s;
          if MAX_PCI_DEVICES \<le> pc_count s1 then Some s1 else enum_buses (b + 1) s1
        }
      else Some s)"

definition pci_enumerate_devices ::
    "hw \<Rightarrow> console \<Rightarrow> heap_state \<Rightarrow> (pci_device_list \<times> hw \<times> console \<times> heap_state) option" where
  "pci_enumerate_devices h c hp =
     (case malloc (128 * 12) hp of (ptr, hp1) \<Rightarrow>
        if ptr = NULL then do {
          c1 \<leftarrow> kprint (''Error: Failed to allocate memory for PCI devices list.'' @ [CHR 0x0A]) [] c;
          Some (\<lparr>pl_ptr = NULL, pl_length = 0\<rparr>, h, c1, hp1)
        }
        else do {
          c1 \<leftarrow> kprint (''Starting PCI enumeration...'' @ [CHR 0x0A]) [] c;
          s \<leftarrow> enum_buses 0 \<lparr>pc_hw = h, pc_con = c1, pc_ptr = ptr, pc_count = 0\<rparr>;
          c2 \<leftarrow> kprint (''PCI enumeration finished. %d devices found.'' @ [CHR 0x0A])
                 [of_nat (pc_count s)] (pc_con s);
          Some (\<lparr>pl_ptr = ptr, pl_length = pc_count s\<rparr>, pc_hw s, c2, hp1)
        })"

section \<open>A PCI bus\<close>

text \<open>The register selected by the last write to the address port.\<close>

fun selected :: "io list \<Rightarrow> u32" where
  "selected [] = 0"
| "selected (OutL p v # tr) = (if p = 0xCF8 then v else selected tr)"
| "selected (_ # tr) = selected tr"

definition pci_bus :: "(u32 \<Rightarrow> u32) \<Rightarrow> hw \<Rightarrow> bool" where
  "pci_bus cfg h \<longleftrightarrow> (\<forall>tr. dev_port h tr 0xCFC = cfg (selected tr))"

lemma pci_bus_io [simp]:
  "pci_bus cfg (snd (inl q h)) = pci_bus cfg h" "pci_bus cfg (outl p v h) = pci_bus cfg h"
  by (simp_all add: pci_bus_def inl_def outl_def Let_def)

lemma read_config_space:
  assumes "pci_bus cfg h"
  shows "fst (pci_read_config_space b d f offset h) =
    cfg (push_bit 16 (ucast b) OR push_bit 11 (ucast d) OR push_bit 8 (ucast f) OR
         (ucast offset AND 0xFC) OR 0x80000000)"
  using assms by (simp add: pci_read_config_space_def inl_def outl_def pci_bus_def Let_def)

text \<open>What identifies a device that answers.\<close>

definition answers :: "(u32 \<Rightarrow> u32) \<Rightarrow> u8 \<Rightarrow> u8 \<Rightarrow> u8 \<Rightarrow> bool" where
  "answers cfg b d f \<longleftrightarrow> cfg (config_address b d f) \<noteq> 0xFFFFFFFF \<and>
     cfg (config_address b d f) AND 0xFFFF \<noteq> 0xFFFF \<and>
     drop_bit 16 (cfg (config_address b d f)) AND 0xFFFF \<noteq> 0xFFFF"

text \<open>A recorded entry describes a device that answers; its \<open>pd_port\<close> is the ID word read again.\<close>

definition entry_ok :: "(u32 \<Rightarrow> u32) \<Rightarrow> pci_device \<Rightarrow> bool" where
  "entry_ok cfg e \<longleftrightarrow> pd_device e < 32 \<and> pd_function e < 8 \<and> answers cfg (pd_bus e) (pd_device e) (pd_function e) \<and>
     (let v = cfg (config_address (pd_bus e) (pd_device e) (pd_function e)) in
      pd_vendor_id e = ucast v \<and> pd_device_id e = ucast (drop_bit 16 v) \<and> (v \<noteq> 0 \<longrightarrow> pd_port e = v))"

text \<open>
  The invariant, relative to the console \<open>c0\<close> and the address \<open>p\<close> of the array at the start: nothing is
  written outside the array and \<open>printk\<close>'s buffers, and when these do not meet, the entries so far are
  good.
\<close>

definition array_apart :: "u32 \<Rightarrow> console \<Rightarrow> bool" where
  "array_apart p c \<longleftrightarrow> rng_disj p 1536 (con_buf c) 256 \<and> rng_disj p 1536 (con_num c) 12"

definition pci_frame :: "u32 \<Rightarrow> console \<Rightarrow> console \<Rightarrow> bool" where
  "pci_frame p c0 c \<longleftrightarrow> con_buf c = con_buf c0 \<and> con_num c = con_num c0 \<and>
     (\<forall>a. \<not> in_rng p 1536 a \<and> \<not> in_rng (con_buf c0) 256 a \<and> \<not> in_rng (con_num c0) 12 a \<longrightarrow>
       con_mem c a = con_mem c0 a)"

definition pci_inv :: "(u32 \<Rightarrow> u32) \<Rightarrow> u32 \<Rightarrow> console \<Rightarrow> pci_sys \<Rightarrow> bool" where
  "pci_inv cfg p c0 s \<longleftrightarrow> con_ok (pc_con s) \<and> pci_bus cfg (pc_hw s) \<and> pc_count s \<le> 128 \<and> pc_ptr s = p \<and>
     pci_frame p c0 (pc_con s) \<and>
     (array_apart p c0 \<longrightarrow> (\<forall>i < pc_count s. entry_ok cfg (device_at (con_mem (pc_con s)) (entry_ptr p i))))"

section \<open>Entries in memory\<close>

lemma entry_cells:
  assumes "i < 128"
  shows "in_rng (entry_ptr p i) 12 a \<Longrightarrow> in_rng p 1536 a"
proof -
  have "entry_ptr p i = p + of_nat (12 * i)" by (simp add: entry_ptr_def)
  then show "in_rng (entry_ptr p i) 12 a \<Longrightarrow> in_rng p 1536 a"
    using in_rng_shift [of p "12 * i" 12 a 1536] assms by simp
qed

lemma entries_disj:
  assumes "i < j" and "j < 128"
  shows "rng_disj (entry_ptr p i) 12 (entry_ptr p j) 12"
proof -
  have "entry_ptr p k = p + of_nat (12 * k)" for k by (simp add: entry_ptr_def)
  then show ?thesis using rng_disj_offsets [of "12 * i" 12 "12 * j" 12 p] assms by simp
qed

lemma port_cells: "in_rng (e + 8) 4 a \<Longrightarrow> in_rng e 12 a"
  using in_rng_shift [of e 8 4 a 12] by simp

lemma device_at_cong:
  assumes "\<And>a. in_rng p 12 a \<Longrightarrow> m' a = m a"
  shows "device_at m' p = device_at m p"
proof -
  have c: "m' (p + of_nat i) = m (p + of_nat i)" if "i < 12" for i
    by (rule assms) (use that in \<open>simp add: in_rng_of_natI\<close>)
  show ?thesis
    using c [of 0] c [of 1] c [of 2] c [of 4] c [of 5] c [of 6] c [of 7] c [of 8] c [of 9] c [of 10] c [of 11]
    by (simp add: device_at_def load16_def load32_def add.assoc)
qed

lemma device_at_stored:
  "device_at (store_device m p b d f v w) p = \<lparr>pd_bus = b, pd_device = d, pd_function = f,
     pd_vendor_id = v, pd_device_id = w, pd_port = load32 m (p + 8)\<rparr>"
  by (simp add: device_at_def store_device_def load16_def load32_def store16_def add.assoc bytes_of_u16)

lemma device_at_port: "device_at (store32 m (p + 8) v) p = (device_at m p)\<lparr>pd_port := v\<rparr>"
  using load32_store32 [of m "p + 8" v] by (simp add: device_at_def load16_def store32_def add.assoc)

lemma store_device_outside: "\<not> in_rng p 12 a \<Longrightarrow> store_device m p b d f v w a = m a"
proof -
  assume a: "\<not> in_rng p 12 a"
  have "a \<noteq> p + of_nat i" if "i < 12" for i using a that by (auto simp: in_rng_of_natI)
  from this [of 0] this [of 1] this [of 2] this [of 4] this [of 5] this [of 6] this [of 7]
  show ?thesis by (simp add: store_device_def store16_def add.assoc)
qed

lemma port_outside: "\<not> in_rng p 12 a \<Longrightarrow> store32 m (p + 8) v a = m a"
  using port_cells [of p a] by (intro store32_outside) blast

text \<open>What is written to entry \<open>i\<close> keeps the frame and the entries before it.\<close>

lemma pci_frame_entry:
  assumes "pci_frame p c0 c" and "i < 128" and "\<And>a. \<not> in_rng (entry_ptr p i) 12 a \<Longrightarrow> m a = con_mem c a"
  shows "pci_frame p c0 (c\<lparr>con_mem := m\<rparr>)"
proof -
  have "m a = con_mem c a" if "\<not> in_rng p 1536 a" for a
    using assms(3) entry_cells [OF assms(2), of p a] that by blast
  then show ?thesis using assms(1) by (simp add: pci_frame_def)
qed

lemma entries_keep:
  assumes "j < i" and "i < 128" and "\<And>a. \<not> in_rng (entry_ptr p i) 12 a \<Longrightarrow> m' a = m a"
  shows "device_at m' (entry_ptr p j) = device_at m (entry_ptr p j)"
  using assms(3) rng_disjD [OF entries_disj [OF assms(1,2)]] by (intro device_at_cong) blast

text \<open>What is printed keeps the frame, and the array when the buffers do not meet it.\<close>

lemma pci_frame_printed: "pci_frame p c0 c \<Longrightarrow> printed c t c' \<Longrightarrow> pci_frame p c0 c'"
  by (simp add: pci_frame_def printed_def)

lemma entries_printed:
  assumes "printed c t c'" and "pci_frame p c0 c" and "array_apart p c0" and "i < 128"
  shows "device_at (con_mem c') (entry_ptr p i) = device_at (con_mem c) (entry_ptr p i)"
proof (rule device_at_cong)
  fix a assume "in_rng (entry_ptr p i) 12 a"
  then have "in_rng p 1536 a" using assms(4) by (rule entry_cells [rotated])
  then show "con_mem c' a = con_mem c a"
    using assms(1-3) by (auto simp: array_apart_def pci_frame_def printed_def dest: rng_disjD)
qed

section \<open>One function\<close>

lemma config_read:
  assumes "pci_bus cfg h"
  shows "fst (pci_read_config_data (pci_write_config_address a h)) = cfg a"
    and "fst (pci_read_config_data (snd (pci_read_config_data (pci_write_config_address a h)))) = cfg a"
  using assms
  by (simp_all add: pci_read_config_data_def pci_write_config_address_def inl_def outl_def pci_bus_def Let_def)

lemma config_bus [simp]:
  "pci_bus cfg (snd (pci_read_config_data h)) = pci_bus cfg h"
  "pci_bus cfg (pci_write_config_address a h) = pci_bus cfg h"
  by (simp_all add: pci_read_config_data_def pci_write_config_address_def)

lemma kprint_bytes:
  assumes "con_ok c" and "0 \<notin> set (lit f)" and "no_strings (lit f)" and "length (lit f) < 2 ^ 32"
    and "xs = map (\<lambda>b. ucast (b :: u8)) bs" and "length (fmt_text f xs) < 256"
  shows "\<exists>c'. kprint f xs c = Some c' \<and> con_ok c' \<and> printed c (fmt_text f xs) c'"
proof -
  have "sint (ucast b :: u32) \<noteq> - (2 ^ 31)" for b :: u8
  proof -
    have "sint (ucast b :: u32) = int (unat b)"
      using unat8_less [of b] sint_of_nat32 [of "unat (ucast b :: u32)"] by simp
    then have "\<not> sint (ucast b :: u32) < 0" by simp
    then show ?thesis by (auto simp del: signed_ucast_eq)
  qed
  then have "\<forall>x \<in> set xs. sint x \<noteq> - (2 ^ 31)" using assms(5) by auto
  from kprint_printed [OF assms(1-4) this assms(6)] show ?thesis using printed_ok assms(1) by blast
qed

lemma itoa_text_short: "length (itoa_text 10 (sint (x :: s32))) \<le> 11"
  using length_itoa_text_10 [of "sint x"] sint_ge [of x] sint_lt [of x] by simp

lemma warning_prints:
  assumes "con_ok c"
  shows "\<exists>c'. kprint (''Warning: Base address for device %d:%d:%d is invalid.'' @ [CHR 0x0A])
    [ucast (b :: u8), ucast (d :: u8), ucast (f :: u8)] c = Some c' \<and> con_ok c' \<and>
    printed c (fmt_text (''Warning: Base address for device %d:%d:%d is invalid.'' @ [CHR 0x0A]) [ucast b, ucast d, ucast f]) c'"
proof (rule kprint_bytes [OF assms, of _ _ "[b, d, f]"])
  show "length (fmt_text (''Warning: Base address for device %d:%d:%d is invalid.'' @ [CHR 0x0A])
      [ucast b, ucast d, ucast f]) < 256"
    using itoa_text_short [of "ucast b"] itoa_text_short [of "ucast d"] itoa_text_short [of "ucast f"]
    by (simp add: fmt_text_def args_of_def ch_def del: signed_ucast_eq)
qed (simp_all add: ch_def)

lemma exceeded_prints:
  assumes "con_ok c"
  shows "\<exists>c'. kprint (''Error: Exceeded maximum number of PCI devices (%d).'' @ [CHR 0x0A]) [128] c = Some c' \<and>
    con_ok c' \<and> printed c (fmt_text (''Error: Exceeded maximum number of PCI devices (%d).'' @ [CHR 0x0A]) [128]) c'"
proof (rule kprint_bytes [OF assms, of _ _ "[128]"])
  show "length (fmt_text (''Error: Exceeded maximum number of PCI devices (%d).'' @ [CHR 0x0A]) [128]) < 256"
    using itoa_text_short [of 128] by (simp add: fmt_text_def args_of_def ch_def)
qed (simp_all add: ch_def)

lemma ucast_low_half: "(ucast (v AND 0xFFFF) :: u16) = ucast (v :: u32)"
proof -
  have "(0xFFFF :: u32) = mask 16" by (simp add: mask_eq_exp_minus_1)
  then have "v AND 0xFFFF = take_bit 16 v" by (simp only: take_bit_eq_mask)
  then show ?thesis by (simp only:) (rule bit_word_eqI, auto simp: bit_simps)
qed

text \<open>
  A function that answers is recorded while there is room; the loop is left only at a function
  that answers when there is none.
\<close>

text \<open>The state after an entry has been stored, whatever is printed afterwards.\<close>

lemma pci_inv_grow:
  assumes inv: "pci_inv cfg p c0 s" and room: "pc_count s < 128" and h: "pci_bus cfg h"
    and out: "\<And>a. \<not> in_rng (entry_ptr p (pc_count s)) 12 a \<Longrightarrow> m a = con_mem (pc_con s) a"
    and e: "entry_ok cfg (device_at m (entry_ptr p (pc_count s)))"
    and pr: "printed ((pc_con s)\<lparr>con_mem := m\<rparr>) t c"
  shows "pci_inv cfg p c0 (s\<lparr>pc_hw := h, pc_con := c, pc_count := pc_count s + 1\<rparr>)"
proof -
  let ?c = "(pc_con s)\<lparr>con_mem := m\<rparr>"
  have ok: "con_ok ?c" and fr: "pci_frame p c0 (pc_con s)" and ptr: "pc_ptr s = p"
    using inv by (simp_all add: pci_inv_def con_ok_def)
  have f1: "pci_frame p c0 ?c" by (rule pci_frame_entry [OF fr room out])
  have "entry_ok cfg (device_at (con_mem c) (entry_ptr p i))" if "array_apart p c0" "i < pc_count s + 1" for i
  proof -
    have "device_at (con_mem c) (entry_ptr p i) = device_at m (entry_ptr p i)"
      using entries_printed [OF pr f1 that(1)] that(2) room by simp
    moreover have "i < pc_count s \<Longrightarrow> device_at m (entry_ptr p i) = device_at (con_mem (pc_con s)) (entry_ptr p i)"
      by (rule entries_keep [OF _ room out])
    ultimately show ?thesis using that e inv by (auto simp: pci_inv_def less_Suc_eq)
  qed
  then show ?thesis
    using printed_ok [OF pr ok] pci_frame_printed [OF f1 pr] h ptr room by (simp add: pci_inv_def)
qed

lemma enum_function_step:
  assumes "pci_inv cfg p c0 s" and "d < 32" and "f < 8"
  shows "\<exists>brk s'. enum_function b d f s = Some (brk, s') \<and> pci_inv cfg p c0 s' \<and>
    pc_count s' = (if answers cfg b d f then min 128 (pc_count s + 1) else pc_count s) \<and>
    (brk \<longrightarrow> pc_count s = 128)"
proof -
  let ?a = "config_address b d f" and ?h = "pc_hw s"
  obtain v h1 where r1: "pci_read_config_data (pci_write_config_address ?a ?h) = (v, h1)" by fastforce
  obtain w h2 where r2: "pci_read_config_data h1 = (w, h2)" by fastforce
  have bus: "pci_bus cfg ?h" and con: "con_ok (pc_con s)" and cnt: "pc_count s \<le> 128" and ptr: "pc_ptr s = p"
    using assms(1) by (simp_all add: pci_inv_def)
  have v: "v = cfg ?a" and w: "w = cfg ?a" using config_read [OF bus, of ?a] r1 r2 by simp_all
  have b1: "pci_bus cfg h1" using bus config_bus r1 by (metis snd_conv)
  then have b2: "pci_bus cfg h2" using config_bus(1) r2 by (metis snd_conv)
  show ?thesis
  proof (cases "answers cfg b d f")
    case False
    then have "enum_function b d f s = Some (False, s\<lparr>pc_hw := h1\<rparr>)"
      using r1 v by (auto simp: enum_function_def answers_def Let_def)
    then show ?thesis using False b1 assms(1) by (auto simp: pci_inv_def)
  next
    case True
    note rec = enum_function_def answers_def Let_def pc_store_def
    let ?m = "con_mem (pc_con s)" and ?e = "entry_ptr p (pc_count s)"
    let ?m1 = "store_device ?m ?e b d f (ucast (v AND 0xFFFF)) (ucast (drop_bit 16 v AND 0xFFFF))"
    let ?m2 = "if v \<noteq> 0 then store32 ?m1 (?e + 8) v else ?m1"
    have e: "entry_ok cfg (device_at ?m2 ?e)"
      using True assms(2,3) v
      by (simp add: entry_ok_def Let_def ucast_low_half device_at_port device_at_stored)
    have out: "?m2 a = ?m a" if "\<not> in_rng ?e 12 a" for a
      using that by (simp add: store_device_outside port_outside)
    note grow = pci_inv_grow [OF assms(1) _ b2 out e]
    consider "pc_count s = 128" | "pc_count s < 128" "v \<noteq> 0" | "pc_count s < 128" "v = 0"
      using cnt by fastforce
    then show ?thesis
    proof cases
      case 1
      obtain c where c: "kprint (''Error: Exceeded maximum number of PCI devices (%d).'' @ [CHR 0x0A])
          [128] (pc_con s) = Some c" "con_ok c" and pr: "printed (pc_con s)
          (fmt_text (''Error: Exceeded maximum number of PCI devices (%d).'' @ [CHR 0x0A]) [128]) c"
        using exceeded_prints [OF con] by blast
      have "enum_function b d f s = Some (True, s\<lparr>pc_hw := h1, pc_con := c\<rparr>)"
        using r1 v True 1 c(1) by (simp add: rec MAX_PCI_DEVICES_def del: append_Cons append_Nil)
      moreover have "pci_inv cfg p c0 (s\<lparr>pc_hw := h1, pc_con := c\<rparr>)"
        using assms(1) b1 c(2) 1 pci_frame_printed [OF _ pr] entries_printed [OF pr]
        by (auto simp: pci_inv_def)
      ultimately show ?thesis using 1 True by auto
    next
      case 2
      then have "enum_function b d f s = Some (False, s\<lparr>pc_hw := h2, pc_con := (pc_con s)\<lparr>con_mem := ?m2\<rparr>,
          pc_count := pc_count s + 1\<rparr>)"
        using r1 r2 v w True ptr by (simp add: rec MAX_PCI_DEVICES_def)
      then show ?thesis using 2 True grow [of "[]"] by auto
    next
      case 3
      have "con_ok ((pc_con s)\<lparr>con_mem := ?m1\<rparr>)" using con by (simp add: con_ok_def)
      from warning_prints [OF this, of b d f]
      obtain c where c: "kprint (''Warning: Base address for device %d:%d:%d is invalid.'' @ [CHR 0x0A])
          [ucast b, ucast d, ucast f] ((pc_con s)\<lparr>con_mem := ?m1\<rparr>) = Some c"
        and pr: "printed ((pc_con s)\<lparr>con_mem := ?m1\<rparr>)
          (fmt_text (''Warning: Base address for device %d:%d:%d is invalid.'' @ [CHR 0x0A]) [ucast b, ucast d, ucast f]) c"
        by blast
      have "enum_function b d f s = Some (False, s\<lparr>pc_hw := h2, pc_con := c, pc_count := pc_count s + 1\<rparr>)"
        using r1 r2 v w True 3 ptr c by (simp add: rec MAX_PCI_DEVICES_def del: append_Cons append_Nil)
      then show ?thesis using 3 True grow [of _ c] pr by auto
    qed
  qed
qed

section \<open>One bus\<close>

definition functions_from :: "(u32 \<Rightarrow> u32) \<Rightarrow> u8 \<Rightarrow> u8 \<Rightarrow> u8 \<Rightarrow> u8 set" where
  "functions_from cfg b d f = {g. f \<le> g \<and> g < 8 \<and> answers cfg b d g}"

definition devices_from :: "(u32 \<Rightarrow> u32) \<Rightarrow> u8 \<Rightarrow> u8 \<Rightarrow> (u8 \<times> u8) set" where
  "devices_from cfg b d = {(e, g). d \<le> e \<and> e < 32 \<and> g < 8 \<and> answers cfg b e g}"

lemma le_Suc_iff: "i < n \<Longrightarrow> i \<le> k \<longleftrightarrow> k = i \<or> i + 1 \<le> (k :: 'a::len word)"
  using unat_Suc_less [of i n] by (auto simp: word_le_nat_alt word_unat_eq_iff)

lemma functions_from_step:
  assumes "f < 8"
  shows "card (functions_from cfg b d f) =
    (if answers cfg b d f then 1 else 0) + card (functions_from cfg b d (f + 1))"
proof -
  have "functions_from cfg b d f =
      (if answers cfg b d f then {f} else {}) \<union> functions_from cfg b d (f + 1)"
    using assms le_Suc_iff [OF assms] by (auto simp: functions_from_def)
  moreover have "f \<notin> functions_from cfg b d (f + 1)"
    using unat_Suc_less [OF assms] by (simp add: functions_from_def word_le_nat_alt)
  ultimately show ?thesis by (simp add: card_insert_if)
qed

lemma devices_from_step:
  assumes "d < 32"
  shows "card (devices_from cfg b d) =
    card (functions_from cfg b d 0) + card (devices_from cfg b (d + 1))"
proof -
  have "devices_from cfg b d = Pair d ` functions_from cfg b d 0 \<union> devices_from cfg b (d + 1)"
    using assms le_Suc_iff [OF assms] by (auto simp: devices_from_def functions_from_def)
  moreover have "Pair d ` functions_from cfg b d 0 \<inter> devices_from cfg b (d + 1) = {}"
    using unat_Suc_less [OF assms] by (auto simp: devices_from_def word_le_nat_alt)
  moreover have "card (Pair d ` functions_from cfg b d 0) = card (functions_from cfg b d 0)"
    by (rule card_image) (simp add: inj_on_def)
  ultimately show ?thesis by (simp add: card_Un_disjoint)
qed

text \<open>\<open>grown cfg p c0 s n s'\<close>: the invariant, the old entries, and \<open>n\<close> new entries as far as there is room.\<close>

definition grown :: "(u32 \<Rightarrow> u32) \<Rightarrow> u32 \<Rightarrow> console \<Rightarrow> pci_sys \<Rightarrow> nat \<Rightarrow> pci_sys \<Rightarrow> bool" where
  "grown cfg p c0 s n s' \<longleftrightarrow> pci_inv cfg p c0 s' \<and> pc_count s' = min 128 (pc_count s + n)"

lemma grown_trans: "grown cfg p c0 s n s1 \<Longrightarrow> grown cfg p c0 s1 k s2 \<Longrightarrow> grown cfg p c0 s (n + k) s2"
  by (auto simp: grown_def)

lemma enum_functions_grown:
  assumes "f \<le> 8" and "pci_inv cfg p c0 s" and "d < 32"
  shows "\<exists>s'. enum_functions b d f s = Some s' \<and> grown cfg p c0 s (card (functions_from cfg b d f)) s'"
  using assms(1,2)
proof (induction arbitrary: s rule: count_induct)
  case stop
  have "functions_from cfg b d 8 = {}" by (auto simp: functions_from_def)
  then show ?case using stop
    by (auto simp: enum_functions.simps [of b d 8 s] grown_def pci_inv_def)
next
  case (step f)
  from enum_function_step [OF step(3) assms(3) step(1), of b]
  obtain brk s1 where s1: "enum_function b d f s = Some (brk, s1)" "pci_inv cfg p c0 s1"
    "pc_count s1 = (if answers cfg b d f then min 128 (pc_count s + 1) else pc_count s)"
    "brk \<longrightarrow> pc_count s = 128" by blast
  have g1: "grown cfg p c0 s (if answers cfg b d f then 1 else 0) s1"
    using s1(2,3) step(3) by (simp add: grown_def pci_inv_def)
  show ?case
  proof (cases brk)
    case True
    then show ?thesis using s1 step(1)
      by (auto simp: enum_functions.simps [of b d f s] grown_def)
  next
    case False
    from step(2) [OF s1(2)] obtain s2 where s2: "enum_functions b d (f + 1) s1 = Some s2"
      "grown cfg p c0 s1 (card (functions_from cfg b d (f + 1))) s2" by blast
    have "grown cfg p c0 s (card (functions_from cfg b d f)) s2"
      unfolding functions_from_step [OF step(1)] by (rule grown_trans [OF g1 s2(2)])
    then show ?thesis using s1(1) s2(1) False step(1)
      by (simp add: enum_functions.simps [of b d f s])
  qed
qed

lemma enum_devices_grown:
  assumes "d \<le> 32" and "pci_inv cfg p c0 s"
  shows "\<exists>s'. enum_devices b d s = Some s' \<and> grown cfg p c0 s (card (devices_from cfg b d)) s'"
  using assms
proof (induction arbitrary: s rule: count_induct)
  case stop
  have "devices_from cfg b 32 = {}" by (auto simp: devices_from_def)
  then show ?case using stop by (auto simp: enum_devices.simps [of b 32 s] grown_def pci_inv_def)
next
  case (step d)
  obtain s1 where s1: "enum_functions b d 0 s = Some s1"
    "grown cfg p c0 s (card (functions_from cfg b d 0)) s1"
    using enum_functions_grown [OF _ step(3) step(1), of 0 b] by auto
  have "pci_inv cfg p c0 s1" using s1(2) by (simp add: grown_def)
  from step(2) [OF this] obtain s2 where s2: "enum_devices b (d + 1) s1 = Some s2"
    "grown cfg p c0 s1 (card (devices_from cfg b (d + 1))) s2" by blast
  have "grown cfg p c0 s (card (devices_from cfg b d)) s2"
    unfolding devices_from_step [OF step(1)] by (rule grown_trans [OF s1(2) s2(2)])
  then show ?case using s1(1) s2(1) step(1) by (simp add: enum_devices.simps [of b d s])
qed

section \<open>The enumeration\<close>

text \<open>With no device on any bus it does not return.\<close>

lemma enum_buses_diverges:
  assumes "\<forall>b. devices_from cfg b 0 = {}" and "pci_inv cfg p c0 s" and "pc_count s < 128"
  shows "enum_buses b s = None"
proof (rule ccontr)
  assume "enum_buses b s \<noteq> None"
  then obtain r where r: "enum_buses b s = Some r" by auto
  have "\<not> (pci_inv cfg p c0 s \<and> pc_count s < 128)"
  proof (rule enum_buses.raw_induct [where P = "\<lambda>b s r. \<not> (pci_inv cfg p c0 s \<and> pc_count s < 128)", OF _ r])
    fix rec b s r
    assume IH: "\<And>b s r. rec b s = Some r \<Longrightarrow> \<not> (pci_inv cfg p c0 s \<and> pc_count s < 128)"
      and run: "(if unat b < 256 then
         if unat b = 256 then do {
           c \<leftarrow> kprint (''Bus enumeration finished.'' @ [CHR 0x0A]) [] (pc_con s);
           Some (s\<lparr>pc_con := c\<rparr>) }
         else do { s1 \<leftarrow> enum_devices b 0 s;
           if MAX_PCI_DEVICES \<le> pc_count s1 then Some s1 else rec (b + 1) s1 }
       else Some s) = Some r"
    show "\<not> (pci_inv cfg p c0 s \<and> pc_count s < 128)"
    proof
      assume s: "pci_inv cfg p c0 s \<and> pc_count s < 128"
      then obtain s1 where s1: "enum_devices b 0 s = Some s1" "grown cfg p c0 s 0 s1"
        using enum_devices_grown [of 0 cfg p c0 s b] assms(1) by auto
      then have "rec (b + 1) s1 = Some r"
        using run s unat8_less [of b] by (simp add: MAX_PCI_DEVICES_def grown_def)
      from IH [OF this] show False using s s1(2) by (simp add: grown_def)
    qed
  qed
  then show False using assms(2,3) by blast
qed

text \<open>With a device on some bus it returns with 128 entries, however few devices there are.\<close>

lemma enum_buses_full:
  assumes "devices_from cfg b0 0 \<noteq> {}" and "pci_inv cfg p c0 s" and "pc_count s < 128"
  shows "\<exists>s'. enum_buses b s = Some s' \<and> pci_inv cfg p c0 s' \<and> pc_count s' = 128"
  using assms(2,3)
proof (induction "(128 - pc_count s) * 256 + unat (b0 - b)" arbitrary: b s rule: less_induct)
  case less
  obtain s1 where s1: "enum_devices b 0 s = Some s1" "grown cfg p c0 s (card (devices_from cfg b 0)) s1"
    using enum_devices_grown [of 0 cfg p c0 s b] less.prems by auto
  have step: "enum_buses b s = (if 128 \<le> pc_count s1 then Some s1 else enum_buses (b + 1) s1)"
    using s1(1) unat8_less [of b] by (subst enum_buses.simps) (simp add: MAX_PCI_DEVICES_def)
  show ?case
  proof (cases "128 \<le> pc_count s1")
    case True
    then show ?thesis using step s1(2) by (auto simp: grown_def)
  next
    case False
    have "pc_count s < pc_count s1 \<or> pc_count s = pc_count s1 \<and> b \<noteq> b0"
      using s1(2) False assms(1) finite [of "devices_from cfg b0 0"]
      by (cases "b = b0") (auto simp: grown_def card_gt_0_iff)
    moreover have "unat (b0 - (b + 1)) < unat (b0 - b)" if "b \<noteq> b0"
    proof -
      have "b0 - b \<noteq> 0" using that by simp
      then have "unat (b0 - b - 1) < unat (b0 - b)"
        by (simp add: unat_minus_one unat_gt_0)
      then show ?thesis by (simp add: diff_diff_add)
    qed
    ultimately have "(128 - pc_count s1) * 256 + unat (b0 - (b + 1)) <
        (128 - pc_count s) * 256 + unat (b0 - b)"
      using False unat8_less [of "b0 - (b + 1)"] by auto
    from less.hyps [OF this] show ?thesis using step False s1(2) by (simp add: grown_def)
  qed
qed

definition present :: "(u32 \<Rightarrow> u32) \<Rightarrow> (u8 \<times> u8 \<times> u8) set" where
  "present cfg = {(b, d, f). d < 32 \<and> f < 8 \<and> answers cfg b d f}"

lemma present_devices: "present cfg = {} \<longleftrightarrow> (\<forall>b. devices_from cfg b 0 = {})"
  by (auto simp: present_def devices_from_def)

lemma fixed_messages:
  assumes "con_ok c"
  shows "\<exists>c'. kprint (''Starting PCI enumeration...'' @ [CHR 0x0A]) [] c = Some c' \<and> con_ok c' \<and>
      printed c (lit (''Starting PCI enumeration...'' @ [CHR 0x0A])) c'"
    and "\<exists>c'. kprint (''PCI enumeration finished. %d devices found.'' @ [CHR 0x0A]) [128] c = Some c' \<and> con_ok c' \<and>
      printed c (fmt_text (''PCI enumeration finished. %d devices found.'' @ [CHR 0x0A]) [128]) c'"
proof -
  show "\<exists>c'. kprint (''Starting PCI enumeration...'' @ [CHR 0x0A]) [] c = Some c' \<and> con_ok c' \<and>
      printed c (lit (''Starting PCI enumeration...'' @ [CHR 0x0A])) c'"
    using kprint_message [OF assms, of "''Starting PCI enumeration...'' @ [CHR 0x0A]"]
    by (simp add: message_def ch_def) blast
  show "\<exists>c'. kprint (''PCI enumeration finished. %d devices found.'' @ [CHR 0x0A]) [128] c = Some c' \<and> con_ok c' \<and>
      printed c (fmt_text (''PCI enumeration finished. %d devices found.'' @ [CHR 0x0A]) [128]) c'"
  proof (rule kprint_bytes [OF assms, of _ _ "[128]"])
    show "length (fmt_text (''PCI enumeration finished. %d devices found.'' @ [CHR 0x0A]) [128]) < 256"
      using itoa_text_short [of 128] by (simp add: fmt_text_def args_of_def ch_def)
  qed (simp_all add: ch_def)
qed

lemma pci_inv_start:
  assumes "con_ok c" and "pci_bus cfg h" and "printed c0 t c"
  shows "pci_inv cfg p c0 \<lparr>pc_hw = h, pc_con = c, pc_ptr = p, pc_count = 0\<rparr>"
  using assms pci_frame_printed [of p c0 c0, OF _ assms(3)] by (simp add: pci_inv_def pci_frame_def)

text \<open>The result: 128 entries in the block, each good, with only the block and \<open>printk\<close>'s buffers changed.\<close>

lemma pci_enumerate_full:
  assumes "con_ok c" and "pci_bus cfg h" and "malloc (128 * 12) hp = (p, hp1)" and "p \<noteq> NULL"
    and "present cfg \<noteq> {}"
  shows "\<exists>h' c'. pci_enumerate_devices h c hp = Some (\<lparr>pl_ptr = p, pl_length = 128\<rparr>, h', c', hp1) \<and>
    (array_apart p c \<longrightarrow> (\<forall>i < 128. entry_ok cfg (device_at (con_mem c') (entry_ptr p i)))) \<and>
    con_ok c' \<and> pci_bus cfg h' \<and> pci_frame p c c'"
proof -
  obtain b0 where b0: "devices_from cfg b0 0 \<noteq> {}" using assms(5) present_devices by blast
  obtain c1 where c1: "kprint (''Starting PCI enumeration...'' @ [CHR 0x0A]) [] c = Some c1" "con_ok c1"
    and pr1: "printed c (lit (''Starting PCI enumeration...'' @ [CHR 0x0A])) c1"
    using fixed_messages(1) [OF assms(1)] by blast
  let ?s = "\<lparr>pc_hw = h, pc_con = c1, pc_ptr = p, pc_count = 0\<rparr>"
  have "pci_inv cfg p c ?s" using pci_inv_start [OF c1(2) assms(2) pr1] .
  from enum_buses_full [OF b0 this, of 0] obtain s where s: "enum_buses 0 ?s = Some s"
    "pci_inv cfg p c s" "pc_count s = 128" by auto
  obtain c2 where c2: "kprint (''PCI enumeration finished. %d devices found.'' @ [CHR 0x0A]) [128] (pc_con s) = Some c2"
    "con_ok c2" and pr2: "printed (pc_con s)
      (fmt_text (''PCI enumeration finished. %d devices found.'' @ [CHR 0x0A]) [128]) c2"
    using fixed_messages(2) s(2) unfolding pci_inv_def by blast
  have "pci_enumerate_devices h c hp = Some (\<lparr>pl_ptr = p, pl_length = 128\<rparr>, pc_hw s, c2, hp1)"
    using assms(3,4) c1(1) s(1,3) c2(1)
    by (simp add: pci_enumerate_devices_def del: append_Cons append_Nil)
  moreover have fr: "pci_frame p c (pc_con s)" using s(2) by (simp add: pci_inv_def)
  moreover have "entry_ok cfg (device_at (con_mem c2) (entry_ptr p i))" if "array_apart p c" "i < 128" for i
    using entries_printed [OF pr2 fr that] s(2,3) that by (simp add: pci_inv_def)
  ultimately show ?thesis using pci_frame_printed [OF fr pr2] s(2) c2(2) by (auto simp: pci_inv_def)
qed

lemma pci_enumerate_diverges:
  assumes "con_ok c" and "pci_bus cfg h" and "fst (malloc (128 * 12) hp) \<noteq> NULL"
    and "present cfg = {}"
  shows "pci_enumerate_devices h c hp = None"
proof -
  obtain p hp1 where m: "malloc (128 * 12) hp = (p, hp1)" by fastforce
  obtain c1 where c1: "kprint (''Starting PCI enumeration...'' @ [CHR 0x0A]) [] c = Some c1" "con_ok c1"
    and pr1: "printed c (lit (''Starting PCI enumeration...'' @ [CHR 0x0A])) c1"
    using fixed_messages(1) [OF assms(1)] by blast
  have "enum_buses 0 \<lparr>pc_hw = h, pc_con = c1, pc_ptr = p, pc_count = 0\<rparr> = None"
    using assms(4) present_devices pci_inv_start [OF c1(2) assms(2) pr1]
    by (intro enum_buses_diverges [of cfg p c]) auto
  then show ?thesis using m assms(3) c1(1)
    by (simp add: pci_enumerate_devices_def del: append_Cons append_Nil)
qed

text \<open>A list of 128 entries of fewer than 128 devices names one of them twice.\<close>

lemma pci_duplicates:
  assumes "\<forall>i < 128 :: nat. entry_ok cfg (e i)" and "card (present cfg) < 128"
  shows "\<exists>i j. i < j \<and> j < 128 \<and> pd_bus (e i) = pd_bus (e j) \<and> pd_device (e i) = pd_device (e j) \<and>
    pd_function (e i) = pd_function (e j)"
proof -
  define key where "key i = (pd_bus (e i), pd_device (e i), pd_function (e i))" for i :: nat
  have "key ` {..<128} \<subseteq> present cfg" using assms(1) by (auto simp: entry_ok_def present_def key_def)
  then have "card (key ` {..<128}) \<le> card (present cfg)" by (intro card_mono) simp_all
  then have "\<not> inj_on key {..<128}" using assms(2) card_image [of key "{..<128}"] by auto
  then obtain i j where ij: "i < 128" "j < 128" "i \<noteq> j" "key i = key j"
    by (auto simp: inj_on_def)
  show ?thesis
  proof (cases "i < j")
    case True
    then show ?thesis using ij by (intro exI [of _ i] exI [of _ j]) (simp add: key_def)
  next
    case False
    then show ?thesis using ij by (intro exI [of _ j] exI [of _ i]) (simp add: key_def)
  qed
qed

end
