(* ===== verification/Disk.thy ===== *)
theory Disk
  imports Hardware Printk CStructs
begin

text \<open>
  The AHCI driver of \<open>libs/Drivers/disk.c\<close>: device types, probing, the layout of a port's command
  memory, starting and stopping the engine, command slots, and \<open>read\<close>. A port's registers are
  volatile accesses at its address; the command list, the command tables and the received FIS
  lie in the kernel's memory.
\<close>

section \<open>Registers and structures\<close>

text \<open>Offsets of the members of \<open>HBA_PORT\<close>, and of \<open>pi\<close> and \<open>ports\<close> in \<open>HBA_MEM\<close>.\<close>

definition off_clb :: u32 where "off_clb = of_nat (offsetof HBA_PORT ''clb'')"
definition off_clbu :: u32 where "off_clbu = of_nat (offsetof HBA_PORT ''clbu'')"
definition off_fb :: u32 where "off_fb = of_nat (offsetof HBA_PORT ''fb'')"
definition off_fbu :: u32 where "off_fbu = of_nat (offsetof HBA_PORT ''fbu'')"
definition off_is :: u32 where "off_is = of_nat (offsetof HBA_PORT ''is'')"
definition off_cmd :: u32 where "off_cmd = of_nat (offsetof HBA_PORT ''cmd'')"
definition off_tfd :: u32 where "off_tfd = of_nat (offsetof HBA_PORT ''tfd'')"
definition off_sig :: u32 where "off_sig = of_nat (offsetof HBA_PORT ''sig'')"
definition off_ssts :: u32 where "off_ssts = of_nat (offsetof HBA_PORT ''ssts'')"
definition off_sact :: u32 where "off_sact = of_nat (offsetof HBA_PORT ''sact'')"
definition off_ci :: u32 where "off_ci = of_nat (offsetof HBA_PORT ''ci'')"

lemma port_offsets:
  "off_clb = 0x00" "off_clbu = 0x04" "off_fb = 0x08" "off_fbu = 0x0C" "off_is = 0x10" "off_cmd = 0x18"
  "off_tfd = 0x20" "off_sig = 0x24" "off_ssts = 0x28" "off_sact = 0x34" "off_ci = 0x38"
  by (simp_all add: port_members off_clb_def off_clbu_def off_fb_def off_fbu_def off_is_def off_cmd_def off_tfd_def off_sig_def
      off_ssts_def off_sact_def off_ci_def)

definition HBA_PORT_SIZE :: u32 where "HBA_PORT_SIZE = of_nat (sizeof HBA_PORT)"
definition off_pi :: u32 where "off_pi = of_nat (offsetof HBA_MEM ''pi'')"
definition off_ports :: u32 where "off_ports = of_nat (offsetof HBA_MEM ''ports'')"

lemma port_size: "HBA_PORT_SIZE = 0x80"
  by (simp add: HBA_PORT_SIZE_def struct_sizes)

text \<open>\<open>HBA_CMD_HEADER\<close> (32 bytes), \<open>HBA_CMD_TBL\<close> and \<open>HBA_PRDT_ENTRY\<close> (16 bytes) in memory.\<close>

definition set_cfl :: "u8 \<Rightarrow> u32 \<Rightarrow> mem \<Rightarrow> mem" where
  "set_cfl v hdr m = m(hdr := (m hdr AND 0xE0) OR (v AND 0x1F))"

definition clear_w :: "u32 \<Rightarrow> mem \<Rightarrow> mem" where
  "clear_w hdr m = m(hdr := m hdr AND 0xBF)"

definition set_prdtl :: "u16 \<Rightarrow> u32 \<Rightarrow> mem \<Rightarrow> mem" where
  "set_prdtl v hdr m = store16 m (hdr + 2) v"

definition get_prdtl :: "mem \<Rightarrow> u32 \<Rightarrow> u16" where "get_prdtl m hdr = load16 m (hdr + 2)"
definition set_ctba :: "u32 \<Rightarrow> u32 \<Rightarrow> mem \<Rightarrow> mem" where "set_ctba v hdr m = store32 m (hdr + 8) v"
definition get_ctba :: "mem \<Rightarrow> u32 \<Rightarrow> u32" where "get_ctba m hdr = load32 m (hdr + 8)"
definition set_ctbau :: "u32 \<Rightarrow> u32 \<Rightarrow> mem \<Rightarrow> mem" where "set_ctbau v hdr m = store32 m (hdr + 12) v"

definition prdt_entry :: "u32 \<Rightarrow> u32 \<Rightarrow> u32" where
  "prdt_entry tbl i = tbl + 0x80 + 16 * i"

definition set_dba :: "u32 \<Rightarrow> u32 \<Rightarrow> mem \<Rightarrow> mem" where "set_dba v e m = store32 m e v"

definition set_dbc :: "u32 \<Rightarrow> u32 \<Rightarrow> mem \<Rightarrow> mem" where
  "set_dbc v e m = store32 m (e + 12) ((load32 m (e + 12) AND 0xFFC00000) OR (v AND 0x3FFFFF))"

definition set_i :: "u32 \<Rightarrow> mem \<Rightarrow> mem" where
  "set_i e m = store32 m (e + 12) (load32 m (e + 12) OR 0x80000000)"

text \<open>The accessors use the places that the declarations give the members.\<close>

lemma accessors:
  "set_prdtl v hdr m = store16 m (hdr + of_nat (offsetof HBA_CMD_HEADER ''prdtl'')) v"
  "set_ctba x hdr m = store32 m (hdr + of_nat (offsetof HBA_CMD_HEADER ''ctba'')) x"
  "set_ctbau x hdr m = store32 m (hdr + of_nat (offsetof HBA_CMD_HEADER ''ctbau'')) x"
  "prdt_entry tbl i = tbl + of_nat (offsetof HBA_CMD_TBL ''prdt_entry'') + of_nat (sizeof HBA_PRDT_ENTRY) * i"
  "set_dba x e m = store32 m (e + of_nat (offsetof HBA_PRDT_ENTRY ''dba'')) x"
  by (simp_all add: set_prdtl_def set_ctba_def set_ctbau_def prdt_entry_def set_dba_def command_members struct_sizes)

section \<open>Device types\<close>

definition check_type :: "u32 \<Rightarrow> hw \<Rightarrow> s32 \<times> hw" where
  "check_type p h =
     (case reg_read (p + off_ssts) h of (ssts, h1) \<Rightarrow>
        let ipm = ucast (drop_bit 8 ssts AND 0x0F) :: u8;
            det = ucast (ssts AND 0x0F) :: u8
        in if det \<noteq> 3 then (0, h1)
           else if ipm \<noteq> 1 then (0, h1)
           else case reg_read (p + off_sig) h1 of (sig, h2) \<Rightarrow>
             (if sig = 0xEB140101 then 4 else if sig = 0xC33C0101 then 2
              else if sig = 0x96690101 then 3 else 1, h2))"

definition type_message :: "s32 \<Rightarrow> string" where
  "type_message dt =
     (if dt = 1 then ''SATA drive found at port %d''
      else if dt = 4 then ''SATAPI drive found at port %d''
      else if dt = 2 then ''SEMB drive found at port %d''
      else if dt = 3 then ''PM drive found at port %d''
      else ''No drive found at port %d'') @ [CHR 0x0A]"

function probe_loop :: "u32 \<Rightarrow> u32 \<Rightarrow> u32 \<Rightarrow> hw \<Rightarrow> console \<Rightarrow> (hw \<times> console) option" where
  "probe_loop abar pi i h c =
     (if i < 32 then
        if pi AND 1 \<noteq> 0 then
          case check_type (abar + off_ports + i * HBA_PORT_SIZE) h of (dt, h1) \<Rightarrow>
            do { c1 \<leftarrow> kprint (type_message dt) [i] c; probe_loop abar (drop_bit 1 pi) (i + 1) h1 c1 }
        else probe_loop abar (drop_bit 1 pi) (i + 1) h c
      else Some (h, c))"
  by pat_completeness auto
termination
  by (relation "measure (\<lambda>(a, p, i, h, c). unat (32 :: u32) - unat i)") (auto dest: count_measure)

declare probe_loop.simps [simp del]

definition probe_port :: "u32 \<Rightarrow> hw \<Rightarrow> console \<Rightarrow> (hw \<times> console) option" where
  "probe_port abar h c =
     (case reg_read (abar + off_pi) h of (pi, h1) \<Rightarrow> probe_loop abar pi 0 h1 c)"

section \<open>The command engine\<close>

definition HBA_PxCMD_ST :: u32 where "HBA_PxCMD_ST = 0x0001"
definition HBA_PxCMD_FRE :: u32 where "HBA_PxCMD_FRE = 0x0010"
definition HBA_PxCMD_FR :: u32 where "HBA_PxCMD_FR = 0x4000"
definition HBA_PxCMD_CR :: u32 where "HBA_PxCMD_CR = 0x8000"

text \<open>\<open>port->cmd op= v\<close>: a read of the register, then a write.\<close>

definition cmd_or :: "u32 \<Rightarrow> u32 \<Rightarrow> hw \<Rightarrow> hw" where
  "cmd_or p v h = (case reg_read (p + off_cmd) h of (x, h1) \<Rightarrow> reg_write (p + off_cmd) (x OR v) h1)"

definition cmd_and :: "u32 \<Rightarrow> u32 \<Rightarrow> hw \<Rightarrow> hw" where
  "cmd_and p v h = (case reg_read (p + off_cmd) h of (x, h1) \<Rightarrow> reg_write (p + off_cmd) (x AND v) h1)"

partial_function (option) wait_cr :: "u32 \<Rightarrow> hw \<Rightarrow> hw option" where
  "wait_cr p h =
     (if fst (reg_read (p + off_cmd) h) AND HBA_PxCMD_CR \<noteq> 0
      then wait_cr p (snd (reg_read (p + off_cmd) h))
      else Some (snd (reg_read (p + off_cmd) h)))"

definition start_cmd :: "u32 \<Rightarrow> hw \<Rightarrow> hw option" where
  "start_cmd p h = do {
     h1 \<leftarrow> wait_cr p h;
     Some (cmd_or p HBA_PxCMD_ST (cmd_or p HBA_PxCMD_FRE h1))
   }"

text \<open>Each turn reads the register once for FR, and again for CR.\<close>

partial_function (option) wait_stopped :: "u32 \<Rightarrow> hw \<Rightarrow> hw option" where
  "wait_stopped p h =
     (if fst (reg_read (p + off_cmd) h) AND HBA_PxCMD_FR \<noteq> 0
      then wait_stopped p (snd (reg_read (p + off_cmd) h))
      else if fst (reg_read (p + off_cmd) (snd (reg_read (p + off_cmd) h))) AND HBA_PxCMD_CR \<noteq> 0
      then wait_stopped p (snd (reg_read (p + off_cmd) (snd (reg_read (p + off_cmd) h))))
      else Some (snd (reg_read (p + off_cmd) (snd (reg_read (p + off_cmd) h)))))"

definition stop_cmd :: "u32 \<Rightarrow> hw \<Rightarrow> hw option" where
  "stop_cmd p h =
     wait_stopped p (cmd_and p (NOT HBA_PxCMD_FRE) (cmd_and p (NOT HBA_PxCMD_ST) h))"

section \<open>The memory of a port\<close>

definition AHCI_BASE :: u32 where "AHCI_BASE = 0x400000"

definition clb_addr :: "u32 \<Rightarrow> u32" where "clb_addr portno = AHCI_BASE + push_bit 10 portno"
definition fb_addr :: "u32 \<Rightarrow> u32" where "fb_addr portno = AHCI_BASE + push_bit 10 32 + push_bit 8 portno"
definition ctba_addr :: "u32 \<Rightarrow> u32 \<Rightarrow> u32" where
  "ctba_addr portno i = AHCI_BASE + push_bit 10 40 + push_bit 13 portno + push_bit 8 i"

function rebase_loop :: "u32 \<Rightarrow> u32 \<Rightarrow> u32 \<Rightarrow> mem \<Rightarrow> mem" where
  "rebase_loop cmdheader portno i m =
     (if i < 32 then
        let hdr = cmdheader + 32 * i;
            m1 = set_ctbau 0 hdr (set_ctba (ctba_addr portno i) hdr (set_prdtl 8 hdr m))
        in rebase_loop cmdheader portno (i + 1) (snd (memset m1 (get_ctba m1 hdr) 0 256))
      else m)"
  by pat_completeness auto
termination
  by (relation "measure (\<lambda>(c, p, i, m). unat (32 :: u32) - unat i)") (auto dest: count_measure)

declare rebase_loop.simps [simp del]

definition port_rebase :: "u32 \<Rightarrow> u32 \<Rightarrow> hw \<Rightarrow> mem \<Rightarrow> (hw \<times> mem) option" where
  "port_rebase p portno h m = do {
     h1 \<leftarrow> stop_cmd p h;
     let h2 = reg_write (p + off_clbu) 0 (reg_write (p + off_clb) (clb_addr portno) h1);
     let (clb, h3) = reg_read (p + off_clb) h2;
     let m1 = snd (memset m clb 0 1024);
     let h4 = reg_write (p + off_fbu) 0 (reg_write (p + off_fb) (fb_addr portno) h3);
     let (fb, h5) = reg_read (p + off_fb) h4;
     let m2 = snd (memset m1 fb 0 256);
     let (cmdheader, h6) = reg_read (p + off_clb) h5;
     let m3 = rebase_loop cmdheader portno 0 m2;
     h7 \<leftarrow> start_cmd p h6;
     Some (h7, m3)
   }"

section \<open>Command slots\<close>

lemma half_less:
  assumes "i < (s :: u32)"
  shows "unat (drop_bit 1 s) < unat s"
proof -
  have "0 < unat s" using assms by (simp add: word_less_nat_alt)
  then show ?thesis by (simp add: drop_bit_Suc unat_div)
qed

function slot_loop :: "u32 \<Rightarrow> u32 \<Rightarrow> u32 option" where
  "slot_loop i slots =
     (if i < slots then if slots AND 1 = 0 then Some i else slot_loop (i + 1) (drop_bit 1 slots)
      else None)"
  by pat_completeness auto
termination
  by (relation "measure (\<lambda>(i, s). unat s)") (use half_less in auto)

declare slot_loop.simps [simp del]

text \<open>The result is an \<open>int\<close>: -1 for no slot.\<close>

definition find_cmdslot :: "u32 \<Rightarrow> hw \<Rightarrow> console \<Rightarrow> (s32 \<times> hw \<times> console) option" where
  "find_cmdslot p h c =
     (case reg_read (p + off_sact) h of (sact, h1) \<Rightarrow>
      case reg_read (p + off_ci) h1 of (ci, h2) \<Rightarrow>
        case slot_loop 0 (sact OR ci) of
          Some i \<Rightarrow> Some (i, h2, c)
        | None \<Rightarrow> do {
            c1 \<leftarrow> kprint (''Cannot find free command list entry'' @ [CHR 0x0A]) [] c;
            Some (- 1, h2, c1)
          })"

section \<open>read\<close>

text \<open>
  \<open>for (i<cmdheader->prdtl-1; i++;)\<close>: the bound is in the place of the initialiser, and the
  condition is the old value of \<open>i\<close>.
\<close>

partial_function (option) prdt_loop ::
    "u32 \<Rightarrow> u32 \<Rightarrow> u32 \<Rightarrow> u32 \<Rightarrow> mem \<Rightarrow> (u32 \<times> u32 \<times> u32 \<times> mem) option" where
  "prdt_loop tbl i buf count m =
     (if i \<noteq> 0 then
        prdt_loop tbl (i + 1) (buf + 2 * (4 * 1024)) (count - 16)
          (set_i (prdt_entry tbl (i + 1))
            (set_dbc (8 * 1024 - 1) (prdt_entry tbl (i + 1))
              (set_dba buf (prdt_entry tbl (i + 1)) m)))
      else Some (i + 1, buf, count, m))"

text \<open>The command FIS at \<open>f\<close>.\<close>

definition write_fis :: "u32 \<Rightarrow> u32 \<Rightarrow> u32 \<Rightarrow> u32 \<Rightarrow> mem \<Rightarrow> mem" where
  "write_fis f startl starth count m =
     (let m1 = m(f := 0x27);
          m2 = m1(f + 1 := m1 (f + 1) OR 0x80);
          m3 = m2(f + 2 := 0x25, f + 4 := ucast startl, f + 5 := ucast (drop_bit 8 startl),
                  f + 6 := ucast (drop_bit 16 startl), f + 7 := 0x40,
                  f + 8 := ucast (drop_bit 24 startl), f + 9 := ucast starth,
                  f + 10 := ucast (drop_bit 8 starth))
      in m3(f + 12 := ucast (count AND 0xFF), f + 13 := ucast (drop_bit 8 count AND 0xFF)))"

text \<open>From the slot to the complete command: the header, the table, the PRDT and the FIS.\<close>

definition build_command :: "u32 \<Rightarrow> u32 \<Rightarrow> u32 \<Rightarrow> u32 \<Rightarrow> u32 \<Rightarrow> mem \<Rightarrow> mem option" where
  "build_command hdr startl starth count buf m = do {
     let m1 = clear_w hdr (set_cfl 5 hdr m);
     let m2 = set_prdtl (ucast (drop_bit 4 (count - 1)) + 1) hdr m1;
     let tbl = get_ctba m2 hdr;
     let m3 = snd (memset m2 tbl 0 (0x90 + (ucast (get_prdtl m2 hdr) - 1) * 16));
     (i, buf', count', m4) \<leftarrow> prdt_loop tbl 0 buf count m3;
     let e = prdt_entry tbl i;
     let m5 = set_i e (set_dbc (push_bit 9 count' - 1) e (set_dba buf' e m4));
     Some (write_fis tbl startl starth count' m5)
   }"

function spin_loop :: "u32 \<Rightarrow> u32 \<Rightarrow> hw \<Rightarrow> u32 \<times> hw" where
  "spin_loop p spin h =
     (case reg_read (p + off_tfd) h of (tfd, h1) \<Rightarrow>
        if tfd AND 0x88 \<noteq> 0 \<and> spin < 1000000 then spin_loop p (spin + 1) h1 else (spin, h1))"
  by pat_completeness auto
termination
  by (relation "measure (\<lambda>(p, s, h). unat (1000000 :: u32) - unat s)") (auto dest: count_measure)

declare spin_loop.simps [simp del]

text \<open>The wait for the command: \<open>True\<close> when the slot's bit in CI is clear, \<open>False\<close> on a task file error.\<close>

partial_function (option) wait_done :: "u32 \<Rightarrow> u32 \<Rightarrow> hw \<Rightarrow> (bool \<times> hw) option" where
  "wait_done p b h =
     (if fst (reg_read (p + off_ci) h) AND b = 0 then Some (True, snd (reg_read (p + off_ci) h))
      else if fst (reg_read (p + off_is) (snd (reg_read (p + off_ci) h))) AND 0x40000000 \<noteq> 0
      then Some (False, snd (reg_read (p + off_is) (snd (reg_read (p + off_ci) h))))
      else wait_done p b (snd (reg_read (p + off_is) (snd (reg_read (p + off_ci) h)))))"

text \<open>The memory is the one of the console; printing happens after the command is built.\<close>

definition read_sectors ::
    "u32 \<Rightarrow> u32 \<Rightarrow> u32 \<Rightarrow> u32 \<Rightarrow> u32 \<Rightarrow> hw \<Rightarrow> console \<Rightarrow> (bool \<times> hw \<times> console) option" where
  "read_sectors p startl starth count buf h c = do {
     let h1 = reg_write (p + off_is) (- 1) h;
     (slot, h2, c1) \<leftarrow> find_cmdslot p h1 c;
     if slot = - 1 then Some (False, h2, c1)
     else do {
       let (clb, h3) = reg_read (p + off_clb) h2;
       m \<leftarrow> build_command (clb + 32 * slot) startl starth count buf (con_mem c1);
       let c2 = c1\<lparr>con_mem := m\<rparr>;
       let (spin, h4) = spin_loop p 0 h3;
       if spin = 1000000 then do {
         c3 \<leftarrow> kprint (''Port is hung'' @ [CHR 0x0A]) [] c2;
         Some (False, h4, c3)
       }
       else do {
         let h5 = reg_write (p + off_ci) (push_bit (unat slot) 1) h4;
         (ok, h6) \<leftarrow> wait_done p (push_bit (unat slot) 1) h5;
         if \<not> ok then do {
           c3 \<leftarrow> kprint (''Read disk error'' @ [CHR 0x0A]) [] c2;
           Some (False, h6, c3)
         }
         else do {
           let (is, h7) = reg_read (p + off_is) h6;
           if is AND 0x40000000 \<noteq> 0 then do {
             c3 \<leftarrow> kprint (''Read disk error'' @ [CHR 0x0A]) [] c2;
             Some (False, h7, c3)
           }
           else Some (True, h7, c2)
         }
       }
     }
   }"

section \<open>Device types and slots\<close>

text \<open>A device is reported exactly when it is present and its interface active.\<close>

lemma check_type_cases:
  "fst (check_type p h) =
    (let (ssts, h1) = reg_read (p + off_ssts) h; (sig, h2) = reg_read (p + off_sig) h1 in
     if unat ssts mod 16 = 3 \<and> unat ssts div 256 mod 16 = 1
     then if sig = 0xEB140101 then 4 else if sig = 0xC33C0101 then 2
          else if sig = 0x96690101 then 3 else 1
     else 0)"
proof -
  have nib: "(ucast (x AND 0x0F) :: u8) = k \<longleftrightarrow> unat x mod 16 = unat k" if "unat k < 16" for x :: u32 and k
  proof -
    have "(0x0F :: u32) = mask 4" by (simp add: mask_eq_exp_minus_1)
    then have "x AND 0x0F = take_bit 4 x" by (simp only: take_bit_eq_mask)
    then have u: "unat (x AND 0x0F) = unat x mod 16"
      by (simp add: unsigned_take_bit_eq take_bit_eq_mod unat_mod)
    have "unat x mod 16 < 256" by (rule less_trans [of _ 16]) simp_all
    then have "unat (ucast (x AND 0x0F) :: u8) = unat x mod 16"
      using u by (simp add: unsigned_ucast_eq take_bit_nat_eq_self)
    then show ?thesis by (simp add: word_unat_eq_iff)
  qed
  have d: "unat (drop_bit 8 ssts) = unat ssts div 256" for ssts :: u32
    by (simp add: drop_bit_eq_div unat_div)
  show ?thesis
    using nib [of 3] nib [of 1] by (simp add: check_type_def Let_def d split: prod.splits)
qed

text \<open>A slot that is returned is the first free one, and some higher slot is busy.\<close>

lemma low_bit: "(s :: u32) AND 1 = 0 \<longleftrightarrow> \<not> bit s 0"
  by (simp add: and_one_eq bit_0 even_iff_mod_2_eq_zero)

lemma slot_loop_sound:
  assumes "i \<le> 32" and "slot_loop (of_nat i) (drop_bit i S) = Some j"
  shows "\<exists>k. j = of_nat k \<and> i \<le> k \<and> k < 32 \<and> \<not> bit S k \<and> (\<forall>l. i \<le> l \<and> l < k \<longrightarrow> bit S l) \<and>
    drop_bit k S \<noteq> 0"
  using assms
proof (induction "32 - i" arbitrary: i)
  case 0
  then have "i = 32" by simp
  then have "drop_bit i S = 0" by (intro bit_word_eqI) (auto simp: bit_simps dest: bit_imp_le_length)
  then show ?case using 0(3) by (simp add: slot_loop.simps [of _ 0])
next
  case (Suc n)
  let ?s = "drop_bit i S"
  have lt: "of_nat i < ?s"
    using Suc.prems(2) by (simp add: slot_loop.simps [of "of_nat i" ?s] split: if_splits)
  then have nz: "?s \<noteq> 0" by auto
  show ?case
  proof (cases "bit S i")
    case False
    then have "?s AND 1 = 0" by (simp add: low_bit bit_simps)
    then have "j = of_nat i" using Suc.prems(2) lt by (simp add: slot_loop.simps [of "of_nat i" ?s])
    then show ?thesis using False nz Suc.hyps(2) by (intro exI [of _ i]) auto
  next
    case True
    then have "?s AND 1 \<noteq> 0" by (simp add: low_bit bit_simps)
    then have "slot_loop (of_nat (Suc i)) (drop_bit (Suc i) S) = Some j"
      using Suc.prems(2) lt by (simp add: slot_loop.simps [of "of_nat i" ?s] add.commute drop_bit_Suc)
    moreover have "n = 32 - Suc i" "Suc i \<le> 32" using Suc.hyps(2) by linarith+
    ultimately have "\<exists>k. j = of_nat k \<and> Suc i \<le> k \<and> k < 32 \<and> \<not> bit S k \<and>
        (\<forall>l. Suc i \<le> l \<and> l < k \<longrightarrow> bit S l) \<and> drop_bit k S \<noteq> 0" by (intro Suc.hyps(1))
    then obtain k where k: "j = of_nat k" "Suc i \<le> k" "k < 32"
      "\<not> bit S k" "\<forall>l. Suc i \<le> l \<and> l < k \<longrightarrow> bit S l" "drop_bit k S \<noteq> 0" by blast
    have "bit S l" if "i \<le> l" "l < k" for l
      using that True k(5) by (cases "l = i") auto
    then show ?thesis using k by (intro exI [of _ k]) auto
  qed
qed

lemma slot_sound:
  assumes "slot_loop 0 S = Some j"
  shows "\<exists>k < 32. j = of_nat k \<and> \<not> bit S k \<and> (\<forall>l < k. bit S l) \<and> (\<exists>l > k. bit S l)"
proof -
  obtain k where k: "j = of_nat k" "k < 32" "\<not> bit S k" "\<forall>l < k. bit S l" "drop_bit k S \<noteq> 0"
    using slot_loop_sound [of 0 S j] assms by auto
  obtain n where "bit (drop_bit k S) n" using k(5) by (auto simp: bit_eq_iff)
  then have "bit S (k + n)" by (simp add: bit_simps)
  moreover have "n \<noteq> 0" using calculation k(3) by (cases n) auto
  ultimately have "\<exists>l > k. bit S l" by (intro exI [of _ "k + n"]) simp
  then show ?thesis using k by (intro exI [of _ k]) auto
qed

text \<open>
  So when the busy slots are the first \<open>k\<close>, in particular when none is, no slot is found.
\<close>

lemma slot_none: "slot_loop 0 (mask k) = None"
proof (rule ccontr)
  assume "slot_loop 0 (mask k) \<noteq> None"
  then obtain j where "slot_loop 0 (mask k) = Some j" by auto
  then obtain n l where "n < 32" "\<not> bit (mask k :: u32) n" "n < l" "bit (mask k :: u32) l"
    using slot_sound by blast
  then show False by (auto simp: bit_mask_iff)
qed

section \<open>The command that read builds\<close>

text \<open>The loop over the PRDT never runs its body: it ends with \<open>i = 1\<close>.\<close>

lemma prdt_loop_skips: "prdt_loop tbl 0 buf count m = Some (1, buf, count, m)"
  by (subst prdt_loop.simps) simp

definition fis_lba_low :: "mem \<Rightarrow> u32 \<Rightarrow> u32" where
  "fis_lba_low m f = ucast (m (f + 4)) OR push_bit 8 (ucast (m (f + 5))) OR
     push_bit 16 (ucast (m (f + 6))) OR push_bit 24 (ucast (m (f + 8)))"

definition fis_lba_high :: "mem \<Rightarrow> u32 \<Rightarrow> u16" where
  "fis_lba_high m f = ucast (m (f + 9)) OR push_bit 8 (ucast (m (f + 10)))"

definition fis_count :: "mem \<Rightarrow> u32 \<Rightarrow> u16" where
  "fis_count m f = ucast (m (f + 12)) OR push_bit 8 (ucast (m (f + 13)))"

lemma low_byte: "(ucast (x AND 0xFF) :: u8) = ucast (x :: u32)"
proof -
  have "(0xFF :: u32) = mask 8" by (simp add: mask_eq_exp_minus_1)
  then have "x AND 0xFF = take_bit 8 x" by (simp only: take_bit_eq_mask)
  then show ?thesis by (simp only:) (rule bit_word_eqI, auto simp: bit_simps)
qed

lemma two_bytes:
  "ucast (ucast x :: u8) OR push_bit 8 (ucast (ucast (drop_bit 8 x) :: u8)) = (ucast (x :: u32) :: u16)"
proof (rule bit_word_eqI)
  fix n assume "n < LENGTH(16)"
  then consider "n < 8" | "8 \<le> n \<and> n < 16" by fastforce
  then show "bit (ucast (ucast x :: u8) OR push_bit 8 (ucast (ucast (drop_bit 8 x) :: u8)) :: u16) n =
      bit (ucast x :: u16) n"
    by cases (auto simp: bit_simps)
qed

text \<open>The bytes of the FIS.\<close>

lemma write_fis_bytes:
  "write_fis f sl sh n m f = 0x27" "write_fis f sl sh n m (f + 1) = m (f + 1) OR 0x80"
  "write_fis f sl sh n m (f + 2) = 0x25" "write_fis f sl sh n m (f + 4) = ucast sl"
  "write_fis f sl sh n m (f + 5) = ucast (drop_bit 8 sl)"
  "write_fis f sl sh n m (f + 6) = ucast (drop_bit 16 sl)"
  "write_fis f sl sh n m (f + 7) = 0x40" "write_fis f sl sh n m (f + 8) = ucast (drop_bit 24 sl)"
  "write_fis f sl sh n m (f + 9) = ucast sh" "write_fis f sl sh n m (f + 10) = ucast (drop_bit 8 sh)"
  "write_fis f sl sh n m (f + 12) = ucast n" "write_fis f sl sh n m (f + 13) = ucast (drop_bit 8 n)"
  by (simp_all add: write_fis_def Let_def low_byte)

text \<open>In terms of the declaration of \<open>FIS_REG_H2D\<close>.\<close>

lemma write_fis_declared:
  assumes "(n, v) \<in> set [(''fis_type'', 0x27), (''command'', 0x25), (''lba0'', ucast sl),
    (''lba1'', ucast (drop_bit 8 sl)), (''lba2'', ucast (drop_bit 16 sl)), (''device'', 0x40),
    (''lba3'', ucast (drop_bit 24 sl)), (''lba4'', ucast sh), (''lba5'', ucast (drop_bit 8 sh)),
    (''countl'', ucast count), (''counth'', ucast (drop_bit 8 count))]"
  shows "write_fis f sl sh count m (f + of_nat (offsetof FIS_REG_H2D n)) = v"
  using assms by (auto simp: fis_members write_fis_bytes)

lemma write_fis_outside:
  assumes "\<not> in_rng f 14 a"
  shows "write_fis f sl sh n m a = m a"
proof -
  have "a \<noteq> f" "a \<noteq> f + 1" "a \<noteq> f + 2" "a \<noteq> f + 4" "a \<noteq> f + 5" "a \<noteq> f + 6" "a \<noteq> f + 7"
    "a \<noteq> f + 8" "a \<noteq> f + 9" "a \<noteq> f + 10" "a \<noteq> f + 12" "a \<noteq> f + 13"
    using assms by (auto simp: in_rng_def)
  then show ?thesis by (simp add: write_fis_def Let_def)
qed

text \<open>The fields read back as the arguments: the LBA's low 48 bits and the count's low 16.\<close>

lemma write_fis_fields:
  "fis_lba_low (write_fis f sl sh n m) f = sl" "fis_lba_high (write_fis f sl sh n m) f = ucast sh"
  "fis_count (write_fis f sl sh n m) f = ucast n"
  by (simp_all only: fis_lba_low_def fis_lba_high_def fis_count_def write_fis_bytes bytes_of_u32 two_bytes)

text \<open>A PRDT entry: its address and its byte count, and the bytes it occupies.\<close>

definition put_prdt :: "u32 \<Rightarrow> u32 \<Rightarrow> u32 \<Rightarrow> mem \<Rightarrow> mem" where
  "put_prdt e buf n m = set_i e (set_dbc n e (set_dba buf e m))"

lemma put_prdt_outside:
  assumes "\<not> in_rng e 16 a"
  shows "put_prdt e buf n m a = m a"
proof -
  have "\<not> in_rng e 4 a" "\<not> in_rng (e + 12) 4 a"
    using assms in_rng_mono [of e 4 a 16] in_rng_shift [of e 12 4 a 16] by auto
  then show ?thesis
    by (simp add: put_prdt_def set_i_def set_dbc_def set_dba_def store32_outside)
qed

lemma put_prdt_dba: "load32 (put_prdt e buf n m) e = buf"
proof -
  have "rng_disj (e + 12) 4 e 4" by (auto simp: rng_disj_def word_cells)
  then show ?thesis
    by (simp add: put_prdt_def set_i_def set_dbc_def set_dba_def load32_other load32_store32)
qed

text \<open>The memory a command ends up in.\<close>

lemma header_ctba:
  "get_ctba (set_prdtl v hdr (clear_w hdr (set_cfl c hdr m))) hdr = get_ctba m hdr"
  "get_prdtl (set_prdtl v hdr m) hdr = v"
proof -
  show "get_prdtl (set_prdtl v hdr m) hdr = v" by (simp add: get_prdtl_def set_prdtl_def load16_store16)
  show "get_ctba (set_prdtl v hdr (clear_w hdr (set_cfl c hdr m))) hdr = get_ctba m hdr"
    unfolding get_ctba_def
    by (rule load32_cong)
       (auto simp: word_cells set_prdtl_def clear_w_def set_cfl_def store16_def)
qed

definition prdt_count :: "u32 \<Rightarrow> u16" where
  "prdt_count count = ucast (drop_bit 4 (count - 1)) + 1"

lemma build_command_eq:
  "build_command hdr sl sh count buf m =
    (let m2 = set_prdtl (prdt_count count) hdr (clear_w hdr (set_cfl 5 hdr m)); tbl = get_ctba m hdr in
     Some (write_fis tbl sl sh count
       (put_prdt (tbl + 0x90) buf (push_bit 9 count - 1)
         (snd (memset m2 tbl 0 (0x90 + (ucast (prdt_count count) - 1) * 16))))))"
  by (simp add: build_command_def prdt_count_def [symmetric] header_ctba prdt_loop_skips
      put_prdt_def prdt_entry_def Let_def add.assoc)

text \<open>
  For a count that needs at most 65535 PRDT entries: the FIS is right, but the buffer's address
  goes to entry 1, and entry 0, the one the device reads first, stays empty.
\<close>

lemma build_command_result:
  assumes "prdt_count count \<noteq> 0" and "build_command hdr sl sh count buf m = Some m'"
  defines "tbl \<equiv> get_ctba m hdr"
  shows "m' tbl = 0x27 \<and> m' (tbl + 1) = 0x80 \<and> m' (tbl + 2) = 0x25"
    and "fis_lba_low m' tbl = sl" and "fis_lba_high m' tbl = ucast sh" and "fis_count m' tbl = ucast count"
    and "load32 m' (tbl + 0x90) = buf"
    and "in_rng (tbl + 0x80) 16 a \<Longrightarrow> m' a = 0"
proof -
  let ?m2 = "set_prdtl (prdt_count count) hdr (clear_w hdr (set_cfl 5 hdr m))"
  let ?n = "0x90 + (ucast (prdt_count count) - 1) * 16 :: u32"
  let ?m3 = "snd (memset ?m2 tbl 0 ?n)"
  let ?m4 = "put_prdt (tbl + 0x90) buf (push_bit 9 count - 1) ?m3"
  have m': "m' = write_fis tbl sl sh count ?m4"
    using assms(2) by (simp add: build_command_eq tbl_def Let_def)
  show fields: "fis_lba_low m' tbl = sl" "fis_lba_high m' tbl = ucast sh" "fis_count m' tbl = ucast count"
    unfolding m' by (rule write_fis_fields)+
  have n: "0x90 \<le> unat ?n"
  proof -
    let ?k = "unat (prdt_count count)"
    have k: "0 < ?k" "?k < 65536"
      using assms(1) unsigned_less [of "prdt_count count"] by (simp_all add: unat_gt_0)
    have "?n = of_nat (0x90 + (?k - 1) * 16)" using k(1) by (simp add: of_nat_diff)
    then show ?thesis using k(2) unat_of_nat32 [of "0x90 + (?k - 1) * 16"] by simp
  qed
  have zero: "?m3 a = 0" if "in_rng tbl 0x90 a" for a
    using in_rng_mono [OF that n] by (simp add: memset_eq)
  have keep: "?m4 a = ?m3 a" if "in_rng tbl 0x90 a" for a
    using that rng_disj_offsets [of 0 "0x90" "0x90" 16 tbl]
    by (intro put_prdt_outside) (simp add: rng_disj_def)
  have "?m4 (tbl + 1) = 0" using keep [of "tbl + 1"] zero [of "tbl + 1"] by (simp add: in_rng_def)
  then show "m' tbl = 0x27 \<and> m' (tbl + 1) = 0x80 \<and> m' (tbl + 2) = 0x25"
    unfolding m' by (simp add: write_fis_bytes)
  have "load32 m' (tbl + 0x90) = load32 ?m4 (tbl + 0x90)"
    unfolding m' using rng_disj_offsets [of 0 14 "0x90" 4 tbl]
    by (intro load32_cong write_fis_outside) (auto simp: rng_disj_def)
  then show "load32 m' (tbl + 0x90) = buf" by (simp add: put_prdt_dba)
  show "m' a = 0" if a: "in_rng (tbl + 0x80) 16 a"
  proof -
    have out: "\<not> in_rng tbl 14 a" and ins: "in_rng tbl 0x90 a"
      using a rng_disj_offsets [of 0 14 "0x80" 16 tbl] in_rng_shift [of tbl "0x80" 16 a "0x90"]
      by (auto simp: rng_disj_def)
    show ?thesis
      unfolding m' write_fis_outside [OF out] keep [OF ins] by (rule zero [OF ins])
  qed
qed

section \<open>Reading from an idle port\<close>

text \<open>While the busy slots are the first \<open>k\<close> (with \<open>k = 0\<close>, none), every read fails for want of a slot.\<close>

lemma find_cmdslot_prefix:
  assumes "\<forall>tr. dev_reg h tr (p + off_sact) = x" and "\<forall>tr. dev_reg h tr (p + off_ci) = y"
    and "x OR y = mask k" and "con_ok c"
  shows "\<exists>h' c'. find_cmdslot p h c = Some (- 1, h', c')"
proof -
  have msg: "message (''Cannot find free command list entry'' @ [CHR 0x0A])"
    by (simp add: message_def ch_def)
  obtain c' where "kprint (''Cannot find free command list entry'' @ [CHR 0x0A]) [] c = Some c'"
    using kprint_message [OF assms(4) msg] by blast
  then show ?thesis
    using assms(1-3) slot_none [of k]
    by (simp add: find_cmdslot_def reg_read_def Let_def del: append_Cons append_Nil)
qed

lemma read_prefix_fails:
  assumes "\<forall>tr. dev_reg h tr (p + off_sact) = x" and "\<forall>tr. dev_reg h tr (p + off_ci) = y"
    and "x OR y = mask k" and "con_ok c"
  shows "\<exists>h' c'. read_sectors p startl starth count buf h c = Some (False, h', c')"
proof -
  obtain h' c' where "find_cmdslot p (reg_write (p + off_is) (- 1) h) c = Some (- 1, h', c')"
    using find_cmdslot_prefix [of "reg_write (p + off_is) (- 1) h" p x y k c] assms
    by (auto simp: reg_write_def)
  then show ?thesis by (simp add: read_sectors_def)
qed

section \<open>The layout of the ports' memory\<close>

text \<open>The three regions of a port: command list, received FIS, and the 32 command tables.\<close>

definition port_regions :: "nat \<Rightarrow> (nat \<times> nat) list" where
  "port_regions n = [(0x400000 + 1024 * n, 1024), (0x408000 + 256 * n, 256), (0x40A000 + 8192 * n, 8192)]"

lemma region_addresses:
  assumes "n < 32" and "i < 32"
  shows "clb_addr (of_nat n) = of_nat (0x400000 + 1024 * n)"
    and "fb_addr (of_nat n) = of_nat (0x408000 + 256 * n)"
    and "ctba_addr (of_nat n) (of_nat i) = of_nat (0x40A000 + 8192 * n + 256 * i)"
  by (simp_all add: clb_addr_def fb_addr_def ctba_addr_def AHCI_BASE_def push_bit_eq_mult)

text \<open>The regions of the 32 ports are pairwise disjoint, and aligned as the device needs them.\<close>

lemma regions_disjoint:
  assumes "n < 32" and "k < 32" and "(a, l) = port_regions n ! i" and "(b, r) = port_regions k ! j"
    and "i < 3" and "j < 3" and "(n, i) \<noteq> (k, j)"
  shows "rng_disj (of_nat a) l (of_nat b) r"
proof -
  have "a + l \<le> b \<or> b + r \<le> a" "a + l \<le> 2 ^ 32" "b + r \<le> 2 ^ 32"
    using assms by (auto simp: port_regions_def less_Suc_eq numeral_3_eq_3 nth_Cons split: nat.splits)
  then show ?thesis
    using rng_disj_offsets [of a l b r 0] rng_disj_offsets [of b r a l 0] by (auto intro: rng_disj_sym)
qed

lemma regions_aligned:
  "n < 32 \<Longrightarrow> fst (port_regions n ! 0) mod 1024 = 0 \<and> fst (port_regions n ! 1) mod 256 = 0 \<and>
    (fst (port_regions n ! 2) + 256 * i) mod 128 = 0"
  by (simp add: port_regions_def mod_add_eq)

section \<open>port_rebase\<close>

text \<open>One turn of the loop: header \<open>i\<close> filled in, table \<open>i\<close> cleared.\<close>

definition fill_header :: "u32 \<Rightarrow> u32 \<Rightarrow> mem \<Rightarrow> mem" where
  "fill_header ctba hdr m = set_ctbau 0 hdr (set_ctba ctba hdr (set_prdtl 8 hdr m))"

definition clear_rng :: "u32 \<Rightarrow> nat \<Rightarrow> mem \<Rightarrow> mem" where
  "clear_rng p n m = (\<lambda>a. if in_rng p n a then 0 else m a)"

lemma header_cells:
  "rng_disj (hdr + 2) 2 (hdr + 8) 4" "rng_disj (hdr + 2) 2 (hdr + 12) 4" "rng_disj (hdr + 8) 4 (hdr + 12) 4"
  using rng_disj_offsets [of 2 2 8 4 hdr] rng_disj_offsets [of 2 2 12 4 hdr]
    rng_disj_offsets [of 8 4 12 4 hdr] by simp_all

lemma fill_header_fields: "get_ctba (fill_header x hdr m) hdr = x" "get_prdtl (fill_header x hdr m) hdr = 8"
proof -
  have "rng_disj (hdr + 12) 4 (hdr + 8) 4" using header_cells(3) by (rule rng_disj_sym)
  then show "get_ctba (fill_header x hdr m) hdr = x"
    by (simp add: get_ctba_def fill_header_def set_ctbau_def set_ctba_def load32_other load32_store32)
  have "load16 (fill_header x hdr m) (hdr + 2) = load16 (set_prdtl 8 hdr m) (hdr + 2)"
  proof (rule load16_cong)
    fix a assume a: "in_rng (hdr + 2) 2 a"
    note out = rng_disjD [OF header_cells(1) a] rng_disjD [OF header_cells(2) a]
    show "fill_header x hdr m a = set_prdtl 8 hdr m a"
      using out by (simp add: fill_header_def set_ctbau_def set_ctba_def store32_outside)
  qed
  then show "get_prdtl (fill_header x hdr m) hdr = 8"
    by (simp add: get_prdtl_def set_prdtl_def load16_store16)
qed

lemma fill_header_outside:
  assumes "\<not> in_rng hdr 16 a"
  shows "fill_header x hdr m a = m a"
proof -
  have "\<not> in_rng (hdr + 2) 2 a" "\<not> in_rng (hdr + 8) 4 a" "\<not> in_rng (hdr + 12) 4 a"
    using in_rng_shift [of hdr 2 2 a 16] in_rng_shift [of hdr 8 4 a 16] in_rng_shift [of hdr 12 4 a 16]
      assms by auto
  then show ?thesis
    by (simp add: fill_header_def set_ctbau_def set_ctba_def set_prdtl_def store32_outside store16_outside)
qed

lemma rebase_loop_step:
  assumes "i < 32"
  shows "rebase_loop clb n i m = rebase_loop clb n (i + 1)
    (clear_rng (ctba_addr n i) 256 (fill_header (ctba_addr n i) (clb + 32 * i) m))"
proof -
  let ?m = "fill_header (ctba_addr n i) (clb + 32 * i) m"
  have "snd (memset ?m (get_ctba ?m (clb + 32 * i)) 0 256) = clear_rng (ctba_addr n i) 256 ?m"
    by (simp add: fill_header_fields memset_eq clear_rng_def cong: if_cong)
  then show ?thesis
    using assms by (simp add: rebase_loop.simps [of clb n i m] Let_def fill_header_def)
qed

lemma rebase_loop_frame:
  assumes "i \<le> 32" and "\<forall>j. i \<le> j \<and> j < 32 \<longrightarrow>
    \<not> in_rng (clb + 32 * j) 16 a \<and> \<not> in_rng (ctba_addr n j) 256 a"
  shows "rebase_loop clb n i m a = m a"
  using assms
proof (induction arbitrary: m rule: count_induct)
  case stop
  show ?case by (simp add: rebase_loop.simps [of clb n 32 m])
next
  case (step i)
  have "\<forall>j. i + 1 \<le> j \<and> j < 32 \<longrightarrow> \<not> in_rng (clb + 32 * j) 16 a \<and> \<not> in_rng (ctba_addr n j) 256 a"
    using step(3) unat_Suc_less [OF step(1)] by (auto simp: word_le_nat_alt)
  from step(2) [OF this] show ?case
    using step(1,3) by (simp add: rebase_loop_step clear_rng_def fill_header_outside)
qed

text \<open>Headers and tables of a port, as offsets in the address space.\<close>

lemma cell_offsets:
  assumes "n < 32" and "i < (32 :: u32)"
  shows "clb_addr (of_nat n) + 32 * i = 0 + of_nat (0x400000 + 1024 * n + 32 * unat i)"
    and "ctba_addr (of_nat n) i = 0 + of_nat (0x40A000 + 8192 * n + 256 * unat i)"
  by (simp_all add: clb_addr_def ctba_addr_def AHCI_BASE_def push_bit_eq_mult)

lemma cells_disjoint:
  assumes n: "n < 32" and i: "i < (32 :: u32)" and j: "j < (32 :: u32)"
  shows "i \<noteq> j \<Longrightarrow> rng_disj (clb_addr (of_nat n) + 32 * i) 16 (clb_addr (of_nat n) + 32 * j) 16"
    and "rng_disj (clb_addr (of_nat n) + 32 * i) 16 (ctba_addr (of_nat n) j) 256"
    and "i \<noteq> j \<Longrightarrow> rng_disj (ctba_addr (of_nat n) i) 256 (ctba_addr (of_nat n) j) 256"
proof -
  have u: "unat i < 32" "unat j < 32" using i j by (simp_all add: word_less_nat_alt)
  have ne: "i \<noteq> j \<Longrightarrow> unat i < unat j \<or> unat j < unat i" by (metis nat_neq_iff word_unat_eq_iff)
  note ci = cell_offsets [OF n i] and cj = cell_offsets [OF n j]
  show "rng_disj (clb_addr (of_nat n) + 32 * i) 16 (ctba_addr (of_nat n) j) 256"
    unfolding ci(1) cj(2) by (rule rng_disj_offsets) (use n u in auto)+
  show "rng_disj (clb_addr (of_nat n) + 32 * i) 16 (clb_addr (of_nat n) + 32 * j) 16" if "i \<noteq> j"
    unfolding ci(1) cj(1) using ne [OF that]
  proof
    assume "unat i < unat j"
    then show "rng_disj (0 + of_nat (0x400000 + 1024 * n + 32 * unat i)) 16
        (0 + of_nat (0x400000 + 1024 * n + 32 * unat j)) 16"
      by (intro rng_disj_offsets) (use n u in auto)+
  next
    assume "unat j < unat i"
    then show "rng_disj (0 + of_nat (0x400000 + 1024 * n + 32 * unat i)) 16
        (0 + of_nat (0x400000 + 1024 * n + 32 * unat j)) 16"
      by (intro rng_disj_sym [OF rng_disj_offsets]) (use n u in auto)+
  qed
  show "rng_disj (ctba_addr (of_nat n) i) 256 (ctba_addr (of_nat n) j) 256" if "i \<noteq> j"
    unfolding ci(2) cj(2) using ne [OF that]
  proof
    assume "unat i < unat j"
    then show "rng_disj (0 + of_nat (0x40A000 + 8192 * n + 256 * unat i)) 256
        (0 + of_nat (0x40A000 + 8192 * n + 256 * unat j)) 256"
      by (intro rng_disj_offsets) (use n u in auto)+
  next
    assume "unat j < unat i"
    then show "rng_disj (0 + of_nat (0x40A000 + 8192 * n + 256 * unat i)) 256
        (0 + of_nat (0x40A000 + 8192 * n + 256 * unat j)) 256"
      by (intro rng_disj_sym [OF rng_disj_offsets]) (use n u in auto)+
  qed
qed

text \<open>Slot \<open>j\<close> of a port is set up: its header points to its own table of eight entries, all zero.\<close>

definition slot_ready :: "nat \<Rightarrow> u32 \<Rightarrow> mem \<Rightarrow> bool" where
  "slot_ready n j m \<longleftrightarrow> get_ctba m (clb_addr (of_nat n) + 32 * j) = ctba_addr (of_nat n) j \<and>
     get_prdtl m (clb_addr (of_nat n) + 32 * j) = 8 \<and>
     (\<forall>a. in_rng (ctba_addr (of_nat n) j) 256 a \<longrightarrow> m a = 0)"

lemma slot_ready_cong:
  assumes "slot_ready n j m"
    and "\<And>a. in_rng (clb_addr (of_nat n) + 32 * j) 16 a \<or> in_rng (ctba_addr (of_nat n) j) 256 a \<Longrightarrow> m' a = m a"
  shows "slot_ready n j m'"
proof -
  let ?h = "clb_addr (of_nat n) + 32 * j"
  have "load32 m' (?h + 8) = load32 m (?h + 8)" "load16 m' (?h + 2) = load16 m (?h + 2)"
    using assms(2) in_rng_shift [of ?h 8 4 _ 16] in_rng_shift [of ?h 2 2 _ 16]
    by (auto intro!: load32_cong load16_cong)
  then show ?thesis using assms by (simp add: slot_ready_def get_ctba_def get_prdtl_def)
qed

lemma slot_filled:
  assumes "n < 32" and "j < 32"
  shows "slot_ready n j (clear_rng (ctba_addr (of_nat n) j) 256
    (fill_header (ctba_addr (of_nat n) j) (clb_addr (of_nat n) + 32 * j) m))"
proof -
  let ?h = "clb_addr (of_nat n) + 32 * j" and ?t = "ctba_addr (of_nat n) j"
  let ?f = "fill_header ?t ?h m"
  have keep: "clear_rng ?t 256 ?f a = ?f a" if "in_rng ?h 16 a" for a
    using rng_disjD [OF cells_disjoint(2) [OF assms(1,2,2)] that] by (simp add: clear_rng_def)
  have "load32 (clear_rng ?t 256 ?f) (?h + 8) = load32 ?f (?h + 8)"
    "load16 (clear_rng ?t 256 ?f) (?h + 2) = load16 ?f (?h + 2)"
    using keep in_rng_shift [of ?h 8 4 _ 16] in_rng_shift [of ?h 2 2 _ 16]
    by (auto intro!: load32_cong load16_cong)
  then show ?thesis
    using fill_header_fields [of ?t ?h m]
    by (simp add: slot_ready_def get_ctba_def get_prdtl_def clear_rng_def)
qed

lemma rebase_loop_ready:
  assumes "n < 32" and "i \<le> 32" and "i \<le> j" and "j < 32"
  shows "slot_ready n j (rebase_loop (clb_addr (of_nat n)) (of_nat n) i m)"
  using assms(2,3)
proof (induction arbitrary: m rule: count_induct)
  case stop
  then show ?case using assms(4) by simp
next
  case (step i)
  let ?m = "clear_rng (ctba_addr (of_nat n) i) 256
    (fill_header (ctba_addr (of_nat n) i) (clb_addr (of_nat n) + 32 * i) m)"
  show ?case
  proof (cases "i = j")
    case False
    then have "i + 1 \<le> j" using step(3) by (metis inc_le order_le_imp_less_or_eq)
    from step(2) [OF this] show ?thesis using step(1) by (simp add: rebase_loop_step)
  next
    case True
    have "slot_ready n i (rebase_loop (clb_addr (of_nat n)) (of_nat n) (i + 1) ?m)"
    proof (rule slot_ready_cong [OF slot_filled [OF assms(1) step(1)]])
      fix a
      assume a: "in_rng (clb_addr (of_nat n) + 32 * i) 16 a \<or> in_rng (ctba_addr (of_nat n) i) 256 a"
      have "\<not> in_rng (clb_addr (of_nat n) + 32 * k) 16 a \<and> \<not> in_rng (ctba_addr (of_nat n) k) 256 a"
        if k: "i + 1 \<le> k \<and> k < 32" for k
      proof -
        have "i \<noteq> k" using k unat_Suc_less [OF step(1)] by (auto simp: word_le_nat_alt)
        moreover have k': "k < 32" using k by simp
        note cells_disjoint [OF assms(1) step(1) k'] cells_disjoint(2) [OF assms(1) k' step(1)]
        ultimately show ?thesis using a by (meson rng_disjD rng_disjD2)
      qed
      then show "rebase_loop (clb_addr (of_nat n)) (of_nat n) (i + 1) ?m a = ?m a"
        using inc_le [OF step(1)] by (intro rebase_loop_frame) blast+
    qed
    then show ?thesis using True step(1) by (simp add: rebase_loop_step)
  qed
qed

text \<open>A port whose engine is stopped, and whose base registers hold what was last written to them.\<close>

fun last_write :: "io list \<Rightarrow> u32 \<Rightarrow> u32" where
  "last_write [] a = 0"
| "last_write (MWrite b v # tr) a = (if b = a then v else last_write tr a)"
| "last_write (_ # tr) a = last_write tr a"

definition engine_idle :: "u32 \<Rightarrow> hw \<Rightarrow> bool" where
  "engine_idle p h \<longleftrightarrow> (\<forall>tr. dev_reg h tr (p + off_cmd) AND 0xC000 = 0)"

definition holds_writes :: "u32 \<Rightarrow> hw \<Rightarrow> bool" where
  "holds_writes p h \<longleftrightarrow> (\<forall>tr. dev_reg h tr (p + off_clb) = last_write tr (p + off_clb) \<and>
     dev_reg h tr (p + off_fb) = last_write tr (p + off_fb))"

lemma idle_bits:
  assumes "engine_idle p h"
  shows "fst (reg_read (p + off_cmd) h) AND HBA_PxCMD_CR = 0"
    and "fst (reg_read (p + off_cmd) h) AND HBA_PxCMD_FR = 0"
proof -
  let ?x = "fst (reg_read (p + off_cmd) h)"
  have x: "?x AND 0xC000 = 0" using assms by (simp add: engine_idle_def reg_read_def Let_def)
  have "?x AND 0x8000 = (?x AND 0xC000) AND 0x8000" "?x AND 0x4000 = (?x AND 0xC000) AND 0x4000"
    by (simp_all add: and.assoc)
  then show "?x AND HBA_PxCMD_CR = 0" "?x AND HBA_PxCMD_FR = 0"
    using x by (simp_all add: HBA_PxCMD_CR_def HBA_PxCMD_FR_def)
qed

lemma idle_same: "same_devices h h' \<Longrightarrow> engine_idle p h' = engine_idle p h"
  "same_devices h h' \<Longrightarrow> holds_writes p h' = holds_writes p h"
  by (simp_all add: engine_idle_def holds_writes_def same_devices_def)

lemma cmd_same [simp]: "same_devices h (cmd_and p v h)" "same_devices h (cmd_or p v h)"
  by (simp_all add: cmd_and_def cmd_or_def reg_read_def reg_write_def Let_def same_devices_def)

lemma stop_idle:
  assumes "engine_idle p h"
  shows "\<exists>h'. stop_cmd p h = Some h' \<and> same_devices h h'"
proof -
  let ?h = "cmd_and p (NOT HBA_PxCMD_FRE) (cmd_and p (NOT HBA_PxCMD_ST) h)"
  let ?h1 = "snd (reg_read (p + off_cmd) ?h)"
  have s: "same_devices h ?h" "same_devices h ?h1"
    using same_devices_trans cmd_same same_devices_io(7) by blast+
  have "engine_idle p ?h" "engine_idle p ?h1" using assms idle_same(1) s by blast+
  then have "stop_cmd p h = Some (snd (reg_read (p + off_cmd) ?h1))"
    using idle_bits by (simp add: stop_cmd_def wait_stopped.simps [of p ?h])
  moreover have "same_devices h (snd (reg_read (p + off_cmd) ?h1))"
    using same_devices_trans [OF s(2)] same_devices_io(7) by blast
  ultimately show ?thesis by blast
qed

lemma start_idle:
  assumes "engine_idle p h"
  shows "\<exists>h'. start_cmd p h = Some h' \<and> same_devices h h'"
proof -
  have "start_cmd p h = Some (cmd_or p HBA_PxCMD_ST (cmd_or p HBA_PxCMD_FRE (snd (reg_read (p + off_cmd) h))))"
    using idle_bits(1) [OF assms] by (simp add: start_cmd_def wait_cr.simps [of p h])
  moreover have "same_devices h (cmd_or p HBA_PxCMD_ST (cmd_or p HBA_PxCMD_FRE (snd (reg_read (p + off_cmd) h))))"
    using same_devices_trans cmd_same same_devices_io(7) by blast
  ultimately show ?thesis by blast
qed

lemma base_reads:
  assumes "holds_writes p h"
  shows "reg_read (p + off_clb) (reg_write (p + off_clbu) 0 (reg_write (p + off_clb) x h)) =
      (x, snd (reg_read (p + off_clb) (reg_write (p + off_clbu) 0 (reg_write (p + off_clb) x h))))"
    and "fst (reg_read (p + off_fb) (reg_write (p + off_fbu) 0 (reg_write (p + off_fb) y h))) = y"
    and "last_write (trace h) (p + off_clb) = x \<Longrightarrow>
      fst (reg_read (p + off_clb) (snd (reg_read (p + off_fb)
        (reg_write (p + off_fbu) 0 (reg_write (p + off_fb) y h))))) = x"
  using assms
  by (simp_all add: reg_read_def reg_write_def Let_def holds_writes_def port_offsets)

lemma port_rebase_layout:
  assumes "n < 32" and "engine_idle p h" and "holds_writes p h"
  shows "\<exists>h' m'. port_rebase p (of_nat n) h m = Some (h', m') \<and> (\<forall>j < 32. slot_ready n j m')"
proof -
  let ?c = "clb_addr (of_nat n)" and ?f = "fb_addr (of_nat n)"
  obtain h1 where h1: "stop_cmd p h = Some h1" "same_devices h h1" using stop_idle [OF assms(2)] by blast
  define h2 where "h2 = reg_write (p + off_clbu) 0 (reg_write (p + off_clb) ?c h1)"
  define h3 where "h3 = snd (reg_read (p + off_clb) h2)"
  define h4 where "h4 = reg_write (p + off_fbu) 0 (reg_write (p + off_fb) ?f h3)"
  define h5 where "h5 = snd (reg_read (p + off_fb) h4)"
  define h6 where "h6 = snd (reg_read (p + off_clb) h5)"
  have s3: "same_devices h h3" and s6: "same_devices h h6"
    by (rule same_devices_trans [OF h1(2)];
        simp add: h2_def h3_def h4_def h5_def h6_def reg_read_def reg_write_def Let_def same_devices_def)+
  have hw: "holds_writes p h1" "holds_writes p h3" using idle_same(2) h1(2) s3 assms(3) by blast+
  have r1: "reg_read (p + off_clb) h2 = (?c, h3)" unfolding h3_def h2_def by (rule base_reads(1) [OF hw(1)])
  have r2: "reg_read (p + off_fb) h4 = (?f, h5)"
    unfolding h5_def h4_def by (intro prod_eqI) (simp_all add: base_reads(2) [OF hw(2)])
  have "last_write (trace h3) (p + off_clb) = ?c"
    by (simp add: h2_def h3_def reg_read_def reg_write_def Let_def port_offsets)
  then have r3: "reg_read (p + off_clb) h5 = (?c, h6)"
    unfolding h6_def h5_def h4_def by (intro prod_eqI) (simp_all add: base_reads(3) [OF hw(2)])
  obtain h7 where h7: "start_cmd p h6 = Some h7"
    using start_idle [of p h6] idle_same(1) [OF s6] assms(2) by blast
  have "port_rebase p (of_nat n) h m = Some (h7, rebase_loop ?c (of_nat n) 0
      (snd (memset (snd (memset m ?c 0 1024)) ?f 0 256)))"
    using h1(1) h7 by (simp add: port_rebase_def r1 r2 r3 h2_def [symmetric] h4_def [symmetric])
  then show ?thesis using rebase_loop_ready [OF assms(1), of 0] by simp
qed

text \<open>The same with the addresses written out; no two headers share a table.\<close>

lemma slot_ready_table:
  assumes "n < 32" and "j < 32" and "slot_ready n (of_nat j) m"
  shows "get_ctba m (of_nat (0x400000 + 1024 * n + 32 * j)) = of_nat (0x40A000 + 8192 * n + 256 * j)"
    and "get_prdtl m (of_nat (0x400000 + 1024 * n + 32 * j)) = 8"
    and "in_rng (of_nat (0x40A000 + 8192 * n + 256 * j)) 256 a \<Longrightarrow> m a = 0"
proof -
  have "clb_addr (of_nat n) + 32 * of_nat j = of_nat (0x400000 + 1024 * n + 32 * j)"
    using region_addresses(1) [OF assms(1,2)] by simp
  then show "get_ctba m (of_nat (0x400000 + 1024 * n + 32 * j)) = of_nat (0x40A000 + 8192 * n + 256 * j)"
    and "get_prdtl m (of_nat (0x400000 + 1024 * n + 32 * j)) = 8"
    and "in_rng (of_nat (0x40A000 + 8192 * n + 256 * j)) 256 a \<Longrightarrow> m a = 0"
    using assms(3) unfolding slot_ready_def region_addresses(3) [OF assms(1,2)] by simp_all
qed

lemma tables_disjoint:
  assumes "n < 32" and "i < j" and "j < 32"
  shows "rng_disj (of_nat (0x40A000 + 8192 * n + 256 * i)) 256 (of_nat (0x40A000 + 8192 * n + 256 * j)) 256"
  using rng_disj_offsets [of "0x40A000 + 8192 * n + 256 * i" 256 "0x40A000 + 8192 * n + 256 * j" 256 0] assms by simp

end
