(* ===== verification/Usb.thy ===== *)
theory Usb
  imports Hardware Printk
begin

text \<open>
  The USB driver of \<open>libs/Drivers/usb.c\<close>: PCI configuration reads through 8-bit port accesses,
  the search for a host controller, the placeholder control transfer, and the enumeration.
\<close>

section \<open>The model\<close>

record usb_endpoint =
  endpoint_address :: u8
  transfer_type :: u8
  direction :: u8
  max_packet_size :: u16
  polling_interval :: u8

record usb_device_t =
  usb_address :: u8
  class_code :: u8
  subclass_code :: u8
  protocol_code :: u8
  num_endpoints :: u8
  endpoints :: "usb_endpoint list"

record usb_host_controller_t =
  base_address :: u32
  hc_type :: u8
  initialized :: bool

record usb_state =
  us_hw :: hw
  us_con :: console
  usb_hc :: usb_host_controller_t
  usb_devicesclass :: "nat \<Rightarrow> usb_device_t"

definition PCI_CONFIG_ADDRESS :: u16 where "PCI_CONFIG_ADDRESS = 0xCF8"
definition PCI_CONFIG_DATA :: u16 where "PCI_CONFIG_DATA = 0xCFC"

text \<open>\<open>outb\<close> keeps the low byte of the address, and \<open>inb\<close> reads one byte of the register.\<close>

definition pci_read_config :: "u8 \<Rightarrow> u8 \<Rightarrow> u8 \<Rightarrow> u8 \<Rightarrow> usb_state \<Rightarrow> u32 \<times> usb_state" where
  "pci_read_config bus slot func offset s =
     (let address = push_bit 31 1 OR push_bit 16 (ucast bus) OR push_bit 11 (ucast slot) OR
                    push_bit 8 (ucast func) OR (ucast offset AND 0xFC) :: u32;
          (v, h) = inb PCI_CONFIG_DATA (outb PCI_CONFIG_ADDRESS (ucast address) (us_hw s))
      in (ucast v, s\<lparr>us_hw := h\<rparr>))"

text \<open>The body of the innermost loop: \<open>None\<close> in the first component is "continue".\<close>

definition probe_function :: "u8 \<Rightarrow> u8 \<Rightarrow> u8 \<Rightarrow> usb_state \<Rightarrow> (bool \<times> usb_state) option" where
  "probe_function bus slot func s =
     (let (vendor_device, s1) = pci_read_config bus slot func 0x00 s;
          vendor_id = ucast (vendor_device AND 0xFFFF) :: u16
      in if vendor_id = 0xFFFF then Some (False, s1)
         else let (c1, s2) = pci_read_config bus slot func 0x08 s1;
                  class = ucast (drop_bit 24 c1) :: u8;
                  (c2, s3) = pci_read_config bus slot func 0x08 s2;
                  subclass = ucast (drop_bit 16 c2 AND 0xFF) :: u8
              in if class = 0x0C \<and> subclass = 0x03 then
                   let (c3, s4) = pci_read_config bus slot func 0x08 s3;
                       prog_if = ucast (drop_bit 8 c3 AND 0xFF) :: u8;
                       (c4, s5) = pci_read_config bus slot func 0x10 s4
                   in do {
                     c \<leftarrow> kprint ''USB Host Controller detected: '' [] (us_con s5);
                     Some (True, s5\<lparr>us_con := c,
                       usb_hc := \<lparr>base_address = c4 AND 0xFFFFFFF0, hc_type = prog_if AND 0xF0,
                                  initialized = True\<rparr>\<rparr>)
                   }
                 else Some (False, s3))"

function detect_funcs :: "u8 \<Rightarrow> u8 \<Rightarrow> u8 \<Rightarrow> usb_state \<Rightarrow> (bool \<times> usb_state) option" where
  "detect_funcs bus slot func s =
     (if func < 8 then do {
        (found, s1) \<leftarrow> probe_function bus slot func s;
        if found then Some (True, s1) else detect_funcs bus slot (func + 1) s1
      } else Some (False, s))"
  by pat_completeness auto
termination
  by (relation "measure (\<lambda>(b, l, f, s). unat (8 :: u8) - unat f)") (auto dest: count_measure)

function detect_slots :: "u8 \<Rightarrow> u8 \<Rightarrow> usb_state \<Rightarrow> (bool \<times> usb_state) option" where
  "detect_slots bus slot s =
     (if slot < 32 then do {
        (found, s1) \<leftarrow> detect_funcs bus slot 0 s;
        if found then Some (True, s1) else detect_slots bus (slot + 1) s1
      } else Some (False, s))"
  by pat_completeness auto
termination
  by (relation "measure (\<lambda>(b, l, s). unat (32 :: u8) - unat l)") (auto dest: count_measure)

declare detect_funcs.simps [simp del] detect_slots.simps [simp del]

text \<open>\<open>bus\<close> is a \<open>uint8_t\<close>: the comparison with 256 is always true.\<close>

partial_function (option) detect_buses :: "u8 \<Rightarrow> usb_state \<Rightarrow> (bool \<times> usb_state) option" where
  "detect_buses bus s =
     (if unat bus < 256 then do {
        (found, s1) \<leftarrow> detect_slots bus 0 s;
        if found then Some (True, s1) else detect_buses (bus + 1) s1
      } else Some (False, s))"

definition detect_usb_host_controller :: "usb_state \<Rightarrow> (bool \<times> usb_state) option" where
  "detect_usb_host_controller s = detect_buses 0 s"

definition usb_control_transfer ::
    "usb_device_t \<Rightarrow> u8 \<Rightarrow> u8 \<Rightarrow> u16 \<Rightarrow> u16 \<Rightarrow> u32 \<Rightarrow> u16 \<Rightarrow> console \<Rightarrow> (bool \<times> console) option" where
  "usb_control_transfer device request_type request value index data len c = do {
     c1 \<leftarrow> kprint ''Control transfer to device '' [] c;
     Some (True, c1)
   }"

definition usb_get_descriptor ::
    "usb_device_t \<Rightarrow> u8 \<Rightarrow> u8 \<Rightarrow> u32 \<Rightarrow> u16 \<Rightarrow> console \<Rightarrow> (bool \<times> console) option" where
  "usb_get_descriptor device descriptor_type index buffer len c =
     usb_control_transfer device 0x80 0x06 (push_bit 8 (ucast descriptor_type) OR ucast index) 0 buffer len c"

lemma address_measure: "a \<le> 127 \<Longrightarrow> 128 - unat (a + 1) < 128 - unat (a :: u8)"
proof -
  assume "a \<le> 127"
  then have "a < 128" by (simp add: word_less_nat_alt word_le_nat_alt)
  then show ?thesis using count_measure [of a 128] by simp
qed

text \<open>
  \<open>device_descriptor\<close> is an uninitialised array that nothing fills: \<open>junk address\<close> are the
  three bytes read from it in the turn for \<open>address\<close>; \<open>buf\<close> is its address.
\<close>

definition new_device :: "u8 \<Rightarrow> usb_device_t" where
  "new_device address =
     \<lparr>usb_address = address, class_code = 0, subclass_code = 0, protocol_code = 0,
      num_endpoints = 0,
      endpoints = replicate 16 \<lparr>endpoint_address = 0, transfer_type = 0, direction = 0,
                                max_packet_size = 0, polling_interval = 0\<rparr>\<rparr>"

function enumerate_loop ::
    "(u8 \<Rightarrow> u8 \<times> u8 \<times> u8) \<Rightarrow> u32 \<Rightarrow> s32 \<Rightarrow> u8 \<Rightarrow> nat \<Rightarrow> (nat \<Rightarrow> usb_device_t) \<Rightarrow> console \<Rightarrow>
     (nat \<times> (nat \<Rightarrow> usb_device_t) \<times> console) option" where
  "enumerate_loop junk buf max_devices address device_count device_list c =
     (if address \<le> 127 \<and> int device_count < sint max_devices then do {
        let device = new_device address;
        (ok, c1) \<leftarrow> usb_get_descriptor device 0x01 0 buf 18 c;
        if \<not> ok then enumerate_loop junk buf max_devices (address + 1) device_count device_list c1
        else case junk address of (d4, d5, d6) \<Rightarrow>
          enumerate_loop junk buf max_devices (address + 1) (device_count + 1)
            (device_list(device_count :=
               device\<lparr>class_code := d4, subclass_code := d5, protocol_code := d6\<rparr>)) c1
      } else Some (device_count, device_list, c))"
  by pat_completeness auto
termination
  by (relation "measure (\<lambda>(j, b, mx, a, n, l, c). 128 - unat a)") (auto dest: address_measure)

declare enumerate_loop.simps [simp del]

definition usb_enumerate_devices ::
    "(u8 \<Rightarrow> u8 \<times> u8 \<times> u8) \<Rightarrow> u32 \<Rightarrow> (nat \<Rightarrow> usb_device_t) \<Rightarrow> s32 \<Rightarrow> console \<Rightarrow>
     (nat \<times> (nat \<Rightarrow> usb_device_t) \<times> console) option" where
  "usb_enumerate_devices junk buf device_list max_devices c =
     enumerate_loop junk buf max_devices 1 0 device_list c"

definition usb_driver_init :: "(u8 \<Rightarrow> u8 \<times> u8 \<times> u8) \<Rightarrow> u32 \<Rightarrow> usb_state \<Rightarrow> usb_state option" where
  "usb_driver_init junk buf s = do {
     (found, s1) \<leftarrow> detect_usb_host_controller s;
     if \<not> found then do {
       c \<leftarrow> kprint ''No USB Host Controller found!'' [] (us_con s1);
       Some (s1\<lparr>us_con := c\<rparr>)
     }
     else do {
       (n, devs, c) \<leftarrow> usb_enumerate_devices junk buf (usb_devicesclass s1) 128 (us_con s1);
       c2 \<leftarrow> (if n \<noteq> 0 then kprint ''USB Keyboard detected!'' [] c else kprint ''No USB Keyboard found.'' [] c);
       Some (s1\<lparr>us_con := c2, usb_devicesclass := devs\<rparr>)
     }
   }"

section \<open>The search never succeeds and never ends\<close>

text \<open>A configuration read yields one byte, so its class and subclass fields are zero.\<close>

lemma config_byte: "unat (fst (pci_read_config bus slot func offset s)) < 256"
  by (auto simp: pci_read_config_def Let_def inb_def unat8_less split: prod.splits)

lemma no_class: "drop_bit 24 (fst (pci_read_config bus slot func offset s)) = 0"
  using config_byte [of bus slot func offset s]
  by (simp add: drop_bit_eq_div word_unat_eq_iff unat_div)

lemma probe_nothing: "\<exists>s'. probe_function bus slot func s = Some (False, s')"
proof -
  obtain v1 s1 where 1: "pci_read_config bus slot func 0 s = (v1, s1)" by fastforce
  obtain v2 s2 where 2: "pci_read_config bus slot func 8 s1 = (v2, s2)" by fastforce
  obtain v3 s3 where 3: "pci_read_config bus slot func 8 s2 = (v3, s3)" by fastforce
  have "drop_bit 24 v2 = 0" using no_class [of bus slot func 8 s1] 2 by simp
  then show ?thesis using 1 2 3 by (simp add: probe_function_def)
qed

lemma funcs_nothing:
  assumes "func \<le> 8"
  shows "\<exists>s'. detect_funcs bus slot func s = Some (False, s')"
  using assms
proof (induction arbitrary: s rule: count_induct)
  case stop
  show ?case by (simp add: detect_funcs.simps [of bus slot 8 s])
next
  case (step func)
  then show ?case
    using probe_nothing [of bus slot func s] by (auto simp: detect_funcs.simps [of bus slot func s])
qed

lemma slots_nothing:
  assumes "slot \<le> 32"
  shows "\<exists>s'. detect_slots bus slot s = Some (False, s')"
  using assms
proof (induction arbitrary: s rule: count_induct)
  case stop
  show ?case by (simp add: detect_slots.simps [of bus 32 s])
next
  case (step slot)
  then show ?case
    using funcs_nothing [of 0 bus slot s] by (auto simp: detect_slots.simps [of bus slot s])
qed

lemma detect_diverges: "detect_buses bus s = None"
proof (rule ccontr)
  assume "detect_buses bus s \<noteq> None"
  then obtain r where r: "detect_buses bus s = Some r" by auto
  have nf: "detect_slots b 0 t \<noteq> Some (True, t')" for b t t'
    using slots_nothing [of 0 b t] by auto
  show False
    by (rule detect_buses.raw_induct [where P = "\<lambda>_ _ _. False", OF _ r])
       (use unat8_less in \<open>auto split: if_splits simp: nf dest!: bind_SomeD\<close>)
qed

lemma usb_driver_init_diverges: "usb_driver_init junk buf s = None"
  by (simp add: usb_driver_init_def detect_usb_host_controller_def detect_diverges)

section \<open>The enumeration finds a device at every address\<close>

lemma transfer_succeeds:
  assumes "con_ok c"
  shows "\<exists>c'. usb_control_transfer d rt rq v ix p n c = Some (True, c') \<and> con_ok c'"
proof -
  have "\<exists>c'. kprint ''Control transfer to device '' [] c = Some c' \<and>
      printed c (lit ''Control transfer to device '') c'"
    using assms by (intro kprint_plain) (simp_all add: ch_def)
  then show ?thesis using printed_ok assms by (auto simp: usb_control_transfer_def)
qed

lemma enumerate_all:
  assumes "con_ok c" and "0 \<le> sint mx" and "unat a = n + 1" and "n \<le> min 127 (nat (sint mx))"
  shows "\<exists>l' c'. enumerate_loop junk buf mx a n l c = Some (min 127 (nat (sint mx)), l', c') \<and>
    con_ok c' \<and> (\<forall>i. if n \<le> i \<and> i < min 127 (nat (sint mx)) then usb_address (l' i) = of_nat (i + 1)
      else l' i = l i)"
  using assms(1,3,4)
proof (induction "128 - n" arbitrary: a n l c)
  case (Suc k)
  show ?case
  proof (cases "n < min 127 (nat (sint mx))")
    case False
    then have "\<not> (a \<le> 127 \<and> int n < sint mx)" using Suc.prems by (auto simp: word_le_nat_alt)
    then show ?thesis
      using Suc.prems False
      by (intro exI [of _ l] exI [of _ c]) (auto simp: enumerate_loop.simps [of junk buf mx a n l c])
  next
    case True
    then have go: "a \<le> 127 \<and> int n < sint mx" using Suc.prems by (auto simp: word_le_nat_alt)
    obtain c1 where c1: "usb_get_descriptor (new_device a) 1 0 buf 18 c = Some (True, c1)" "con_ok c1"
      using transfer_succeeds [OF Suc.prems(1)] by (fastforce simp: usb_get_descriptor_def)
    obtain x y z where j: "junk a = (x, y, z)" by (cases "junk a")
    let ?d = "new_device a\<lparr>class_code := x, subclass_code := y, protocol_code := z\<rparr>"
    have step: "enumerate_loop junk buf mx a n l c =
        enumerate_loop junk buf mx (a + 1) (n + 1) (l(n := ?d)) c1"
      using go c1 j by (simp add: enumerate_loop.simps [of junk buf mx a n l c])
    have "unat (a + 1) = (n + 1) + 1"
      using unat_Suc_less [of a 128] Suc.prems True by (simp add: word_less_nat_alt)
    from Suc.hyps(1) [OF _ c1(2) this, of "l(n := ?d)"] Suc.hyps(2) True
    obtain l' c' where r: "enumerate_loop junk buf mx (a + 1) (n + 1) (l(n := ?d)) c1 =
        Some (min 127 (nat (sint mx)), l', c')" "con_ok c'"
      "\<forall>i. if n + 1 \<le> i \<and> i < min 127 (nat (sint mx)) then usb_address (l' i) = of_nat (i + 1)
        else l' i = (l(n := ?d)) i"
      by fastforce
    have a: "a = of_nat (n + 1)" unfolding Suc.prems(2) [symmetric] by simp
    have "if n \<le> i \<and> i < min 127 (nat (sint mx)) then usb_address (l' i) = of_nat (i + 1)
        else l' i = l i" for i
      using r(3) [rule_format, of i] True a by (cases "i = n") (auto simp: new_device_def)
    then show ?thesis using step r(1,2) by auto
  qed
qed simp

lemma usb_enumerate_all:
  assumes "con_ok c" and "0 \<le> sint mx"
  shows "\<exists>l' c'. usb_enumerate_devices junk buf l mx c = Some (min 127 (nat (sint mx)), l', c') \<and>
    (\<forall>i < min 127 (nat (sint mx)). usb_address (l' i) = of_nat (i + 1))"
  using enumerate_all [OF assms, of 1 0 junk buf l] by (fastforce simp: usb_enumerate_devices_def)

end
