(* ===== verification/Layouts.thy ===== *)
theory Layouts
  imports Prelude
begin

text \<open>
  The translation tables of \<open>libs/BuiltIn/keyboard_layouts.h\<close> and the scancode table of
  \<open>libs/Drivers/keyboard.c\<close>. A designated initialiser is a list of (index, value) pairs, and the
  entries it does not name are zero. A character constant that UTF-8 encodes in two bytes
  is a multi-character constant, of which a \<open>char\<close> keeps the last byte.
\<close>

section \<open>Layouts\<close>

datatype KeyboardLayout = LAYOUT_US | LAYOUT_DE | LAYOUT_FR | LAYOUT_ES | LAYOUT_RU

fun layout_code :: "KeyboardLayout \<Rightarrow> nat" where
  "layout_code LAYOUT_US = 0"
| "layout_code LAYOUT_DE = 1"
| "layout_code LAYOUT_FR = 2"
| "layout_code LAYOUT_ES = 3"
| "layout_code LAYOUT_RU = 4"

definition LAYOUT_COUNT :: nat where "LAYOUT_COUNT = 5"

lemma layout_code_less: "layout_code l < LAYOUT_COUNT"
  by (cases l) (simp_all add: LAYOUT_COUNT_def)

text \<open>The key characters, in the order in which the initialisers name them.\<close>

definition us_keys :: "u8 list" where
  "us_keys = lit ''1234567890-=qwertyuiop[]asdfghjkl;'' @ [0x27, 0x60, 0x5C] @ lit ''zxcvbnm,./ ''"

definition de_chars :: "u8 list" where
  "de_chars = lit ''1234567890'' @ [0x9F, 0xB4] @ lit ''qwertzuiop'' @ [0xBC] @ lit ''+asdfghjkl'' @
     [0xB6, 0xA4] @ lit ''^#yxcvbnm,.- ''"

definition us_shifted_chars :: "u8 list" where
  "us_shifted_chars = lit ''!@#$%^&*()_+QWERTYUIOP{}ASDFGHJKL:'' @ [0x22] @ lit ''~|ZXCVBNM<>? ''"

definition de_shifted_chars :: "u8 list" where
  "de_shifted_chars = lit ''!'' @ [0x22, 0xA7] @ lit ''$%&/()=?'' @ [0x60] @ lit ''QWERTZUIOP'' @ [0x9C] @
     lit ''*ASDFGHJKL'' @ [0x96, 0x84, 0xB0, 0x27] @ lit ''YXCVBNM;:_ ''"

text \<open>One row of a table, and a table of five rows of 128 bytes: the missing rows are zero.\<close>

definition row :: "(u8 \<times> u8) list \<Rightarrow> nat \<Rightarrow> u8" where
  "row ps i = (case map_of ps (of_nat i) of Some v \<Rightarrow> v | None \<Rightarrow> 0)"

fun us_ascii_to_layout_row :: "KeyboardLayout \<Rightarrow> nat \<Rightarrow> u8" where
  "us_ascii_to_layout_row LAYOUT_US = row (zip us_keys us_keys)"
| "us_ascii_to_layout_row LAYOUT_DE = row (zip us_keys de_chars)"
| "us_ascii_to_layout_row _ = row []"

fun shifted_layout_row :: "KeyboardLayout \<Rightarrow> nat \<Rightarrow> u8" where
  "shifted_layout_row LAYOUT_US = row (zip us_keys us_shifted_chars)"
| "shifted_layout_row LAYOUT_DE = row (zip us_keys de_shifted_chars)"
| "shifted_layout_row _ = row []"

text \<open>
  \<open>table[layout][key]\<close> with a \<open>uint8_t\<close> key: beyond 127 the access runs into the next row,
  and after the last row into whatever follows the table, \<open>past\<close>.
\<close>

fun next_layout :: "KeyboardLayout \<Rightarrow> KeyboardLayout option" where
  "next_layout LAYOUT_US = Some LAYOUT_DE"
| "next_layout LAYOUT_DE = Some LAYOUT_FR"
| "next_layout LAYOUT_FR = Some LAYOUT_ES"
| "next_layout LAYOUT_ES = Some LAYOUT_RU"
| "next_layout LAYOUT_RU = None"

definition table_at ::
    "(KeyboardLayout \<Rightarrow> nat \<Rightarrow> u8) \<Rightarrow> (nat \<Rightarrow> u8) \<Rightarrow> KeyboardLayout \<Rightarrow> u8 \<Rightarrow> u8" where
  "table_at rows past layout key =
     (if unat key < 128 then rows layout (unat key)
      else case next_layout layout of
        Some l \<Rightarrow> rows l (unat key - 128)
      | None \<Rightarrow> past (unat key - 128))"

definition us_ascii_to_layout :: "(nat \<Rightarrow> u8) \<Rightarrow> KeyboardLayout \<Rightarrow> u8 \<Rightarrow> u8" where
  "us_ascii_to_layout = table_at us_ascii_to_layout_row"

definition shifted_layout :: "(nat \<Rightarrow> u8) \<Rightarrow> KeyboardLayout \<Rightarrow> u8 \<Rightarrow> u8" where
  "shifted_layout = table_at shifted_layout_row"

section \<open>Scancodes\<close>

definition scancode_list :: "u8 list" where
  "scancode_list = [0, 1] @ lit ''1234567890-='' @ [2, ch CHR '' ''] @ lit ''qwertyuiop[]'' @ [4, 5] @
     lit ''asdfghjkl;'' @ [0x27, 0x60, 6, 0x5C] @ lit ''zxcvbnm,./'' @ [7, ch CHR ''*'', 8, ch CHR '' '']"

text \<open>The table of 128 entries, indexed by a byte: from 128 on, the bytes after the table.\<close>

definition scancode_to_ascii :: "(nat \<Rightarrow> u8) \<Rightarrow> u8 \<Rightarrow> u8" where
  "scancode_to_ascii past i =
     (if unat i < length scancode_list then scancode_list ! unat i
      else if unat i < 128 then 0 else past (unat i - 128))"

definition us_scancode_list :: "u8 list" where
  "us_scancode_list = [0, 0] @ lit ''1234567890-='' @ [0, 0] @ lit ''qwertyuiop[]'' @ [0, 0] @
     lit ''asdfghjkl;'' @ [0x27, 0x60, 0, 0x5C] @ lit ''zxcvbnm,./'' @ [0, 0, 0, ch CHR '' '']"

definition scancode_to_us_ascii :: "(nat \<Rightarrow> u8) \<Rightarrow> u8 \<Rightarrow> u8" where
  "scancode_to_us_ascii past i =
     (if unat i < length us_scancode_list then us_scancode_list ! unat i
      else if unat i < 128 then 0 else past (unat i - 128))"

section \<open>What the tables give\<close>

lemma row_Nil [simp]: "row [] i = 0"
  by (simp add: row_def)

text \<open>The French, Spanish and Russian layouts are empty: every key gives NUL.\<close>

lemma empty_layouts:
  assumes "l \<in> {LAYOUT_FR, LAYOUT_ES, LAYOUT_RU}" and "unat key < 128"
  shows "us_ascii_to_layout past l key = 0" and "shifted_layout past l key = 0"
  using assms by (auto simp: us_ascii_to_layout_def shifted_layout_def table_at_def)

lemma key_lists_length:
  "length de_chars = length us_keys" "length us_shifted_chars = length us_keys"
  "length de_shifted_chars = length us_keys"
  by (simp_all add: us_keys_def de_chars_def us_shifted_chars_def de_shifted_chars_def)

lemma us_keys_distinct: "distinct us_keys"
  by (simp add: us_keys_def ch_def)

lemma row_zip:
  assumes "distinct ks" and "length vs = length ks" and "i < length ks"
  shows "row (zip ks vs) (unat (ks ! i)) = vs ! i"
proof -
  have "map_of (zip ks vs) (ks ! i) = Some (vs ! i)"
    using assms by (simp add: map_of_zip_nth)
  then show ?thesis by (simp add: row_def)
qed

lemma us_keys_ascii: "c \<in> set us_keys \<Longrightarrow> unat c < 128"
  by (auto simp: us_keys_def ch_def)

text \<open>The US layout is the identity on its keys.\<close>

lemma us_layout_id:
  assumes "c \<in> set us_keys"
  shows "us_ascii_to_layout past LAYOUT_US c = c"
proof -
  obtain i where "i < length us_keys" "c = us_keys ! i" using assms by (auto simp: in_set_conv_nth)
  then show ?thesis
    using us_keys_ascii [OF assms] row_zip [OF us_keys_distinct, of us_keys i]
    by (simp add: us_ascii_to_layout_def table_at_def)
qed

text \<open>Every printable key of the keyboard is a key of the layouts, except \<open>*\<close> of the number pad.\<close>

lemma scancode_keys:
  assumes "unat i < length scancode_list"
  shows "scancode_to_ascii past i \<in> set us_keys \<union> {0, 1, 2, 4, 5, 6, 7, 8, ch CHR ''*''}"
proof -
  have "set scancode_list \<subseteq> set us_keys \<union> {0, 1, 2, 4, 5, 6, 7, 8, ch CHR ''*''}"
    by (simp add: scancode_list_def us_keys_def ch_def)
  from subsetD [OF this nth_mem [OF assms]] show ?thesis
    using assms by (simp only: scancode_to_ascii_def if_True)
qed

end
