(* ===== verification/Keyboard.thy ===== *)
theory Keyboard
  imports Usb Layouts
begin

text \<open>
  The keyboard driver of \<open>libs/Drivers/keyboard.c\<close>: the PS/2 controller (polling with a timeout,
  initialisation) and the USB keyboard.
\<close>

section \<open>The model\<close>

definition PS2_DATA_PORT :: u16 where "PS2_DATA_PORT = 0x60"
definition PS2_STATUS_PORT :: u16 where "PS2_STATUS_PORT = 0x64"
definition PS2_COMMAND_PORT :: u16 where "PS2_COMMAND_PORT = 0x64"
definition PS2_STATUS_OUTPUT_FULL :: u8 where "PS2_STATUS_OUTPUT_FULL = 1"

text \<open>
  \<open>usb_devices\<close> is indexed by a byte, although the array has 128 entries: the entries from 128 on
  stand for the memory after it. \<open>past_scancodes\<close> are the bytes after \<open>scancode_to_ascii\<close>.
\<close>

record keyboard =
  kb_hw :: hw
  kb_con :: console
  usb_devices :: "u8 \<Rightarrow> usb_device_t"
  usb_keyboard_device :: "u8 option"
  past_scancodes :: "nat \<Rightarrow> u8"

function ps2_wait_loop :: "u16 \<Rightarrow> hw \<Rightarrow> bool \<times> hw" where
  "ps2_wait_loop timeout h =
     (if timeout = 0 then (False, h)
      else case inb PS2_STATUS_PORT h of (v, h1) \<Rightarrow>
        if v AND PS2_STATUS_OUTPUT_FULL \<noteq> 0 then (True, h1) else ps2_wait_loop (timeout - 1) h1)"
  by pat_completeness auto
termination
  by (relation "measure (\<lambda>(t, h). unat t)") (auto simp: unat_minus_one unat_gt_0)

declare ps2_wait_loop.simps [simp del]

definition ps2_keyboard_wait_for_input :: "hw \<Rightarrow> bool \<times> hw" where
  "ps2_keyboard_wait_for_input h = ps2_wait_loop 10000 h"

definition ps2_keyboard_read_data :: "keyboard \<Rightarrow> u8 \<times> keyboard" where
  "ps2_keyboard_read_data k =
     (case ps2_keyboard_wait_for_input (kb_hw k) of (ready, h1) \<Rightarrow>
        if ready then case inb PS2_DATA_PORT h1 of
            (code, h2) \<Rightarrow> (scancode_to_ascii (past_scancodes k) code, k\<lparr>kb_hw := h2\<rparr>)
        else (0, k\<lparr>kb_hw := h1\<rparr>))"

partial_function (option) ps2_flush :: "hw \<Rightarrow> hw option" where
  "ps2_flush h =
     (if fst (inb PS2_STATUS_PORT h) AND PS2_STATUS_OUTPUT_FULL \<noteq> 0
      then ps2_flush (snd (inb PS2_DATA_PORT (snd (inb PS2_STATUS_PORT h))))
      else Some (snd (inb PS2_STATUS_PORT h)))"

definition ps2_keyboard_init :: "keyboard \<Rightarrow> keyboard option" where
  "ps2_keyboard_init k = do {
     let h1 = outb PS2_COMMAND_PORT 0xA7 (outb PS2_COMMAND_PORT 0xAD (kb_hw k));
     h2 \<leftarrow> ps2_flush h1;
     let h3 = outb PS2_COMMAND_PORT 0xA8 (outb PS2_COMMAND_PORT 0xAE h2);
     let h4 = outb PS2_COMMAND_PORT 0x20 h3;
     let (v, h5) = inb PS2_DATA_PORT h4;
     let status = v OR 0x01;
     let h6 = outb PS2_DATA_PORT status (outb PS2_COMMAND_PORT 0x60 h5);
     c \<leftarrow> kprint (''PS/2 Keyboard Initialized'' @ [CHR 0x0A]) [] (kb_con k);
     Some (k\<lparr>kb_hw := h6, kb_con := c\<rparr>)
   }"

definition is_usb_keyboard :: "usb_device_t \<Rightarrow> bool" where
  "is_usb_keyboard d \<longleftrightarrow> class_code d = 0x03 \<and> subclass_code d = 0x01 \<and> protocol_code d = 0x01"

text \<open>\<open>i\<close> is a \<open>uint8_t\<close>: the comparison with 256 is always true.\<close>

partial_function (option) usb_keyboard_loop :: "u8 \<Rightarrow> keyboard \<Rightarrow> (bool \<times> keyboard) option" where
  "usb_keyboard_loop i k =
     (if unat i < 256 then
        if is_usb_keyboard (usb_devices k i) then do {
          c \<leftarrow> kprint (''USB Keyboard Found at Address: %d'' @ [CHR 0x0A])
                 [ucast (usb_address (usb_devices k i))] (kb_con k);
          Some (True, k\<lparr>usb_keyboard_device := Some i, kb_con := c\<rparr>)
        }
        else usb_keyboard_loop (i + 1) k
      else do {
        c \<leftarrow> kprint (''No USB Keyboard Found'' @ [CHR 0x0A]) [] (kb_con k);
        Some (False, k\<lparr>kb_con := c\<rparr>)
      })"

definition usb_keyboard_init :: "keyboard \<Rightarrow> (bool \<times> keyboard) option" where
  "usb_keyboard_init k = usb_keyboard_loop 0 k"

text \<open>\<open>buf\<close> is the address of the uninitialised report buffer, \<open>junk\<close> its third byte.\<close>

definition usb_keyboard_read_key :: "u32 \<Rightarrow> u8 \<Rightarrow> keyboard \<Rightarrow> (u8 \<times> keyboard) option" where
  "usb_keyboard_read_key buf junk k =
     (case usb_keyboard_device k of
        None \<Rightarrow> Some (0, k)
      | Some i \<Rightarrow> do {
          (ok, c) \<leftarrow> usb_control_transfer (usb_devices k i) 0x81 0x06 0x0100 0 buf 8 (kb_con k);
          Some (if ok then junk else 0, k\<lparr>kb_con := c\<rparr>)
        })"

definition keyboard_init :: "keyboard \<Rightarrow> keyboard option" where
  "keyboard_init k = do {
     k1 \<leftarrow> ps2_keyboard_init k;
     (found, k2) \<leftarrow> usb_keyboard_init k1;
     if \<not> found then do {
       c \<leftarrow> kprint (''Falling back to PS/2 Keyboard'' @ [CHR 0x0A]) [] (kb_con k2);
       Some (k2\<lparr>kb_con := c\<rparr>)
     }
     else Some k2
   }"

definition keyboard_read_key :: "u32 \<Rightarrow> u8 \<Rightarrow> keyboard \<Rightarrow> (u8 \<times> keyboard) option" where
  "keyboard_read_key buf junk k =
     (if usb_keyboard_device k \<noteq> None then usb_keyboard_read_key buf junk k
      else Some (ps2_keyboard_read_data k))"

section \<open>Polling the PS/2 controller\<close>

text \<open>
  \<open>status n h\<close>: the \<open>n\<close>-th status byte that polling reads, with nothing else accessed between.
\<close>

fun polled :: "nat \<Rightarrow> hw \<Rightarrow> hw" where
  "polled 0 h = h"
| "polled (Suc n) h = polled n (snd (inb PS2_STATUS_PORT h))"

definition output_full :: "nat \<Rightarrow> hw \<Rightarrow> bool" where
  "output_full n h \<longleftrightarrow> fst (inb PS2_STATUS_PORT (polled n h)) AND PS2_STATUS_OUTPUT_FULL \<noteq> 0"

lemma output_full_Suc: "output_full (Suc n) h \<longleftrightarrow> output_full n (snd (inb PS2_STATUS_PORT h))"
  by (simp add: output_full_def)

text \<open>The wait ends at the first status byte with the bit set, and gives up after \<open>timeout\<close> reads.\<close>

lemma ps2_wait_loop_cases:
  "(\<exists>n < unat t. output_full n h \<and> (\<forall>j < n. \<not> output_full j h) \<and>
      ps2_wait_loop t h = (True, polled (Suc n) h)) \<or>
   (\<forall>j < unat t. \<not> output_full j h) \<and> ps2_wait_loop t h = (False, polled (unat t) h)"
proof (induction "unat t" arbitrary: t h)
  case 0
  then have "t = 0" by (simp add: unat_eq_zero)
  then show ?case by (simp add: ps2_wait_loop.simps [of 0 h])
next
  case (Suc n)
  then have nz: "t \<noteq> 0" by auto
  then have n: "n = unat (t - 1)" using Suc(2) by (simp add: unat_minus_one)
  obtain v h1 where i: "inb PS2_STATUS_PORT h = (v, h1)" by (cases "inb PS2_STATUS_PORT h")
  have h1: "h1 = snd (inb PS2_STATUS_PORT h)" using i by simp
  show ?case
  proof (cases "output_full 0 h")
    case True
    then have "ps2_wait_loop t h = (True, polled (Suc 0) h)"
      using nz i by (simp add: ps2_wait_loop.simps [of t h] output_full_def)
    then show ?thesis using True Suc(2) by (intro disjI1 exI [of _ 0]) auto
  next
    case False
    then have step: "ps2_wait_loop t h = ps2_wait_loop (t - 1) h1"
      using nz i by (simp add: ps2_wait_loop.simps [of t h] output_full_def)
    have all: "(\<forall>j < Suc k. \<not> output_full j h) \<longleftrightarrow> (\<forall>j < k. \<not> output_full j h1)" for k
      using False by (auto simp: less_Suc_eq_0_disj output_full_Suc h1)
    from Suc(1) [OF n, of h1] show ?thesis
    proof (elim disjE exE conjE)
      fix j assume "j < unat (t - 1)" "output_full j h1" "\<forall>i < j. \<not> output_full i h1"
        "ps2_wait_loop (t - 1) h1 = (True, polled (Suc j) h1)"
      then show ?thesis using step all [of j] n Suc(2)
        by (intro disjI1 exI [of _ "Suc j"]) (simp add: output_full_Suc h1)
    next
      assume "\<forall>j < unat (t - 1). \<not> output_full j h1"
        "ps2_wait_loop (t - 1) h1 = (False, polled (unat (t - 1)) h1)"
      then show ?thesis using step all [of n] n Suc(2) by (metis h1 polled.simps(2))
    qed
  qed
qed

lemma ps2_wait_iff: "fst (ps2_keyboard_wait_for_input h) \<longleftrightarrow> (\<exists>n < 10000. output_full n h)"
  using ps2_wait_loop_cases [of 10000 h] by (auto simp: ps2_keyboard_wait_for_input_def)

lemma polled_devices: "same_devices h (polled n h)"
  by (induction n arbitrary: h)
     (auto intro: same_devices_trans [OF same_devices_io(1)])

text \<open>A key is the table entry of the byte read right after the first ready status.\<close>

lemma ps2_read_data_ready:
  assumes "output_full n (kb_hw k)" and "\<forall>j < n. \<not> output_full j (kb_hw k)" and "n < 10000"
  shows "ps2_keyboard_read_data k =
    (scancode_to_ascii (past_scancodes k) (fst (inb PS2_DATA_PORT (polled (Suc n) (kb_hw k)))),
     k\<lparr>kb_hw := snd (inb PS2_DATA_PORT (polled (Suc n) (kb_hw k)))\<rparr>)"
proof -
  have "ps2_keyboard_wait_for_input (kb_hw k) = (True, polled (Suc n) (kb_hw k))"
  proof -
    from ps2_wait_loop_cases [of 10000 "kb_hw k"] consider
      m where "output_full m (kb_hw k)" "\<forall>j < m. \<not> output_full j (kb_hw k)"
        "ps2_wait_loop 10000 (kb_hw k) = (True, polled (Suc m) (kb_hw k))"
    | "\<forall>j < 10000. \<not> output_full j (kb_hw k)" by auto
    then show ?thesis
    proof cases
      case 1
      then have "m = n" using assms(1,2) by (metis nat_neq_iff)
      then show ?thesis using 1 by (simp add: ps2_keyboard_wait_for_input_def)
    next
      case 2
      then show ?thesis using assms(1,3) by auto
    qed
  qed
  then show ?thesis
    by (simp add: ps2_keyboard_read_data_def split: prod.splits)
qed

lemma ps2_read_data_timeout:
  assumes "\<forall>j < 10000. \<not> output_full j (kb_hw k)"
  shows "ps2_keyboard_read_data k = (0, k\<lparr>kb_hw := polled 10000 (kb_hw k)\<rparr>)"
proof -
  have "ps2_wait_loop 10000 (kb_hw k) = (False, polled 10000 (kb_hw k))"
    using ps2_wait_loop_cases [of 10000 "kb_hw k"] assms by fastforce
  then show ?thesis by (simp add: ps2_keyboard_read_data_def ps2_keyboard_wait_for_input_def)
qed

section \<open>Looking for a USB keyboard\<close>

text \<open>The search returns exactly when one of the 256 indices has a keyboard; it then takes the first.\<close>

lemma usb_loop_skip:
  "\<not> is_usb_keyboard (usb_devices k i) \<Longrightarrow> usb_keyboard_loop i k = usb_keyboard_loop (i + 1) k"
  using unat8_less [of i] by (subst usb_keyboard_loop.simps) simp

lemma usb_loop_diverges:
  assumes "\<forall>i. \<not> is_usb_keyboard (usb_devices k i)"
  shows "usb_keyboard_loop i k = None"
proof (rule ccontr)
  assume "usb_keyboard_loop i k \<noteq> None"
  then obtain r where r: "usb_keyboard_loop i k = Some r" by auto
  have "\<exists>i. is_usb_keyboard (usb_devices k i)"
    by (rule usb_keyboard_loop.raw_induct
          [where P = "\<lambda>i k r. \<exists>i. is_usb_keyboard (usb_devices k i)", OF _ r])
       (use unat8_less in \<open>auto split: if_splits\<close>)
  then show False using assms by blast
qed

lemma usb_loop_found:
  assumes "con_ok (kb_con k)" and "is_usb_keyboard (usb_devices k i)"
  shows "\<exists>c. usb_keyboard_loop i k = Some (True, k\<lparr>usb_keyboard_device := Some i, kb_con := c\<rparr>) \<and> con_ok c"
proof -
  let ?f = "''USB Keyboard Found at Address: %d'' @ [CHR 0x0A]" and ?x = "ucast (usb_address (usb_devices k i)) :: u32"
  have "sint ?x = int (unat (usb_address (usb_devices k i)))"
    using unat8_less [of "usb_address (usb_devices k i)"] sint_of_nat32 [of "unat ?x"] by simp
  then have "\<not> sint ?x < 0" by simp
  then have x: "sint ?x \<noteq> - (2 ^ 31)" by (auto simp del: signed_ucast_eq)
  have "length (fmt_text ?f [?x]) < 256"
    using length_itoa_text_10 [of "sint ?x"] sint_ge [of ?x] sint_lt [of ?x]
    by (simp add: fmt_text_def args_of_def ch_def)
  then have "\<exists>c'. kprint ?f [?x] (kb_con k) = Some c' \<and> printed (kb_con k) (fmt_text ?f [?x]) c'"
    using assms(1) x by (intro kprint_printed) (simp_all add: ch_def)
  then show ?thesis
    using assms unat8_less [of i] printed_ok [OF _ assms(1)]
    by (subst usb_keyboard_loop.simps) auto
qed

lemma usb_keyboard_init_first:
  assumes "con_ok (kb_con k)" and "is_usb_keyboard (usb_devices k i)"
    and "\<forall>j < i. \<not> is_usb_keyboard (usb_devices k j)"
  shows "\<exists>c. usb_keyboard_init k = Some (True, k\<lparr>usb_keyboard_device := Some i, kb_con := c\<rparr>)"
proof -
  have skip: "a \<le> i \<Longrightarrow> usb_keyboard_loop a k = usb_keyboard_loop i k" for a
  proof (induction rule: count_induct)
    case (step a)
    then have "\<not> is_usb_keyboard (usb_devices k a)" using assms(3) by blast
    from usb_loop_skip [OF this] step(2) show ?case by (rule trans)
  qed (rule refl)
  have "usb_keyboard_init k = usb_keyboard_loop i k"
    unfolding usb_keyboard_init_def by (rule skip) simp
  then show ?thesis using usb_loop_found [OF assms(1,2)] by (metis (no_types))
qed

lemma keyboard_init_diverges:
  assumes "\<forall>i. \<not> is_usb_keyboard (usb_devices k i)"
  shows "keyboard_init k = None"
proof (rule ccontr)
  assume "keyboard_init k \<noteq> None"
  then obtain k1 where "ps2_keyboard_init k = Some k1" "usb_keyboard_init k1 \<noteq> None"
    by (auto simp: keyboard_init_def split: option.splits Option.bind_splits)
  moreover have "usb_devices k1 = usb_devices k"
    using \<open>ps2_keyboard_init k = Some k1\<close>
    by (auto simp: ps2_keyboard_init_def Let_def split: prod.splits Option.bind_splits)
  ultimately show False using usb_loop_diverges [of k1 0] assms by (simp add: usb_keyboard_init_def)
qed

end
