(* ===== verification/Atof.thy ===== *)
theory Atof
  imports CNumbers
begin

text \<open>
  \<open>atof\<close> of \<open>system.c\<close>. Double precision arithmetic is a parameter: a \<open>double\<close> is its 64 bits, and the
  operations the code uses on it are a record of functions. The literals 0.0, 1.0 and 10.0 are the
  conversions of the integers, which are exact; 0.1 is a value of its own.
\<close>

type_synonym f64 = "64 word"

record double_ops =
  d_of_int :: "s32 \<Rightarrow> f64"
  d_tenth :: f64
  d_add :: "f64 \<Rightarrow> f64 \<Rightarrow> f64"
  d_mul :: "f64 \<Rightarrow> f64 \<Rightarrow> f64"
  d_neg :: "f64 \<Rightarrow> f64"
  d_float :: "f64 \<Rightarrow> u32"

section \<open>The function\<close>

definition d_digit :: "double_ops \<Rightarrow> u8 \<Rightarrow> f64" where
  "d_digit dop c = d_of_int dop (word_of_int (sint c - 48))"

partial_function (option) atof_spaces :: "mem \<Rightarrow> u32 \<Rightarrow> u32 option" where
  "atof_spaces m str =
     (if m str = ch CHR '' '' \<or> m str = ch CHR 0x09 then atof_spaces m (str + 1) else Some str)"

partial_function (option) atof_loop ::
    "double_ops \<Rightarrow> mem \<Rightarrow> u32 \<Rightarrow> bool \<Rightarrow> f64 \<Rightarrow> f64 \<Rightarrow> f64 option" where
  "atof_loop dop m str found_decimal value fraction =
     (if m str = 0 then Some value
      else if isdigit (sint (m str)) then
        if found_decimal then
          let fraction' = d_mul dop fraction (d_tenth dop)
          in atof_loop dop m (str + 1) found_decimal
               (d_add dop value (d_mul dop (d_digit dop (m str)) fraction')) fraction'
        else atof_loop dop m (str + 1) found_decimal
               (d_add dop (d_mul dop value (d_of_int dop 10)) (d_digit dop (m str))) fraction
      else if m str = ch CHR ''.'' then
        if found_decimal then Some value else atof_loop dop m (str + 1) True value fraction
      else Some value)"

definition atof :: "double_ops \<Rightarrow> mem \<Rightarrow> u32 \<Rightarrow> f64 option" where
  "atof dop m str0 = do {
     str \<leftarrow> atof_spaces m str0;
     let negative = (m str = ch CHR ''-'');
     let str' = (if m str = ch CHR ''-'' \<or> m str = ch CHR ''+'' then str + 1 else str);
     value \<leftarrow> atof_loop dop m str' False (d_of_int dop 0) (d_of_int dop 1);
     Some (if negative then d_neg dop value else value)
   }"

section \<open>The value of a decimal text\<close>

definition whole :: "double_ops \<Rightarrow> f64 \<Rightarrow> u8 list \<Rightarrow> f64" where
  "whole dop v ds = foldl (\<lambda>v c. d_add dop (d_mul dop v (d_of_int dop 10)) (d_digit dop c)) v ds"

fun decimals :: "double_ops \<Rightarrow> f64 \<Rightarrow> f64 \<Rightarrow> u8 list \<Rightarrow> f64" where
  "decimals dop v f [] = v"
| "decimals dop v f (c # ds) =
     (let f' = d_mul dop f (d_tenth dop) in decimals dop (d_add dop v (d_mul dop (d_digit dop c) f')) f' ds)"

text \<open>What may follow the digits: with \<open>point\<close> set, a second point ends the number.\<close>

definition ends_number :: "bool \<Rightarrow> u8 list \<Rightarrow> bool" where
  "ends_number point rest \<longleftrightarrow>
     rest = [] \<or> \<not> isdigit (sint (hd rest)) \<and> (point \<or> hd rest \<noteq> ch CHR ''.'')"

lemma digit_chars: "isdigit (sint c) \<Longrightarrow> c \<noteq> 0 \<and> c \<noteq> ch CHR ''.'' \<and> c \<noteq> ch CHR ''-'' \<and> c \<noteq> ch CHR ''+'' \<and>
    c \<noteq> ch CHR '' '' \<and> c \<noteq> ch CHR 0x09"
  by (auto simp: isdigit_def ch_def)

lemma loop_end:
  assumes "cstr m p rest" and "ends_number point rest"
  shows "atof_loop dop m p point v f = Some v"
  using assms by (cases rest) (auto simp: atof_loop.simps [of dop m p] ends_number_def)

lemma loop_decimals:
  assumes "cstr m p (ds @ rest)" and "\<forall>c \<in> set ds. isdigit (sint c)" and "ends_number True rest"
  shows "atof_loop dop m p True v f = Some (decimals dop v f ds)"
  using assms(1,2)
proof (induction ds arbitrary: p v f)
  case Nil
  then show ?case using loop_end [OF _ assms(3)] by simp
next
  case (Cons c ds)
  then show ?case by (subst atof_loop.simps) (auto simp: Let_def digit_chars)
qed

lemma loop_whole:
  assumes "cstr m p (ds @ rest)" and "\<forall>c \<in> set ds. isdigit (sint c)"
  shows "atof_loop dop m p False v f = atof_loop dop m (p + of_nat (length ds)) False (whole dop v ds) f"
  using assms
proof (induction ds arbitrary: p v)
  case (Cons c ds)
  have "atof_loop dop m p False v f =
      atof_loop dop m (p + 1) False (d_add dop (d_mul dop v (d_of_int dop 10)) (d_digit dop c)) f"
    using Cons.prems by (subst atof_loop.simps) (auto simp: digit_chars)
  also have "\<dots> = atof_loop dop m (p + 1 + of_nat (length ds)) False (whole dop v (c # ds)) f"
    using Cons.IH [of "p + 1"] Cons.prems by (simp add: whole_def)
  finally show ?case by (simp add: add.assoc)
qed (simp add: whole_def)

lemma atof_spaces_cstr:
  assumes "cstr m p (ws @ rest)" and "\<forall>c \<in> set ws. c = ch CHR '' '' \<or> c = ch CHR 0x09"
    and "rest = [] \<or> hd rest \<noteq> ch CHR '' '' \<and> hd rest \<noteq> ch CHR 0x09"
  shows "atof_spaces m p = Some (p + of_nat (length ws))"
  using assms(1,2)
proof (induction ws arbitrary: p)
  case Nil
  then show ?case using assms(3) by (cases rest) (auto simp: atof_spaces.simps [of m p] ch_def)
next
  case (Cons c ws)
  then show ?case by (subst atof_spaces.simps) (auto simp: add.assoc)
qed

text \<open>
  Blanks, an optional sign, digits and, after a point, more digits: the value is the one of Horner's
  rule with the powers of a tenth, in the arithmetic given.
\<close>

lemma atof_cstr:
  assumes c: "cstr m p (ws @ sg @ ds @ tail)"
    and ws: "\<forall>c \<in> set ws. c = ch CHR '' '' \<or> c = ch CHR 0x09"
    and sg: "sg \<in> {[], [ch CHR ''+''], [ch CHR ''-'']}"
    and ds: "ds \<noteq> []" "\<forall>c \<in> set (ds @ es). isdigit (sint c)"
    and tail: "ends_number False tail \<and> es = [] \<or> tail = ch CHR ''.'' # es @ rest \<and> ends_number True rest"
  shows "atof dop m p = Some ((if sg = [ch CHR ''-''] then d_neg dop else id)
    (decimals dop (whole dop (d_of_int dop 0) ds) (d_of_int dop 1) es))"
proof -
  let ?q = "p + of_nat (length ws)" let ?r = "?q + of_nat (length sg)"
  let ?v = "whole dop (d_of_int dop 0) ds" and ?one = "d_of_int dop 1"
  obtain d ds' where d: "ds = d # ds'" "isdigit (sint d)" using ds by (cases ds) auto
  have q: "cstr m ?q (sg @ ds @ tail)" and r: "cstr m ?r (ds @ tail)" using c by (simp_all add: cstr_append)
  have sp: "atof_spaces m p = Some ?q"
    by (rule atof_spaces_cstr [OF c ws]) (use sg d digit_chars [OF d(2)] in \<open>auto simp: ch_def\<close>)
  have t: "cstr m (?r + of_nat (length ds)) tail" using r by (simp add: cstr_append)
  have "atof_loop dop m (?r + of_nat (length ds)) False ?v ?one = Some (decimals dop ?v ?one es)"
  proof (cases "ends_number False tail \<and> es = []")
    case True
    then show ?thesis using loop_end [OF t] by simp
  next
    case False
    then have e: "tail = ch CHR ''.'' # es @ rest" "ends_number True rest" using tail by auto
    then have "cstr m (?r + of_nat (length ds) + 1) (es @ rest)" using t by simp
    from loop_decimals [OF this _ e(2)] show ?thesis
      using t ds(2) e(1) by (subst atof_loop.simps) (auto simp: ch_def isdigit_def)
  qed
  then have "atof_loop dop m ?r False (d_of_int dop 0) ?one = Some (decimals dop ?v ?one es)"
    using loop_whole [OF r] ds(2) by simp
  then show ?thesis
    using sg sp q d digit_chars [OF d(2)] by (auto simp: atof_def Let_def ch_def)
qed

section \<open>Integers\<close>

text \<open>
  A documented property of IEEE doubles, as a hypothesis on the parameter: on integers of 32 bits the
  operations of \<open>atof\<close> are exact.
\<close>

definition exact_ints :: "double_ops \<Rightarrow> bool" where
  "exact_ints dop \<longleftrightarrow>
     (\<forall>a d. d < 10 \<and> 10 * a + d < (2 ^ 31 :: nat) \<longrightarrow>
        d_add dop (d_mul dop (d_of_int dop (of_nat a)) (d_of_int dop 10)) (d_of_int dop (of_nat d)) =
        d_of_int dop (of_nat (10 * a + d))) \<and>
     (\<forall>a. 0 < a \<and> a < (2 ^ 31 :: nat) \<longrightarrow> d_neg dop (d_of_int dop (of_nat a)) = d_of_int dop (- of_nat a))"

lemma dec_val_ge: "v \<le> dec_val v ds"
proof (induction ds arbitrary: v)
  case (Cons c ds)
  have "v \<le> 10 * v + (unat c - 48)" by simp
  then show ?case using Cons [of "10 * v + (unat c - 48)"] by simp
qed simp

lemma d_digit_nat: "isdigit (sint c) \<Longrightarrow> d_digit dop c = d_of_int dop (of_nat (unat c - 48))"
  using digit_step [of c 0] by (simp add: d_digit_def)

lemma whole_exact:
  assumes "exact_ints dop"
  shows "\<forall>c \<in> set ds. isdigit (sint c) \<Longrightarrow> dec_val v ds < 2 ^ 31 \<Longrightarrow>
    whole dop (d_of_int dop (of_nat v)) ds = d_of_int dop (of_nat (dec_val v ds))"
proof (induction ds arbitrary: v)
  case (Cons c ds)
  let ?w = "10 * v + (unat c - 48)"
  have "?w < 2 ^ 31" "unat c - 48 < 10"
    using Cons.prems dec_val_ge [of ?w ds] isdigit_unat [of c] by auto
  then have "d_add dop (d_mul dop (d_of_int dop (of_nat v)) (d_of_int dop 10)) (d_digit dop c) = d_of_int dop (of_nat ?w)"
    using assms Cons.prems(1) d_digit_nat [of c dop] by (simp only: exact_ints_def) simp
  then show ?case using Cons.IH [of ?w] Cons.prems by (simp add: whole_def)
qed (simp add: whole_def)

lemma atof_itoa_text:
  assumes "exact_ints dop" and "cstr m p (itoa_text 10 (sint v) @ rest)" and "ends_number False rest"
    and "sint v \<noteq> - (2 ^ 31)"
  shows "atof dop m p = Some (d_of_int dop v)"
proof -
  let ?n = "nat (if sint v < 0 then - sint v else sint v)"
  let ?sg = "if sint v < 0 then [ch CHR ''-''] else []"
  have n: "?n < 2 ^ 31" using sint_ge [of v] sint_lt [of v] assms(4) by auto
  have c: "cstr m p ([] @ ?sg @ nat_str 10 ?n @ rest)"
    using assms(2) by (simp add: itoa_text_def split: if_splits)
  have "atof dop m p = Some ((if ?sg = [ch CHR ''-''] then d_neg dop else id)
      (decimals dop (whole dop (d_of_int dop 0) (nat_str 10 ?n)) (d_of_int dop 1) []))"
    by (rule atof_cstr [OF c]) (use assms(3) nat_str_digits in auto)
  moreover have "whole dop (d_of_int dop 0) (nat_str 10 ?n) = d_of_int dop (of_nat ?n)"
    using whole_exact [OF assms(1), of "nat_str 10 ?n" 0] n by (simp add: nat_str_digits)
  moreover have "d_neg dop (d_of_int dop (of_nat ?n)) = d_of_int dop v" if "sint v < 0"
  proof -
    have "- of_nat ?n = v" using that by simp
    moreover have "d_neg dop (d_of_int dop (of_nat ?n)) = d_of_int dop (- of_nat ?n)"
      by (rule assms(1) [unfolded exact_ints_def, THEN conjunct2, rule_format]) (use n that in simp)
    ultimately show ?thesis by (simp only:)
  qed
  moreover have "of_nat ?n = v" if "\<not> sint v < 0" using that by simp
  ultimately show ?thesis by auto
qed

end
