(* ===== verification/Microshell.thy ===== *)
theory Microshell
  imports Keyboard Allocator Atof
begin

text \<open>
  The interpreter of \<open>libs/BuiltIn/microshell.c\<close>: its values, the parsing helpers, \<open>convert_var\<close>,
  the recursive \<open>eval_expr\<close>, and \<open>msh_execute\<close>. The program text, the strings and the static
  buffers lie in one memory, so that the code's aliasing is kept. Single-precision arithmetic
  and the double arithmetic of \<open>atof\<close> are parameters (\<open>float_ops\<close>, on the bits of a \<open>float\<close>).
\<close>

section \<open>Values and state\<close>

datatype msh_type = MSH_TYPE_NONE | MSH_TYPE_INT | MSH_TYPE_FLOAT | MSH_TYPE_STR | MSH_TYPE_BOOL

text \<open>The union of \<open>int\<close>, \<open>float\<close>, \<open>char*\<close> and \<open>bool\<close> is its 32 bits; \<open>vname\<close> is the array \<open>name\<close>.\<close>

record msh_var =
  vname :: mem
  vtype :: msh_type
  vval :: u32

definition zero_var :: msh_var where
  "zero_var = \<lparr>vname = (\<lambda>_. 0), vtype = MSH_TYPE_NONE, vval = 0\<rparr>"

definition bool_val :: "msh_var \<Rightarrow> bool" where
  "bool_val v \<longleftrightarrow> vval v AND 0xFF \<noteq> 0"

record float_ops =
  f_of_int :: "s32 \<Rightarrow> u32"
  f_to_int :: "u32 \<Rightarrow> s32"
  f_frac :: "u32 \<Rightarrow> s32 \<Rightarrow> s32"
  f_add :: "u32 \<Rightarrow> u32 \<Rightarrow> u32"
  f_sub :: "u32 \<Rightarrow> u32 \<Rightarrow> u32"
  f_mul :: "u32 \<Rightarrow> u32 \<Rightarrow> u32"
  f_div :: "u32 \<Rightarrow> u32 \<Rightarrow> u32"
  f_nonzero :: "u32 \<Rightarrow> bool"
  f_double :: double_ops

text \<open>
  \<open>code\<close>, \<open>pc\<close>, \<open>had_error\<close>, \<open>vars\<close>, \<open>var_count\<close> are the fields of \<open>ctx\<close>. \<open>ident_buf\<close> and \<open>line_buf\<close> are
  the addresses of the static buffers, \<open>itoa_buf\<close> of the one on the stack, \<open>stack_args\<close> the words
  after \<open>printk\<close>'s format; \<open>usb_buf\<close> and \<open>usb_junk\<close> belong to a USB key read, \<open>past_shifted\<close> are the
  bytes after \<open>normal_to_shifted2\<close>.
\<close>

record msh =
  ms_kb :: keyboard
  ms_heap :: heap_state
  ms_fops :: float_ops
  code :: u32
  pc :: u32
  had_error :: bool
  vars :: "u32 \<Rightarrow> msh_var"
  var_count :: u32
  ident_buf :: u32
  line_buf :: u32
  itoa_buf :: u32
  stack_args :: "nat \<Rightarrow> u32"
  usb_buf :: u32
  usb_junk :: u8
  past_shifted :: "nat \<Rightarrow> u8"

definition ms_mem :: "msh \<Rightarrow> mem" where
  "ms_mem s = con_mem (kb_con (ms_kb s))"

definition set_mem :: "mem \<Rightarrow> msh \<Rightarrow> msh" where
  "set_mem m s = s\<lparr>ms_kb := (ms_kb s)\<lparr>kb_con := (kb_con (ms_kb s))\<lparr>con_mem := m\<rparr>\<rparr>\<rparr>"

definition set_con :: "console \<Rightarrow> msh \<Rightarrow> msh" where
  "set_con c s = s\<lparr>ms_kb := (ms_kb s)\<lparr>kb_con := c\<rparr>\<rparr>"

definition fail :: "msh \<Rightarrow> msh" where
  "fail s = s\<lparr>had_error := True\<rparr>"

text \<open>\<open>ctx.code[ctx.pc + k]\<close>, and \<open>ctx.pc += k\<close>.\<close>

definition cur :: "msh \<Rightarrow> u32 \<Rightarrow> u8" where
  "cur s k = ms_mem s (code s + pc s + k)"

definition adv :: "u32 \<Rightarrow> msh \<Rightarrow> msh" where
  "adv k s = s\<lparr>pc := pc s + k\<rparr>"

definition at_lit :: "msh \<Rightarrow> string \<Rightarrow> u32 \<Rightarrow> bool" where
  "at_lit s l n \<longleftrightarrow> strncmp (ms_mem s) (code s + pc s) (lit_mem (lit l)) 0 n = 0"

section \<open>The heap, through the one memory\<close>

definition m_malloc :: "u32 \<Rightarrow> msh \<Rightarrow> u32 \<times> msh" where
  "m_malloc n s = (case malloc n (ms_heap s) of (p, hp) \<Rightarrow> (p, s\<lparr>ms_heap := hp\<rparr>))"

definition m_free :: "u32 \<Rightarrow> msh \<Rightarrow> msh" where
  "m_free p s = s\<lparr>ms_heap := free p (ms_heap s)\<rparr>"

definition m_strdup :: "u32 \<Rightarrow> msh \<Rightarrow> (u32 \<times> msh) option" where
  "m_strdup p s = do {
     (q, hp) \<leftarrow> strdup p ((ms_heap s)\<lparr>hmem := ms_mem s\<rparr>);
     Some (q, set_mem (hmem hp) (s\<lparr>ms_heap := hp\<rparr>))
   }"

definition m_strndup :: "u32 \<Rightarrow> u32 \<Rightarrow> msh \<Rightarrow> u32 \<times> msh" where
  "m_strndup p n s =
     (case strndup p n ((ms_heap s)\<lparr>hmem := ms_mem s\<rparr>) of
        (q, hp) \<Rightarrow> (q, set_mem (hmem hp) (s\<lparr>ms_heap := hp\<rparr>)))"

definition m_printk :: "u32 \<Rightarrow> msh \<Rightarrow> msh option" where
  "m_printk p s = (let c = kb_con (ms_kb s) in do {
     (m, t) \<leftarrow> printk In_memory p (stack_args s) (con_buf c) (con_num c) (con_mem c) (con_term c);
     Some (set_con (c\<lparr>con_mem := m, con_term := t\<rparr>) s)
   })"

definition m_putchar :: "u8 \<Rightarrow> msh \<Rightarrow> msh" where
  "m_putchar x s =
     (let c = kb_con (ms_kb s) in set_con (c\<lparr>con_term := terminal_putchar x (con_term c)\<rparr>) s)"

section \<open>Reading a line\<close>

text \<open>\<open>normal_to_shifted2[key]\<close>: the same table as \<open>us_normal_to_shifted\<close>, of 128 entries.\<close>

definition normal_to_shifted2 :: "(nat \<Rightarrow> u8) \<Rightarrow> u8 \<Rightarrow> u8" where
  "normal_to_shifted2 past key =
     (if unat key < 128 then us_normal_to_shifted (char_of (unat key)) else past (unat key - 128))"

partial_function (option) read_line_loop :: "u32 \<Rightarrow> bool \<Rightarrow> msh \<Rightarrow> (u32 \<times> msh) option" where
  "read_line_loop pos shift s =
     (if pos < 255 then do {
        r \<leftarrow> keyboard_read_key (usb_buf s) (usb_junk s) (ms_kb s);
        if fst r = 0 then read_line_loop pos shift (s\<lparr>ms_kb := snd r\<rparr>)
        else if fst r = 4 then
          m_strdup (line_buf s)
            (set_mem ((ms_mem (s\<lparr>ms_kb := snd r\<rparr>))(line_buf s + pos := 0)) (s\<lparr>ms_kb := snd r\<rparr>))
        else if fst r = 2 then
          (if pos > 0 then read_line_loop (pos - 1) shift (m_putchar (ch CHR 0x08) (s\<lparr>ms_kb := snd r\<rparr>))
           else read_line_loop pos shift (s\<lparr>ms_kb := snd r\<rparr>))
        else if fst r = 6 \<or> fst r = 7 then read_line_loop pos True (s\<lparr>ms_kb := snd r\<rparr>)
        else let key = (if shift then normal_to_shifted2 (past_shifted s) (fst r) else fst r) in
          read_line_loop (pos + 1) False
            (m_putchar key (set_mem ((ms_mem (s\<lparr>ms_kb := snd r\<rparr>))(line_buf s + pos := key))
               (s\<lparr>ms_kb := snd r\<rparr>)))
      }
      else m_strdup (line_buf s) (set_mem ((ms_mem s)(line_buf s + 255 := 0)) s))"

definition msh_read_line :: "msh \<Rightarrow> (u32 \<times> msh) option" where
  "msh_read_line s = read_line_loop 0 False s"

definition builtin_input :: "msh \<Rightarrow> (msh_var \<times> msh) option" where
  "builtin_input s = do {
     (input, s1) \<leftarrow> msh_read_line s;
     Some (if input \<noteq> NULL then zero_var\<lparr>vtype := MSH_TYPE_STR, vval := input\<rparr> else zero_var, s1)
   }"

section \<open>Parsing helpers\<close>

partial_function (option) skip_whitespace :: "msh \<Rightarrow> msh option" where
  "skip_whitespace s = (if isspace (sint (cur s 0)) then skip_whitespace (adv 1 s) else Some s)"

definition ident_char :: "u8 \<Rightarrow> bool" where
  "ident_char c \<longleftrightarrow> isalnum (sint c) \<or> c = ch CHR ''_''"

partial_function (option) ident_loop :: "u32 \<Rightarrow> msh \<Rightarrow> (u32 \<times> msh) option" where
  "ident_loop i s =
     (if ident_char (cur s 0) then
        if sint i < 31 then ident_loop (i + 1) (adv 1 (set_mem ((ms_mem s)(ident_buf s + i := cur s 0)) s))
        else ident_loop i (adv 1 s)
      else Some (i, s))"

text \<open>It returns the address of its static buffer.\<close>

definition parse_ident :: "msh \<Rightarrow> (u32 \<times> msh) option" where
  "parse_ident s = do {
     s1 \<leftarrow> skip_whitespace s;
     (i, s2) \<leftarrow> ident_loop 0 s1;
     Some (ident_buf s, set_mem ((ms_mem s2)(ident_buf s2 + i := 0)) s2)
   }"

text \<open>The index of the first variable with the name at \<open>name\<close>: \<open>Some None\<close> is NULL.\<close>

partial_function (option) find_loop :: "u32 \<Rightarrow> u32 \<Rightarrow> msh \<Rightarrow> u32 option option" where
  "find_loop i name s =
     (if i < var_count s then do {
        d \<leftarrow> strcmp (vname (vars s i)) 0 (ms_mem s) name;
        if d = 0 then Some (Some i) else find_loop (i + 1) name s
      }
      else Some None)"

definition find_var :: "u32 \<Rightarrow> msh \<Rightarrow> u32 option option" where
  "find_var name s = find_loop 0 name s"

section \<open>Conversions\<close>

text \<open>\<open>while (*p) p++\<close>, then the point and the fraction.\<close>

definition float_text :: "s32 \<Rightarrow> s32 \<Rightarrow> u32 \<Rightarrow> mem \<Rightarrow> mem option" where
  "float_text int_part frac_part str m = do {
     m1 \<leftarrow> itoa m int_part str 10;
     p \<leftarrow> find_end m1 str;
     itoa (m1(p := ch CHR ''.'')) frac_part (p + 1) 10
   }"

definition convert_var :: "msh_var \<Rightarrow> msh_type \<Rightarrow> msh \<Rightarrow> (msh_var \<times> msh) option" where
  "convert_var v target s =
     (let result = zero_var\<lparr>vtype := target\<rparr>; fo = ms_fops s in
      case vtype v of
        MSH_TYPE_INT \<Rightarrow>
          if target = MSH_TYPE_STR then
            case m_malloc 32 s of (p, s1) \<Rightarrow>
              if p \<noteq> NULL then do { m \<leftarrow> itoa (ms_mem s1) (vval v) p 10; Some (result\<lparr>vval := p\<rparr>, set_mem m s1) }
              else Some (result, s1)
          else if target = MSH_TYPE_FLOAT then Some (result\<lparr>vval := f_of_int fo (vval v)\<rparr>, s)
          else Some (v, s)
      | MSH_TYPE_FLOAT \<Rightarrow>
          if target = MSH_TYPE_STR then
            case m_malloc 32 s of (p, s1) \<Rightarrow>
              if p \<noteq> NULL then do {
                let int_part = f_to_int fo (vval v);
                let frac0 = f_frac fo (vval v) int_part;
                let frac_part = (if sint frac0 < 0 then - frac0 else frac0);
                m \<leftarrow> float_text int_part frac_part p (ms_mem s1);
                Some (result\<lparr>vval := p\<rparr>, set_mem m s1)
              }
              else Some (result, s1)
          else if target = MSH_TYPE_INT then Some (result\<lparr>vval := f_to_int fo (vval v)\<rparr>, s)
          else Some (v, s)
      | MSH_TYPE_STR \<Rightarrow>
          if target = MSH_TYPE_INT then do { i \<leftarrow> atoi (ms_mem s) (vval v); Some (result\<lparr>vval := i\<rparr>, s) }
          else if target = MSH_TYPE_FLOAT then do {
            d \<leftarrow> atof (f_double fo) (ms_mem s) (vval v);
            Some (result\<lparr>vval := d_float (f_double fo) d\<rparr>, s)
          }
          else Some (v, s)
      | _ \<Rightarrow> Some (v, s))"

section \<open>Expressions\<close>

text \<open>What stands before an operator: \<open>result\<close> and \<open>left\<close>, or the value of an early return.\<close>

datatype operand = Operand msh_var msh_var | Returned msh_var

partial_function (option) number_loop :: "s32 \<Rightarrow> msh \<Rightarrow> (s32 \<times> msh) option" where
  "number_loop v s =
     (if isdigit (sint (cur s 0)) then number_loop (v * 10 + word_of_int (sint (cur s 0) - 48)) (adv 1 s)
      else Some (v, s))"

definition number_literal :: "msh \<Rightarrow> (operand \<times> msh) option" where
  "number_literal s = do {
     (v, s1) \<leftarrow> number_loop 0 s;
     let result = zero_var\<lparr>vtype := MSH_TYPE_INT, vval := v\<rparr>;
     Some (Operand result result, s1)
   }"

partial_function (option) scan_quote :: "msh \<Rightarrow> msh option" where
  "scan_quote s =
     (if cur s 0 \<noteq> ch CHR 0x22 \<and> cur s 0 \<noteq> 0 then scan_quote (adv 1 s) else Some s)"

definition string_literal :: "msh \<Rightarrow> (operand \<times> msh) option" where
  "string_literal s0 = do {
     let s = adv 1 s0;
     let start = code s + pc s;
     s1 \<leftarrow> scan_quote s;
     if cur s1 0 \<noteq> ch CHR 0x22 then Some (Returned zero_var, fail s1)
     else do {
       let len = code s1 + pc s1 - start;
       let (p, s2) = m_malloc (len + 1) s1;
       let m = snd (strncpy (ms_mem s2) p start len);
       let result = zero_var\<lparr>vtype := MSH_TYPE_STR, vval := p\<rparr>;
       Some (Operand result result, adv 1 (set_mem (m(p + len := 0)) s2))
     }
   }"

definition var_reference :: "msh \<Rightarrow> (operand \<times> msh) option" where
  "var_reference s = do {
     (name, s1) \<leftarrow> parse_ident s;
     i \<leftarrow> find_var name s1;
     case i of
       None \<Rightarrow> Some (Operand zero_var zero_var, fail s1)
     | Some j \<Rightarrow>
         if vtype (vars s1 j) = MSH_TYPE_STR then do {
           (q, s2) \<leftarrow> m_strdup (vval (vars s1 j)) s1;
           let result = (vars s1 j)\<lparr>vval := q\<rparr>;
           Some (Operand result result, s2)
         }
         else Some (Operand (vars s1 j) (vars s1 j), s1)
   }"

definition bool_literal :: "bool \<Rightarrow> u32 \<Rightarrow> msh \<Rightarrow> (operand \<times> msh) option" where
  "bool_literal b n s =
     (let result = zero_var\<lparr>vtype := MSH_TYPE_BOOL, vval := of_bool b\<rparr>
      in Some (Operand result result, adv n s))"

definition m_inw :: "u32 \<Rightarrow> msh \<Rightarrow> u32 \<times> msh" where
  "m_inw port s =
     (case inw (ucast port) (kb_hw (ms_kb s)) of
        (v, h) \<Rightarrow> (ucast v, s\<lparr>ms_kb := (ms_kb s)\<lparr>kb_hw := h\<rparr>\<rparr>))"

definition m_outw :: "u32 \<Rightarrow> u32 \<Rightarrow> msh \<Rightarrow> msh" where
  "m_outw port value s =
     s\<lparr>ms_kb := (ms_kb s)\<lparr>kb_hw := outw (ucast port) (ucast value) (kb_hw (ms_kb s))\<rparr>\<rparr>"

definition is_op :: "u8 \<Rightarrow> bool" where
  "is_op c \<longleftrightarrow> c = ch CHR ''+'' \<or> c = ch CHR ''-'' \<or> c = ch CHR ''*'' \<or> c = ch CHR ''/''"

text \<open>The common type, and both operands converted to it.\<close>

definition unify :: "msh_var \<Rightarrow> msh_var \<Rightarrow> msh \<Rightarrow> (msh_type \<times> msh_var \<times> msh_var \<times> msh) option" where
  "unify l r s =
     (let both = (\<lambda>t. do {
        (l', s1) \<leftarrow> convert_var l t s;
        (r', s2) \<leftarrow> convert_var r t s1;
        Some (t, l', r', s2)
      }) in
      if vtype l \<noteq> vtype r then
        if vtype l = MSH_TYPE_FLOAT \<or> vtype r = MSH_TYPE_FLOAT then both MSH_TYPE_FLOAT
        else if vtype l = MSH_TYPE_INT \<or> vtype r = MSH_TYPE_INT then both MSH_TYPE_INT
        else Some (vtype l, l, r, s)
      else Some (vtype l, l, r, s))"

definition str_concat :: "u32 \<Rightarrow> u32 \<Rightarrow> msh \<Rightarrow> (u32 \<times> msh) option" where
  "str_concat a b s = do {
     la \<leftarrow> strlen (ms_mem s) a;
     lb \<leftarrow> strlen (ms_mem s) b;
     let (p, s1) = m_malloc (la + lb + 1) s;
     (_, m1) \<leftarrow> strcpy (ms_mem s1) p a;
     (_, m2) \<leftarrow> strcat m1 p b;
     Some (p, set_mem m2 s1)
   }"

text \<open>The \<open>switch\<close> on the operator, \<open>t\<close> being the common type.\<close>

definition apply_op :: "u8 \<Rightarrow> msh_type \<Rightarrow> msh_var \<Rightarrow> msh_var \<Rightarrow> msh_var \<Rightarrow> msh \<Rightarrow> (msh_var \<times> msh) option" where
  "apply_op c t result l r s =
     (let fo = ms_fops s;
          ints = (\<lambda>f. Some (result\<lparr>vval := f (vval l) (vval r)\<rparr>, s)) in
      if c = ch CHR ''+'' then
        if t = MSH_TYPE_INT then ints (+)
        else if t = MSH_TYPE_FLOAT then ints (f_add fo)
        else if t = MSH_TYPE_STR then do {
          (p, s1) \<leftarrow> str_concat (vval l) (vval r) s;
          Some (result\<lparr>vval := p\<rparr>, s1)
        }
        else Some (result, s)
      else if c = ch CHR ''-'' then
        if t = MSH_TYPE_INT then ints (-)
        else if t = MSH_TYPE_FLOAT then ints (f_sub fo)
        else Some (result, s)
      else if c = ch CHR ''*'' then
        if t = MSH_TYPE_INT then ints (*)
        else if t = MSH_TYPE_FLOAT then ints (f_mul fo)
        else Some (result, s)
      else
        if t = MSH_TYPE_INT \<and> vval r \<noteq> 0 then do {
          q \<leftarrow> c_div (vval l) (vval r);
          Some (result\<lparr>vval := q\<rparr>, s)
        }
        else if t = MSH_TYPE_FLOAT \<and> f_nonzero fo (vval r) then ints (f_div fo)
        else Some (result, fail s))"

definition drop_str :: "msh_type \<Rightarrow> msh_var \<Rightarrow> msh \<Rightarrow> msh" where
  "drop_str t v s =
     (if vtype v \<noteq> t \<and> vtype v = MSH_TYPE_STR \<and> vval v \<noteq> NULL then m_free (vval v) s else s)"

definition binary_op :: "u8 \<Rightarrow> msh_var \<Rightarrow> msh_var \<Rightarrow> msh_var \<Rightarrow> msh \<Rightarrow> (msh_var \<times> msh) option" where
  "binary_op c result l r s = do {
     (t, l', r', s1) \<leftarrow> unify l r s;
     (v, s2) \<leftarrow> apply_op c t (result\<lparr>vtype := t\<rparr>) l' r' s1;
     Some (v, drop_str t r' (drop_str t l' s2))
   }"

definition fail_operand :: "msh \<Rightarrow> (operand \<times> msh) option" where
  "fail_operand s = Some (Operand zero_var zero_var, fail s)"

definition end_inw :: "msh_var \<Rightarrow> msh \<Rightarrow> (operand \<times> msh) option" where
  "end_inw arg s =
     (if vtype arg = MSH_TYPE_INT \<and> cur s 0 = ch CHR '')'' then
        case m_inw (vval arg) (adv 1 s) of (v, s1) \<Rightarrow>
          let result = zero_var\<lparr>vtype := MSH_TYPE_INT, vval := v\<rparr> in Some (Operand result result, s1)
      else fail_operand s)"

definition end_outw :: "msh_var \<Rightarrow> msh_var \<Rightarrow> msh \<Rightarrow> (operand \<times> msh) option" where
  "end_outw port value s =
     (if vtype port = MSH_TYPE_INT \<and> vtype value = MSH_TYPE_INT \<and> cur s 0 = ch CHR '')''
      then Some (Operand zero_var zero_var, m_outw (vval port) (vval value) (adv 1 s))
      else fail_operand s)"

definition read_input :: "msh \<Rightarrow> (operand \<times> msh) option" where
  "read_input s = do { (v, s1) \<leftarrow> builtin_input s; Some (Returned v, s1) }"

definition end_input :: "msh_var \<Rightarrow> msh \<Rightarrow> (operand \<times> msh) option" where
  "end_input prompt s = do {
     s1 \<leftarrow> (if vtype prompt = MSH_TYPE_STR then do {
              s1 \<leftarrow> m_printk (vval prompt) s;
              Some (if vval prompt \<noteq> NULL then m_free (vval prompt) s1 else s1)
            }
            else Some s);
     if cur s1 0 \<noteq> ch CHR '')'' then Some (Returned zero_var, fail s1) else read_input (adv 1 s1)
   }"

partial_function (option) eval_expr :: "msh \<Rightarrow> (msh_var \<times> msh) option" where
  "eval_expr s0 = do {
     s \<leftarrow> skip_whitespace s0;
     x \<leftarrow>
       (if isdigit (sint (cur s 0)) then number_literal s
        else if cur s 0 = ch CHR 0x22 then string_literal s
        else if isalpha (sint (cur s 0)) then var_reference s
        else if at_lit s ''True'' 4 then bool_literal True 4 s
        else if at_lit s ''False'' 5 then bool_literal False 5 s
        else if at_lit s ''inw('' 4 then do {
          r \<leftarrow> eval_expr (adv 4 s);
          end_inw (fst r) (snd r)
        }
        else if at_lit s ''outw('' 5 then do {
          r \<leftarrow> eval_expr (adv 5 s);
          if cur (snd r) 0 \<noteq> ch CHR '','' then fail_operand (snd r)
          else do {
            q \<leftarrow> eval_expr (adv 1 (snd r));
            end_outw (fst r) (fst q) (snd q)
          }
        }
        else if at_lit s ''input('' 6 then
          if cur (adv 6 s) 0 = ch CHR '')'' then read_input (adv 7 s)
          else do {
            r \<leftarrow> eval_expr (adv 6 s);
            end_input (fst r) (snd r)
          }
        else Some (Operand zero_var zero_var, s));
     case fst x of
       Returned v \<Rightarrow> Some (v, snd x)
     | Operand result left \<Rightarrow> do {
         s1 \<leftarrow> skip_whitespace (snd x);
         if is_op (cur s1 0) then do {
           r \<leftarrow> eval_expr (adv 1 s1);
           binary_op (cur s1 0) result left (fst r) (snd r)
         }
         else Some (left, s1)
       }
   }"

section \<open>Statements\<close>

text \<open>\<open>strncpy(var->name, name, 31)\<close>: from the program's memory into the variable's array.\<close>

fun copy_name :: "nat \<Rightarrow> mem \<Rightarrow> u32 \<Rightarrow> u32 \<Rightarrow> mem \<Rightarrow> mem" where
  "copy_name 0 m src i d = d"
| "copy_name (Suc n) m src i d =
     (if m src \<noteq> 0 then copy_name n m (src + 1) (i + 1) (d(i := m src))
      else copy_name n m src (i + 1) (d(i := 0)))"

definition name_var :: "u32 \<Rightarrow> u32 \<Rightarrow> msh \<Rightarrow> msh" where
  "name_var name i s =
     s\<lparr>vars := (vars s)(i := (vars s i)\<lparr>vname := copy_name 31 (ms_mem s) name 0 (vname (vars s i))\<rparr>)\<rparr>"

definition assign_var :: "u32 \<Rightarrow> msh_var \<Rightarrow> msh \<Rightarrow> msh" where
  "assign_var i value s =
     (let s1 = (if vtype (vars s i) = MSH_TYPE_STR \<and> vval (vars s i) \<noteq> NULL
                then m_free (vval (vars s i)) s else s)
      in s1\<lparr>vars := (vars s1)(i := value)\<rparr>)"

definition set_var :: "u32 \<Rightarrow> msh_var \<Rightarrow> msh \<Rightarrow> msh option" where
  "set_var name value s = do {
     i \<leftarrow> find_var name s;
     Some (case i of
         Some j \<Rightarrow> assign_var j value s
       | None \<Rightarrow>
           if var_count s < 64
           then assign_var (var_count s) value
                  (name_var name (var_count s) (s\<lparr>var_count := var_count s + 1\<rparr>))
           else fail s)
   }"

definition assignment :: "msh \<Rightarrow> msh option" where
  "assignment s = do {
     (name, s1) \<leftarrow> parse_ident s;
     s2 \<leftarrow> skip_whitespace s1;
     if cur s2 0 = ch CHR ''='' then do {
       (value, s3) \<leftarrow> eval_expr (adv 1 s2);
       if had_error s3 then Some s3 else set_var name value s3
     }
     else Some s2
   }"

definition expect :: "u8 \<Rightarrow> msh \<Rightarrow> msh" where
  "expect c s = (if cur s 0 \<noteq> c then fail s else adv 1 s)"

definition print_stmt :: "msh \<Rightarrow> msh option" where
  "print_stmt s = do {
     (arg, s1) \<leftarrow> eval_expr (adv 7 s);
     s2 \<leftarrow> (if had_error s1 then Some s1
            else if vtype arg = MSH_TYPE_STR then m_printk (vval arg) s1
            else if vtype arg = MSH_TYPE_INT then do {
              m \<leftarrow> itoa (ms_mem s1) (vval arg) (itoa_buf s1) 10;
              m_printk (itoa_buf s1) (set_mem m s1)
            }
            else Some s1);
     Some (expect (ch CHR '')'') s2)
   }"

text \<open>The condition of \<open>if\<close> or \<open>while\<close>, its type check, and the colon.\<close>

definition condition :: "msh \<Rightarrow> (msh_var \<times> msh) option" where
  "condition s = do {
     (cond, s1) \<leftarrow> eval_expr s;
     s2 \<leftarrow> skip_whitespace (if vtype cond \<noteq> MSH_TYPE_BOOL then fail s1 else s1);
     Some (cond, expect (ch CHR '':'') s2)
   }"

partial_function (option) scan_block :: "msh \<Rightarrow> msh option" where
  "scan_block s =
     (if cur s 0 \<noteq> 0 \<and> (cur s 0 \<noteq> ch CHR 0x0A \<or> \<not> isspace (sint (cur s 1)))
      then scan_block (adv 1 s) else Some s)"

text \<open>The indented block, copied to the heap, and the context set to run it.\<close>

definition start_run :: "u32 \<Rightarrow> msh \<Rightarrow> msh" where
  "start_run c s = s\<lparr>code := c, pc := 0, had_error := False\<rparr>"

definition take_block :: "msh \<Rightarrow> (u32 \<times> msh) option" where
  "take_block s = do {
     s1 \<leftarrow> skip_whitespace s;
     s2 \<leftarrow> scan_block s1;
     Some (m_strndup (code s2 + pc s1) (pc s2 - pc s1) s2)
   }"

definition recheck :: "u32 \<Rightarrow> msh \<Rightarrow> (msh_var \<times> msh) option" where
  "recheck cond_start s = do {
     (cond, s1) \<leftarrow> eval_expr (s\<lparr>pc := cond_start\<rparr>);
     s2 \<leftarrow> skip_whitespace s1;
     Some (cond, expect (ch CHR '':'') s2)
   }"

text \<open>\<open>Statements\<close> is the loop of \<open>msh_execute\<close>, \<open>While\<close> the inner loop of a \<open>while\<close> statement. The
  recursive call runs on the block and leaves \<open>code\<close>, \<open>pc\<close> and \<open>had_error\<close> as that run ended.\<close>

datatype run_mode = Statements | While u32 msh_var

partial_function (option) run_code :: "run_mode \<Rightarrow> msh \<Rightarrow> msh option" where
  "run_code mode s0 =
     (case mode of
        Statements \<Rightarrow>
          if cur s0 0 \<noteq> 0 \<and> \<not> had_error s0 then do {
            s \<leftarrow> skip_whitespace s0;
            s1 \<leftarrow>
              (if isalpha (sint (cur s 0)) then assignment s
               else if at_lit s ''print('' 7 then print_stmt s
               else if at_lit s ''if '' 3 then do {
                 c \<leftarrow> condition (adv 3 s);
                 if \<not> had_error (snd c) \<and> bool_val (fst c) then do {
                   b \<leftarrow> take_block (snd c);
                   s2 \<leftarrow> run_code Statements (start_run (fst b) (snd b));
                   Some (m_free (fst b) s2)
                 }
                 else Some (snd c)
               }
               else if at_lit s ''while '' 6 then do {
                 c \<leftarrow> condition (adv 6 s);
                 run_code (While (pc s + 6) (fst c)) (snd c)
               }
               else Some (adv 1 s));
            run_code Statements s1
          }
          else Some s0
      | While cond_start cond \<Rightarrow>
          if \<not> had_error s0 \<and> bool_val cond then do {
            b \<leftarrow> take_block s0;
            s1 \<leftarrow> run_code Statements (start_run (fst b) (snd b));
            c \<leftarrow> recheck cond_start (m_free (fst b) s1);
            run_code (While cond_start (fst c)) (snd c)
          }
          else Some s0)"

definition msh_execute :: "u32 \<Rightarrow> msh \<Rightarrow> (bool \<times> msh) option" where
  "msh_execute c s = do { s1 \<leftarrow> run_code Statements (start_run c s); Some (\<not> had_error s1, s1) }"

definition msh_init :: "msh \<Rightarrow> msh" where
  "msh_init s = s\<lparr>vars := (\<lambda>_. zero_var), var_count := 0, code := 0, pc := 0, had_error := False\<rparr>"

section \<open>Branches that are never taken\<close>

text \<open>A keyword starts with a letter, and a letter has been taken for an identifier before.\<close>

lemma at_lit_first:
  assumes "at_lit s (c # l) n" and "n \<noteq> 0"
  shows "cur s 0 = ch c"
proof -
  have "0 < n" using assms(2) by (simp add: word_gt_0)
  then show ?thesis
    using assms(1) by (auto simp: at_lit_def strncmp_def strncmp_loop.simps [of _ _ _ _ n 0]
        lit_mem_def cur_def split: if_splits)
qed

lemma at_lit_alpha:
  "at_lit s (c # l) n \<Longrightarrow> n \<noteq> 0 \<Longrightarrow> isalpha (sint (ch c)) \<Longrightarrow> isalpha (sint (cur s 0))"
  by (simp add: at_lit_first)

lemma sint_ch:
  "sint (ch CHR ''T'') = 84" "sint (ch CHR ''F'') = 70" "sint (ch CHR ''i'') = 105"
  "sint (ch CHR ''o'') = 111" "sint (ch CHR ''p'') = 112" "sint (ch CHR ''w'') = 119"
  by (simp_all add: ch_def)

lemma no_keyword:
  assumes "\<not> isalpha (sint (cur s 0))"
  shows "\<not> at_lit s ''True'' 4" "\<not> at_lit s ''False'' 5" "\<not> at_lit s ''inw('' 4"
    "\<not> at_lit s ''outw('' 5" "\<not> at_lit s ''input('' 6" "\<not> at_lit s ''print('' 7"
    "\<not> at_lit s ''if '' 3" "\<not> at_lit s ''while '' 6"
  using assms by (auto dest!: at_lit_alpha simp: sint_ch isalpha_def)

lemma eval_expr_eq:
  "eval_expr s0 = do {
     s \<leftarrow> skip_whitespace s0;
     x \<leftarrow>
       (if isdigit (sint (cur s 0)) then number_literal s
        else if cur s 0 = ch CHR 0x22 then string_literal s
        else if isalpha (sint (cur s 0)) then var_reference s
        else Some (Operand zero_var zero_var, s));
     case fst x of
       Returned v \<Rightarrow> Some (v, snd x)
     | Operand result left \<Rightarrow> do {
         s1 \<leftarrow> skip_whitespace (snd x);
         if is_op (cur s1 0) then do {
           r \<leftarrow> eval_expr (adv 1 s1);
           binary_op (cur s1 0) result left (fst r) (snd r)
         }
         else Some (left, s1)
       }
   }"
  by (subst eval_expr.simps) (simp add: no_keyword cong: if_cong)

text \<open>Of the statements only assignments are left.\<close>

partial_function (option) run_assignments :: "msh \<Rightarrow> msh option" where
  "run_assignments s0 =
     (if cur s0 0 \<noteq> 0 \<and> \<not> had_error s0 then do {
        s \<leftarrow> skip_whitespace s0;
        s1 \<leftarrow> (if isalpha (sint (cur s 0)) then assignment s else Some (adv 1 s));
        run_assignments s1
      }
      else Some s0)"

lemma run_statements_eq:
  "run_code Statements s0 =
     (if cur s0 0 \<noteq> 0 \<and> \<not> had_error s0 then do {
        s \<leftarrow> skip_whitespace s0;
        s1 \<leftarrow> (if isalpha (sint (cur s 0)) then assignment s else Some (adv 1 s));
        run_code Statements s1
      }
      else Some s0)"
  by (subst run_code.simps) (simp add: no_keyword cong: if_cong)

lemmas run_assignments_induct = run_assignments.raw_induct [rotated, consumes 1, case_names step]
lemmas run_code_induct = run_code.raw_induct [rotated, consumes 1, case_names step]
lemmas eval_expr_induct = eval_expr.raw_induct [rotated, consumes 1, case_names step]

lemma run_assignments_sound:
  "run_assignments s = Some t \<Longrightarrow> run_code Statements s = Some t"
proof (induction s t rule: run_assignments_induct)
  case (step f s0 t)
  show ?case
    using step(2) by (subst run_statements_eq) (auto split: if_splits dest!: bind_SomeD step(1))
qed

lemma run_assignments_complete:
  "run_code mode s = Some t \<Longrightarrow> mode = Statements \<longrightarrow> run_assignments s = Some t"
proof (induction mode s t rule: run_code_induct)
  case (step f mode s0 t)
  show ?case
  proof
    assume m: "mode = Statements"
    from step(2) [unfolded m run_mode.case] show "run_assignments s0 = Some t"
      by (subst run_assignments.simps)
        (auto simp: no_keyword split: if_splits dest!: bind_SomeD step(1) cong: if_cong)
  qed
qed

theorem run_code_assignments: "run_code Statements s = run_assignments s"
  using run_assignments_sound run_assignments_complete
  by (metis not_None_eq)

end
