(* ===== verification/MsFrame.thy ===== *)
theory MsFrame
  imports Microshell
begin

text \<open>
  What the interpreter can and cannot do: expressions leave the variables, the screen and the
  devices alone, every variable reference is an error, and a whole run keeps the invariant of the
  variable table. Variables never carry a name, because \<open>*var = value\<close> copies the nameless value
  over the name that \<open>strncpy\<close> has just written.
\<close>

section \<open>What an expression leaves alone\<close>

text \<open>\<open>same_io s s'\<close>: the devices and the screen are as before, and so are the variables.\<close>

definition same_io :: "msh \<Rightarrow> msh \<Rightarrow> bool" where
  "same_io s s' \<longleftrightarrow> kb_hw (ms_kb s') = kb_hw (ms_kb s) \<and>
     con_term (kb_con (ms_kb s')) = con_term (kb_con (ms_kb s)) \<and> ident_buf s' = ident_buf s"

definition same_vars :: "msh \<Rightarrow> msh \<Rightarrow> bool" where
  "same_vars s s' \<longleftrightarrow> same_io s s' \<and> vars s' = vars s \<and> var_count s' = var_count s"

lemma same_vars_refl [simp]: "same_vars s s"
  by (simp add: same_vars_def same_io_def)

lemma same_io_refl [simp]: "same_io s s"
  by (simp add: same_io_def)

lemma same_io_trans [trans]: "same_io s t \<Longrightarrow> same_io t u \<Longrightarrow> same_io s u"
  by (simp add: same_io_def)

lemma same_vars_trans [trans]: "same_vars s t \<Longrightarrow> same_vars t u \<Longrightarrow> same_vars s u"
  by (simp add: same_vars_def same_io_def)

lemma same_vars_simps [simp]:
  "same_vars s (adv k t) \<longleftrightarrow> same_vars s t"
  "same_vars s (fail t) \<longleftrightarrow> same_vars s t"
  "same_vars s (set_mem m t) \<longleftrightarrow> same_vars s t"
  "same_vars s (m_free p t) \<longleftrightarrow> same_vars s t"
  "same_vars s (t\<lparr>ms_heap := h\<rparr>) \<longleftrightarrow> same_vars s t"
  "same_vars s (drop_str ty v t) \<longleftrightarrow> same_vars s t"
  by (simp_all add: same_vars_def same_io_def adv_def fail_def set_mem_def m_free_def drop_str_def)

lemma same_vars_malloc: "m_malloc n s = (p, t) \<Longrightarrow> same_vars s t"
  by (auto simp: m_malloc_def split: prod.splits)

lemma same_vars_strdup: "m_strdup p s = Some (q, t) \<Longrightarrow> same_vars s t"
  by (auto simp: m_strdup_def dest!: bind_SomeD)

lemmas skip_whitespace_induct = skip_whitespace.raw_induct [rotated, consumes 1, case_names step]
lemmas number_loop_induct = number_loop.raw_induct [rotated, consumes 1, case_names step]
lemmas ident_loop_induct = ident_loop.raw_induct [rotated, consumes 1, case_names step]
lemmas scan_quote_induct = scan_quote.raw_induct [rotated, consumes 1, case_names step]

lemma same_vars_adv: "same_vars (adv k s) t \<Longrightarrow> same_vars s t"
  by (rule same_vars_trans [of _ "adv k s"]) simp_all

lemma same_vars_skip: "skip_whitespace s = Some t \<Longrightarrow> same_vars s t"
  by (induction s t rule: skip_whitespace_induct) (auto split: if_splits dest: same_vars_adv)

lemma same_vars_scan: "scan_quote s = Some t \<Longrightarrow> same_vars s t"
  by (induction s t rule: scan_quote_induct) (auto split: if_splits dest: same_vars_adv)

lemma same_vars_number: "number_loop v s = Some r \<Longrightarrow> same_vars s (snd r)"
proof (induction v s r rule: number_loop_induct)
  case (step f v s r)
  show ?case
  proof (cases "isdigit (sint (cur s 0))")
    case True
    then show ?thesis using step(2) same_vars_adv [OF step(1)] by simp
  next
    case False
    then show ?thesis using step(2) by auto
  qed
qed

lemma same_vars_ident: "ident_loop i s = Some r \<Longrightarrow> same_vars s (snd r)"
proof (induction i s r rule: ident_loop_induct)
  case (step f i s r)
  have "same_vars s t" if "same_vars (adv 1 (set_mem m s)) t" for m t
    by (rule same_vars_trans [OF _ that]) simp
  then show ?case using step(2)
    by (auto split: if_splits dest!: step(1) dest: same_vars_adv)
qed

lemma same_vars_parse: "parse_ident s = Some (p, t) \<Longrightarrow> same_vars s t \<and> p = ident_buf s"
  by (auto simp: parse_ident_def dest!: bind_SomeD same_vars_skip same_vars_ident intro: same_vars_trans)

text \<open>Values never carry a name, if the variables do not.\<close>

definition nameless :: "msh \<Rightarrow> bool" where
  "nameless s \<longleftrightarrow> (\<forall>i. vname (vars s i) = (\<lambda>_. 0))"

definition plain_value :: "msh_var \<Rightarrow> bool" where
  "plain_value v \<longleftrightarrow> vname v = (\<lambda>_. 0)"

lemma plain_zero [simp]: "plain_value zero_var"
  by (simp add: plain_value_def zero_var_def)

lemma plain_update [simp]:
  "plain_value (v\<lparr>vtype := t\<rparr>) \<longleftrightarrow> plain_value v"
  "plain_value (v\<lparr>vval := x\<rparr>) \<longleftrightarrow> plain_value v"
  by (simp_all add: plain_value_def)

lemma nameless_same: "same_vars s t \<Longrightarrow> nameless t \<longleftrightarrow> nameless s"
  by (simp add: same_vars_def nameless_def)

lemma convert_frame:
  assumes "convert_var v ty s = Some (w, t)"
  shows "same_vars s t \<and> (plain_value v \<longrightarrow> plain_value w)"
proof -
  obtain p s1 where m: "m_malloc 32 s = (p, s1)" by (cases "m_malloc 32 s")
  from same_vars_malloc [OF m] show ?thesis using assms
    by (auto simp: convert_var_def m Let_def split: msh_type.splits if_splits dest!: bind_SomeD)
qed

lemma binary_op_frame:
  assumes "binary_op c result l r s = Some (w, t)" and "plain_value result"
  shows "same_vars s t \<and> plain_value w"
proof -
  obtain ty l' r' s1 where u: "unify l r s = Some (ty, l', r', s1)"
    and a: "\<exists>s2. apply_op c ty (result\<lparr>vtype := ty\<rparr>) l' r' s1 = Some (w, s2) \<and>
      t = drop_str ty r' (drop_str ty l' s2)"
    using assms(1) by (auto simp: binary_op_def dest!: bind_SomeD)
  have "same_vars s s1"
    using u by (auto simp: unify_def Let_def split: if_splits dest!: bind_SomeD convert_frame
        intro: same_vars_trans)
  moreover have "same_vars s1 s2 \<and> plain_value w"
    if "apply_op c ty (result\<lparr>vtype := ty\<rparr>) l' r' s1 = Some (w, s2)" for s2
    using that assms(2) by (auto simp: apply_op_def str_concat_def Let_def split: if_splits prod.splits
        dest!: bind_SomeD same_vars_malloc)
  ultimately show ?thesis using a by (auto intro: same_vars_trans)
qed

lemma find_loop_None:
  assumes "i \<le> var_count s" and "\<forall>i. vname (vars s i) = (\<lambda>_. 0)" and "ms_mem s name \<noteq> 0"
  shows "find_loop i name s = Some None"
  using assms(1)
proof (induction rule: count_induct)
  case stop
  show ?case by (simp add: find_loop.simps)
next
  case (step i)
  then show ?case using assms(2,3) by (subst find_loop.simps) (simp add: strcmp.simps unsigned_eq_0_iff)
qed

lemma find_var_None: "nameless s \<Longrightarrow> ms_mem s name \<noteq> 0 \<Longrightarrow> find_var name s = Some None"
  by (simp add: find_var_def find_loop_None nameless_def)

text \<open>The identifier of a reference starts with a letter, so its name is not empty.\<close>

lemma ms_mem_simps [simp]:
  "ms_mem (set_mem m s) = m" "ms_mem (adv k s) = ms_mem s" "ms_mem (fail s) = ms_mem s"
  "ident_buf (set_mem m s) = ident_buf s" "ident_buf (adv k s) = ident_buf s"
  "pc (set_mem m s) = pc s" "code (set_mem m s) = code s" "code (adv k s) = code s"
  "pc (adv k s) = pc s + k" "had_error (set_mem m s) = had_error s" "had_error (adv k s) = had_error s"
  by (simp_all add: ms_mem_def set_mem_def adv_def fail_def)

lemma buf_offset: "1 \<le> n \<Longrightarrow> n \<le> 31 \<Longrightarrow> p + of_nat n \<noteq> (p :: u32)"
  using of_nat_inj32 [of n 0] by simp

lemma ident_loop_first:
  "ident_loop i s = Some r \<Longrightarrow> i = of_nat n \<Longrightarrow> 1 \<le> n \<Longrightarrow> n \<le> 31 \<Longrightarrow> ms_mem s (ident_buf s) \<noteq> 0 \<Longrightarrow>
    \<exists>k. fst r = of_nat k \<and> 1 \<le> k \<and> k \<le> 31 \<and> ms_mem (snd r) (ident_buf s) \<noteq> 0"
proof (induction i s r arbitrary: n rule: ident_loop_induct)
  case (step f i s r)
  show ?case
  proof (cases "ident_char (cur s 0)")
    case False
    then show ?thesis using step(2-6) by auto
  next
    case True
    show ?thesis
    proof (cases "sint i < 31")
      case True
      then have "n < 31" using step(3,5) sint_of_nat32 [of n] by simp
      then show ?thesis using True \<open>ident_char (cur s 0)\<close> step(2-6) buf_offset [of n "ident_buf s"]
          step(1) [of "i + 1" "adv 1 (set_mem ((ms_mem s)(ident_buf s + i := cur s 0)) s)" r "Suc n"]
        by (simp add: add.commute)
    next
      case False
      then show ?thesis using \<open>ident_char (cur s 0)\<close> step(2-6) step(1) [of i "adv 1 s" r n] by simp
    qed
  qed
qed

lemma parse_ident_name:
  assumes "parse_ident s = Some (p, t)" and "isalpha (sint (cur s 0))"
  shows "ms_mem t p \<noteq> 0"
proof -
  have sk: "skip_whitespace s = Some s"
    using assms(2) char_classes_disjoint(1) by (subst skip_whitespace.simps) (auto simp: isalnum_def)
  have c: "ident_char (cur s 0)" "cur s 0 \<noteq> 0"
    using assms(2) by (auto simp: ident_char_def isalnum_def isalpha_def)
  obtain i s2 where l: "ident_loop 0 s = Some (i, s2)"
    and t: "t = set_mem ((ms_mem s2)(ident_buf s2 + i := 0)) s2" "p = ident_buf s"
    using assms(1) sk by (auto simp: parse_ident_def dest!: bind_SomeD)
  have ib: "ident_buf s2 = ident_buf s" using same_vars_ident [OF l] by (simp add: same_vars_def same_io_def)
  let ?s1 = "adv 1 (set_mem ((ms_mem s)(ident_buf s := cur s 0)) s)"
  have "ident_loop 1 ?s1 = Some (i, s2)"
    using l c by (subst (asm) ident_loop.simps) simp
  from ident_loop_first [OF this, of 1] c obtain k where
    "i = of_nat k" "1 \<le> k" "k \<le> 31" "ms_mem s2 (ident_buf s) \<noteq> 0" by auto
  then show ?thesis using t ib buf_offset [of k "ident_buf s"] by simp
qed

text \<open>Every variable reference is an error.\<close>

lemma var_reference_fails:
  assumes "nameless s" and "isalpha (sint (cur s 0))" and "var_reference s = Some (x, t)"
  shows "x = Operand zero_var zero_var \<and> had_error t \<and> same_vars s t"
proof -
  obtain p s1 where p: "parse_ident s = Some (p, s1)"
    using assms(3) by (auto simp: var_reference_def dest!: bind_SomeD)
  have "nameless s1" using same_vars_parse [OF p] nameless_same assms(1) by blast
  then have "find_var p s1 = Some None"
    by (rule find_var_None) (rule parse_ident_name [OF p assms(2)])
  then show ?thesis using assms(3) p same_vars_parse [OF p] by (auto simp: var_reference_def fail_def
        same_vars_def same_io_def)
qed

lemma same_vars_refs:
  assumes "nameless s" and "string_literal s = Some (x, t) \<or> number_literal s = Some (x, t)"
  shows "same_vars s t \<and> (case x of Operand a b \<Rightarrow> plain_value a \<and> plain_value b | Returned a \<Rightarrow> plain_value a)"
  using assms(2)
proof
  assume a: "string_literal s = Some (x, t)"
  then obtain s1 where "scan_quote (adv 1 s) = Some s1"
    by (auto simp: string_literal_def Let_def dest!: bind_SomeD)
  then have s1: "scan_quote (adv 1 s) = Some s1" "same_vars s s1"
    using same_vars_scan same_vars_adv by blast+
  have "same_vars s s2" if "m_malloc n s1 = (p, s2)" for n p s2
    using same_vars_trans [OF s1(2) same_vars_malloc [OF that]] .
  then show ?thesis using a s1 by (auto simp: string_literal_def Let_def split: if_splits prod.splits)
next
  assume "number_literal s = Some (x, t)"
  then show ?thesis by (auto simp: number_literal_def Let_def dest!: bind_SomeD same_vars_number)
qed

lemma same_vars_back: "same_vars s t \<Longrightarrow> same_vars (adv k t) u \<Longrightarrow> same_vars s u"
  by (rule same_vars_trans) (auto dest: same_vars_adv)

lemma eval_expr_frame:
  "eval_expr s = Some r \<Longrightarrow> nameless s \<Longrightarrow> same_vars s (snd r) \<and> plain_value (fst r)"
proof (induction s r rule: eval_expr_induct)
  case (step f s0 r)
  from step(2) obtain s x where sk: "skip_whitespace s0 = Some s"
    and x: "(if isdigit (sint (cur s 0)) then number_literal s
        else if cur s 0 = ch CHR 0x22 then string_literal s
        else if isalpha (sint (cur s 0)) then var_reference s
        else Some (Operand zero_var zero_var, s)) = Some x"
    and r: "(case fst x of Returned v \<Rightarrow> Some (v, snd x)
      | Operand result left \<Rightarrow> do {
          s1 \<leftarrow> skip_whitespace (snd x);
          if is_op (cur s1 0) then do { r \<leftarrow> f (adv 1 s1); binary_op (cur s1 0) result left (fst r) (snd r) }
          else Some (left, s1)
        }) = Some r"
    by (auto simp: no_keyword cong: if_cong dest!: bind_SomeD)
  have n: "nameless s" "same_vars s0 s" using same_vars_skip [OF sk] step(3) by (simp_all add: nameless_same)
  have ok: "same_vars s (snd x) \<and> (case fst x of Operand a b \<Rightarrow> plain_value a \<and> plain_value b | Returned a \<Rightarrow> plain_value a)"
    using x same_vars_refs [OF n(1), of "fst x" "snd x"] var_reference_fails [OF n(1), of "fst x" "snd x"]
    by (auto split: if_splits)
  show ?case
  proof (cases "fst x")
    case (Returned v)
    then show ?thesis using r ok n(2) by (auto intro: same_vars_trans)
  next
    case (Operand a b)
    then obtain s1 where s1: "skip_whitespace (snd x) = Some s1" using r by (auto dest!: bind_SomeD)
    have v1: "same_vars s0 s1" using same_vars_skip [OF s1] ok n(2) same_vars_trans by blast
    show ?thesis
    proof (cases "is_op (cur s1 0)")
      case False
      then show ?thesis using r Operand ok s1 v1 by auto
    next
      case True
      then obtain q where q: "f (adv 1 s1) = Some q" "binary_op (cur s1 0) a b (fst q) (snd q) = Some r"
        using r Operand s1 by (auto dest!: bind_SomeD)
      have "same_vars (adv 1 s1) (snd q)" using step(1) [OF q(1)] step(3) v1 by (simp add: nameless_same)
      then show ?thesis
        using binary_op_frame [of _ a b "fst q" "snd q" "fst r" "snd r"] q(2) ok Operand
          same_vars_trans [OF same_vars_back [OF v1], of 1 "snd q" "snd r"] by simp
    qed
  qed
qed

section \<open>What a program can do\<close>

text \<open>The state between statements: no variable has a name, and the table is within its 64 entries.\<close>

definition msh_inv :: "msh \<Rightarrow> bool" where
  "msh_inv s \<longleftrightarrow> nameless s \<and> var_count s \<le> 64"

lemma msh_init_inv [simp]: "msh_inv (msh_init s)"
  by (simp add: msh_inv_def msh_init_def nameless_def zero_var_def)

lemma msh_inv_same: "same_vars s t \<Longrightarrow> msh_inv t \<longleftrightarrow> msh_inv s"
  by (simp add: msh_inv_def nameless_def same_vars_def)

text \<open>An assignment never finds its variable: it takes a new entry, or fails when none is left.\<close>

lemma set_var_eq:
  assumes "nameless s" and "ms_mem s name \<noteq> 0"
  shows "set_var name v s = Some (if var_count s < 64
    then assign_var (var_count s) v (name_var name (var_count s) (s\<lparr>var_count := var_count s + 1\<rparr>))
    else fail s)"
  using find_var_None [OF assms] by (simp add: set_var_def)

lemma assign_new:
  "same_io s (assign_var i v (name_var name i s))"
  "vars (assign_var i v (name_var name i s)) = (vars s)(i := v)"
  "var_count (assign_var i v (name_var name i s)) = var_count s"
  "had_error (assign_var i v (name_var name i s)) = had_error s"
  by (simp_all add: same_io_def assign_var_def name_var_def m_free_def Let_def)

lemma assign_var_inv:
  assumes "msh_inv s" and "plain_value v"
  shows "same_io s (assign_var i v s) \<and> msh_inv (assign_var i v s)"
  using assms by (simp add: msh_inv_def nameless_def plain_value_def assign_var_def m_free_def same_io_def Let_def)

lemma set_var_inv:
  assumes "msh_inv s" and "plain_value v" and "set_var name v s = Some t"
  shows "same_io s t \<and> msh_inv t"
proof -
  obtain i where i: "find_var name s = Some i" using assms(3) by (auto simp: set_var_def dest!: bind_SomeD)
  consider j where "i = Some j" | "i = None" "var_count s < 64" | "i = None" "\<not> var_count s < 64"
    by (cases i) auto
  then show ?thesis
  proof cases
    case 1
    then show ?thesis using assign_var_inv [OF assms(1,2)] assms(3) i by (auto simp: set_var_def)
  next
    case 2
    let ?s1 = "s\<lparr>var_count := var_count s + 1\<rparr>"
    have t: "t = assign_var (var_count s) v (name_var name (var_count s) ?s1)"
      using 2 assms(3) i by (simp add: set_var_def)
    have "same_io ?s1 t" unfolding t by (rule assign_new(1))
    moreover have "vars t = (vars s)(var_count s := v)" "var_count t = var_count s + 1"
      unfolding t by (simp_all add: assign_new)
    moreover have "var_count s + 1 \<le> 64" using 2 by (simp add: inc_le)
    ultimately show ?thesis
      using assms(1,2) by (simp add: msh_inv_def nameless_def plain_value_def same_io_def)
  next
    case 3
    then have "t = fail s" using assms(3) i by (simp add: set_var_def)
    then show ?thesis using assms(1) by (auto simp: msh_inv_def fail_def same_io_def nameless_def)
  qed
qed

lemma same_vars_io: "same_vars s t \<Longrightarrow> same_io s t"
  by (simp add: same_vars_def)

lemma assignment_inv:
  assumes "assignment s = Some t" and "msh_inv s"
  shows "same_io s t \<and> msh_inv t"
proof -
  obtain name s1 s2 where p: "parse_ident s = Some (name, s1)" and w: "skip_whitespace s1 = Some s2"
    using assms(1) by (fastforce simp: assignment_def dest!: bind_SomeD)
  have v: "same_vars s s2" using same_vars_parse [OF p] same_vars_skip [OF w] same_vars_trans by blast
  show ?thesis
  proof (cases "cur s2 0 = ch CHR ''=''")
    case False
    then show ?thesis using assms p w v by (auto simp: assignment_def same_vars_io msh_inv_same)
  next
    case True
    then obtain r where e: "eval_expr (adv 1 s2) = Some r"
      and t: "if had_error (snd r) then t = snd r else set_var name (fst r) (snd r) = Some t"
      using assms p w by (auto simp: assignment_def dest!: bind_SomeD split: if_splits)
    have v3: "same_vars s (adv 1 s2)" using v by simp
    have n: "nameless (adv 1 s2)" using nameless_same [OF v3] assms(2) by (simp add: msh_inv_def)
    from same_vars_trans [OF v3] eval_expr_frame [OF e n]
    have f: "same_vars s (snd r)" "plain_value (fst r)" by auto
    have i: "same_io s (snd r)" "msh_inv (snd r)" using f(1) assms(2) by (simp_all add: same_vars_io msh_inv_same)
    show ?thesis
      using t i set_var_inv [OF i(2) f(2)] same_io_trans [OF i(1)] by (auto split: if_splits)
  qed
qed

lemma run_assignments_inv:
  "run_assignments s = Some t \<Longrightarrow> msh_inv s \<Longrightarrow> same_io s t \<and> msh_inv t"
proof (induction s t rule: run_assignments_induct)
  case (step f s0 t)
  show ?case
  proof (cases "cur s0 0 \<noteq> 0 \<and> \<not> had_error s0")
    case False
    then show ?thesis using step(2,3) by auto
  next
    case True
    then obtain s s1 where s: "skip_whitespace s0 = Some s" and f: "f s1 = Some t"
      and s1: "if isalpha (sint (cur s 0)) then assignment s = Some s1 else s1 = adv 1 s"
      using step(2) by (auto dest!: bind_SomeD split: if_splits)
    have v: "same_io s0 s" "msh_inv s"
      using same_vars_skip [OF s] step(3) by (simp_all add: same_vars_io msh_inv_same)
    have "same_io s s1 \<and> msh_inv s1"
      using s1 assignment_inv [OF _ v(2)] v(2) msh_inv_same [of s "adv 1 s"] same_vars_io [of s "adv 1 s"]
      by (auto split: if_splits)
    then show ?thesis using step(1) [OF f] v(1) same_io_trans by blast
  qed
qed

text \<open>A whole run neither prints nor touches a device, whatever the program says.\<close>

lemma msh_execute_inv:
  assumes "msh_execute c s = Some (ok, t)" and "msh_inv s"
  shows "same_io s t \<and> msh_inv t \<and> (ok \<longleftrightarrow> \<not> had_error t)"
proof -
  have "run_assignments (start_run c s) = Some t" "ok \<longleftrightarrow> \<not> had_error t"
    using assms(1) by (auto simp: msh_execute_def run_code_assignments dest!: bind_SomeD)
  moreover have "msh_inv (start_run c s)" "same_io s (start_run c s)"
    using assms(2) by (simp_all add: start_run_def msh_inv_def nameless_def same_io_def)
  ultimately show ?thesis using run_assignments_inv same_io_trans by blast
qed

end
