(* ===== verification/MsPrograms.thy ===== *)
theory MsPrograms
  imports MsFrame
begin

text \<open>
  What programs mean: the value of arithmetic expressions (every operator takes the whole rest as
  its right operand), the effect of an assignment, and the run of a program of assignments from
  its text to the final variable table.
\<close>

section \<open>Arithmetic\<close>

text \<open>\<open>reads s t\<close>: the program text from \<open>pc\<close> on starts with \<open>t\<close>.\<close>

fun reads :: "msh \<Rightarrow> u8 list \<Rightarrow> bool" where
  "reads s [] \<longleftrightarrow> True"
| "reads s (c # t) \<longleftrightarrow> cur s 0 = c \<and> reads (adv 1 s) t"

lemma adv_adv [simp]: "adv j (adv k s) = adv (k + j) s" "adv 0 s = s"
  by (simp_all add: adv_def add.assoc)

lemma reads_append: "reads s (t @ u) \<longleftrightarrow> reads s t \<and> reads (adv (of_nat (length t)) s) u"
  by (induction t arbitrary: s) auto

lemma reads_hd: "reads s t \<Longrightarrow> t \<noteq> [] \<Longrightarrow> cur s 0 = hd t"
  by (cases t) auto

text \<open>A sum of literals: blanks, digits, blanks, and an operator with the rest.\<close>

datatype arith = Num "u8 list" "u8 list" "u8 list" | Bin "u8 list" "u8 list" "u8 list" u8 arith

fun arith_text :: "arith \<Rightarrow> u8 list" where
  "arith_text (Num ws ds vs) = ws @ ds @ vs"
| "arith_text (Bin ws ds vs c e) = ws @ ds @ vs @ c # arith_text e"

definition literal :: "u8 list \<Rightarrow> u8 list \<Rightarrow> u8 list \<Rightarrow> bool" where
  "literal ws ds vs \<longleftrightarrow> ds \<noteq> [] \<and> (\<forall>c \<in> set ds. isdigit (sint c)) \<and> (\<forall>c \<in> set ws \<union> set vs. isspace (sint c))"

fun arith_ok :: "arith \<Rightarrow> bool" where
  "arith_ok (Num ws ds vs) \<longleftrightarrow> literal ws ds vs"
| "arith_ok (Bin ws ds vs c e) \<longleftrightarrow> literal ws ds vs \<and> is_op c \<and> arith_ok e"

definition int_op :: "u8 \<Rightarrow> s32 \<Rightarrow> s32 \<Rightarrow> s32 option" where
  "int_op c a b =
     (if c = ch CHR ''+'' then Some (a + b) else if c = ch CHR ''-'' then Some (a - b)
      else if c = ch CHR ''*'' then Some (a * b) else if b = 0 then None else c_div a b)"

text \<open>The value: every operator takes all that follows it as its right operand.\<close>

fun arith_val :: "arith \<Rightarrow> s32 option" where
  "arith_val (Num ws ds vs) = Some (of_nat (dec_val 0 ds))"
| "arith_val (Bin ws ds vs c e) = do { r \<leftarrow> arith_val e; int_op c (of_nat (dec_val 0 ds)) r }"

lemma skip_reads:
  "reads s (ws @ [c]) \<Longrightarrow> \<forall>c \<in> set ws. isspace (sint c) \<Longrightarrow> \<not> isspace (sint c) \<Longrightarrow>
    skip_whitespace s = Some (adv (of_nat (length ws)) s)"
proof (induction ws arbitrary: s)
  case Nil
  then show ?case by (simp add: skip_whitespace.simps [of s])
next
  case (Cons a ws)
  then show ?case by (simp add: skip_whitespace.simps [of s])
qed

lemma number_reads:
  "reads s (ds @ [c]) \<Longrightarrow> \<forall>c \<in> set ds. isdigit (sint c) \<Longrightarrow> \<not> isdigit (sint c) \<Longrightarrow>
    number_loop (of_nat n) s = Some (of_nat (dec_val n ds), adv (of_nat (length ds)) s)"
proof (induction ds arbitrary: s n)
  case Nil
  then show ?case by (simp add: number_loop.simps [of _ s])
next
  case (Cons a ds)
  then have d: "isdigit (sint a)" "cur s 0 = a" by simp_all
  then have "number_loop (of_nat n) s = number_loop (of_nat (10 * n + (unat a - 48))) (adv 1 s)"
    using digit_step [OF d(1), of n] by (subst number_loop.simps) (simp only: if_True)
  also have "\<dots> = Some (of_nat (dec_val (10 * n + (unat a - 48)) ds), adv (of_nat (length ds)) (adv 1 s))"
    by (rule Cons.IH) (use Cons.prems in auto)
  finally show ?case by (simp add: add.commute)
qed

definition int_var :: "s32 \<Rightarrow> msh_var" where
  "int_var v = zero_var\<lparr>vtype := MSH_TYPE_INT, vval := v\<rparr>"

lemma binary_op_int:
  assumes "int_op c a b = Some v" and "is_op c"
  shows "binary_op c (int_var a) (int_var a) (int_var b) s = Some (int_var v, s)"
  using assms by (auto simp: binary_op_def unify_def apply_op_def drop_str_def int_var_def int_op_def
      is_op_def ch_def Let_def split: if_splits)

lemma ops_not_space: "is_op c \<Longrightarrow> \<not> isspace (sint c)" "is_op c \<Longrightarrow> \<not> isdigit (sint c)"
  by (auto simp: is_op_def ch_def isspace_def isdigit_def)

lemma eval_literal:
  assumes "reads s (ws @ ds @ vs @ [c])" and l: "literal ws ds vs"
    and "\<not> isdigit (sint c)" and "\<not> isspace (sint c)"
  defines "s1 \<equiv> adv (of_nat (length (ws @ ds @ vs))) s" and "v \<equiv> int_var (of_nat (dec_val 0 ds))"
  shows "eval_expr s = (if is_op c then do {
      r \<leftarrow> eval_expr (adv 1 s1);
      binary_op c v v (fst r) (snd r)
    } else Some (v, s1))"
proof -
  obtain d ds' where ds: "ds = d # ds'" "isdigit (sint d)" using l by (cases ds) (auto simp: literal_def)
  let ?a = "adv (of_nat (length ws)) s"
  have rd: "reads s (ws @ [d])" "reads ?a (ds @ vs @ [c])"
    using assms(1) ds by (simp_all add: reads_append)
  have "\<not> isspace (sint d)" using ds(2) char_classes_disjoint(1) by (auto simp: isalnum_def)
  then have w: "skip_whitespace s = Some ?a" using skip_reads [OF rd(1)] l by (auto simp: literal_def)
  obtain u us where u: "vs @ [c] = u # us" by (cases vs) auto
  have "\<not> isdigit (sint u)"
    using u l assms(3) char_classes_disjoint(1) by (cases vs) (auto simp: literal_def isalnum_def)
  moreover have "reads ?a (ds @ [u])" using rd(2) u by (simp add: reads_append)
  ultimately have n: "number_loop 0 ?a = Some (of_nat (dec_val 0 ds), adv (of_nat (length ds)) ?a)"
    using number_reads [of ?a ds u 0] l by (auto simp: literal_def)
  have "reads (adv (of_nat (length ds)) ?a) (vs @ [c])" using rd(2) by (simp only: reads_append)
  then have w2: "skip_whitespace (adv (of_nat (length ds)) ?a) = Some s1"
    using skip_reads [of "adv (of_nat (length ds)) ?a" vs c] l assms(4)
    by (auto simp: literal_def s1_def add.assoc)
  have c: "cur s1 0 = c" using assms(1) unfolding s1_def
    by (simp only: append_assoc [symmetric] reads_append [of s _ "[c]"] reads.simps)
  have "cur ?a 0 = d" using rd(1) by (simp add: reads_append)
  then have "eval_expr s = (do {
      x \<leftarrow> number_literal ?a;
      case fst x of
        Returned v \<Rightarrow> Some (v, snd x)
      | Operand result left \<Rightarrow> do {
          s1 \<leftarrow> skip_whitespace (snd x);
          if is_op (cur s1 0) then do { r \<leftarrow> eval_expr (adv 1 s1); binary_op (cur s1 0) result left (fst r) (snd r) }
          else Some (left, s1) }})"
    using w ds(2) by (subst eval_expr_eq) (simp del: adv_adv)
  then show ?thesis using n w2 c by (simp add: number_literal_def v_def int_var_def Let_def del: adv_adv)
qed

text \<open>Operators have no precedence and group to the right.\<close>

lemma eval_arith:
  assumes "arith_ok e" and "reads s (arith_text e @ [z])" and "arith_val e = Some v"
    and "\<not> isdigit (sint z)" and "\<not> isspace (sint z)" and "\<not> is_op z"
  shows "eval_expr s = Some (int_var v, adv (of_nat (length (arith_text e))) s)"
  using assms(1-3)
proof (induction e arbitrary: s v)
  case (Num ws ds vs)
  then show ?case using eval_literal [of s ws ds vs z] assms(4-6) by simp
next
  case (Bin ws ds vs c e)
  let ?s1 = "adv (of_nat (length (ws @ ds @ vs))) s"
  have ok: "literal ws ds vs" "is_op c" "arith_ok e" using Bin.prems(1) by simp_all
  obtain r where r: "arith_val e = Some r" "int_op c (of_nat (dec_val 0 ds)) r = Some v"
    using Bin.prems(3) by (auto dest!: bind_SomeD)
  have t: "reads s ((ws @ ds @ vs) @ c # (arith_text e @ [z]))" using Bin.prems(2) by simp
  have "reads s ((ws @ ds @ vs) @ [c])" using t by (simp only: reads_append reads.simps simp_thms)
  moreover have "reads (adv 1 ?s1) (arith_text e @ [z])"
    using t by (simp only: reads_append [of s] reads.simps)
  ultimately have e: "eval_expr s = do {
      r \<leftarrow> Some (int_var r, adv (of_nat (length (arith_text e))) (adv 1 ?s1));
      binary_op c (int_var (of_nat (dec_val 0 ds))) (int_var (of_nat (dec_val 0 ds))) (fst r) (snd r) }"
    using eval_literal [of s ws ds vs c] ok ops_not_space Bin.IH [OF ok(3) _ r(1)] by simp
  show ?case using e binary_op_int [OF r(2) ok(2)] by (simp add: algebra_simps)
qed

section \<open>Programs of assignments\<close>

text \<open>\<open>advanced s k t\<close>: \<open>t\<close> is \<open>k\<close> bytes further in the same text, and of the memory only the
  identifier buffer may have changed.\<close>

definition advanced :: "msh \<Rightarrow> nat \<Rightarrow> msh \<Rightarrow> bool" where
  "advanced s k t \<longleftrightarrow> code t = code s \<and> pc t = pc s + of_nat k \<and> ident_buf t = ident_buf s \<and>
     had_error t = had_error s \<and> (\<forall>a. \<not> in_rng (ident_buf s) 32 a \<longrightarrow> ms_mem t a = ms_mem s a)"

lemma advanced_adv: "advanced s k (adv (of_nat k) s)"
  by (simp add: advanced_def)

lemma advanced_refl [simp]: "advanced s 0 s"
  by (simp add: advanced_def)

lemma advanced_trans: "advanced s j t \<Longrightarrow> advanced t k u \<Longrightarrow> advanced s (j + k) u"
  by (simp add: advanced_def add.assoc)

definition buffer_clear :: "msh \<Rightarrow> nat \<Rightarrow> bool" where
  "buffer_clear s n \<longleftrightarrow> rng_disj (code s + pc s) n (ident_buf s) 32"

lemma reads_cong:
  "reads s t \<Longrightarrow> code s' = code s \<Longrightarrow> pc s' = pc s \<Longrightarrow>
    (\<And>a. in_rng (code s + pc s) (length t) a \<Longrightarrow> ms_mem s' a = ms_mem s a) \<Longrightarrow> reads s' t"
proof (induction t arbitrary: s s')
  case (Cons c t)
  have "ms_mem s' a = ms_mem s a" if "in_rng (code s + (pc s + 1)) (length t) a" for a
    using that Cons.prems(4) [of a] by (simp add: in_rng_Suc add.assoc)
  then show ?case using Cons.prems Cons.IH [of "adv 1 s" "adv 1 s'"] by (simp add: cur_def)
qed simp

lemma buffer_clear_later:
  assumes "buffer_clear s (k + n)" and "code t = code s" and "pc t = pc s + of_nat k" and "ident_buf t = ident_buf s"
  shows "buffer_clear t n"
  unfolding buffer_clear_def rng_disj_def
proof (intro allI notI, elim conjE)
  fix a assume "in_rng (code t + pc t) n a" "in_rng (ident_buf t) 32 a"
  then have "in_rng (code s + pc s) (k + n) a" "in_rng (ident_buf s) 32 a"
    using assms(2-4) in_rng_shift [of "code s + pc s" k n a "k + n"] by (simp_all add: add.assoc)
  then show False using assms(1) by (auto simp: buffer_clear_def rng_disj_def)
qed

lemma advanced_clear: "advanced s k t \<Longrightarrow> buffer_clear s (k + n) \<Longrightarrow> buffer_clear t n"
  by (rule buffer_clear_later) (auto simp: advanced_def)

lemma reads_advanced:
  assumes "advanced s k t" and "buffer_clear s (k + length x)" and "reads (adv (of_nat k) s) x"
  shows "reads t x"
proof (rule reads_cong [OF assms(3)])
  fix a assume "in_rng (code (adv (of_nat k) s) + pc (adv (of_nat k) s)) (length x) a"
  then have "\<not> in_rng (ident_buf s) 32 a"
    using buffer_clear_later [OF assms(2), of "adv (of_nat k) s"] by (auto simp: buffer_clear_def rng_disj_def)
  then show "ms_mem t a = ms_mem (adv (of_nat k) s) a" using assms(1) by (simp add: advanced_def)
qed (use assms(1) in \<open>simp_all add: advanced_def\<close>)

lemma ident_loop_reads:
  "reads s (xs @ [c]) \<Longrightarrow> \<forall>x \<in> set xs. ident_char x \<Longrightarrow> \<not> ident_char c \<Longrightarrow> n \<le> 31 \<Longrightarrow>
    buffer_clear s (length xs + 1) \<Longrightarrow>
    \<exists>k t. ident_loop (of_nat n) s = Some (of_nat k, t) \<and> k \<le> 31 \<and> advanced s (length xs) t"
proof (induction xs arbitrary: s n)
  case Nil
  then show ?case by (intro exI [of _ n] exI [of _ s]) (simp add: ident_loop.simps)
next
  case (Cons x xs)
  define s1 where "s1 = (if n < 31 then adv 1 (set_mem ((ms_mem s)(ident_buf s + of_nat n := x)) s) else adv 1 s)"
  define n1 where "n1 = (if n < 31 then Suc n else n)"
  have x: "cur s 0 = x" "ident_char x" using Cons.prems(1,2) by simp_all
  have n: "sint (of_nat n :: u32) < 31 \<longleftrightarrow> n < 31" using Cons.prems(4) sint_of_nat32 [of n] by simp
  have go: "ident_loop (of_nat n) s = ident_loop (of_nat n1) s1"
    using x n by (subst ident_loop.simps) (simp add: s1_def n1_def add.commute)
  have "in_rng (ident_buf s) 32 (ident_buf s + of_nat n)" using Cons.prems(4) by (simp add: in_rng_of_nat)
  then have a1: "advanced s 1 s1" by (auto simp: advanced_def s1_def)
  have "reads s1 (xs @ [c])"
    by (rule reads_advanced [OF a1]) (use Cons.prems in simp_all)
  moreover have "buffer_clear s1 (length xs + 1)" by (rule advanced_clear [OF a1]) (use Cons.prems in simp)
  moreover have "n1 \<le> 31" using Cons.prems(4) by (simp add: n1_def)
  ultimately obtain k t where "ident_loop (of_nat n1) s1 = Some (of_nat k, t)" "k \<le> 31" "advanced s1 (length xs) t"
    using Cons.IH [of s1 n1] Cons.prems by auto
  then show ?case using go advanced_trans [OF a1] by (auto simp del: of_nat_Suc)
qed

definition ident_text :: "u8 list \<Rightarrow> bool" where
  "ident_text xs \<longleftrightarrow> xs \<noteq> [] \<and> isalpha (sint (hd xs)) \<and> (\<forall>x \<in> set xs. ident_char x)"

lemma alpha_not_space: "isalpha (sint c) \<Longrightarrow> \<not> isspace (sint c)"
  using char_classes_disjoint(1) by (auto simp: isalnum_def)

lemma parse_ident_reads:
  assumes "reads s (xs @ [c])" and "ident_text xs" and "\<not> ident_char c" and "buffer_clear s (length xs + 1)"
  shows "\<exists>t. parse_ident s = Some (ident_buf s, t) \<and> advanced s (length xs) t \<and> ms_mem t (ident_buf s) \<noteq> 0"
proof -
  have c: "isalpha (sint (cur s 0))" using assms(1,2) reads_hd [of s "xs @ [c]"] by (simp add: ident_text_def)
  have sk: "skip_whitespace s = Some s" using alpha_not_space [OF c] by (subst skip_whitespace.simps) simp
  obtain k t where t: "ident_loop 0 s = Some (of_nat k, t)" "k \<le> 31" "advanced s (length xs) t"
    using ident_loop_reads [of s xs c 0] assms by (auto simp: ident_text_def)
  let ?t = "set_mem ((ms_mem t)(ident_buf t + of_nat k := 0)) t"
  have p: "parse_ident s = Some (ident_buf s, ?t)" using sk t(1) by (simp add: parse_ident_def)
  have "in_rng (ident_buf s) 32 (ident_buf s + of_nat k)" using t(2) by (simp add: in_rng_of_nat)
  then have "advanced s (length xs) ?t" using t(3) by (auto simp: advanced_def)
  then show ?thesis using p parse_ident_name [OF p c] by blast
qed


text \<open>One statement: the identifier, blanks, \<open>=\<close>, an expression.\<close>

datatype stmt = Assign "u8 list" "u8 list" arith

fun stmt_text :: "stmt \<Rightarrow> u8 list" where
  "stmt_text (Assign xs ws e) = xs @ ws @ ch CHR ''='' # arith_text e"

fun stmt_ok :: "stmt \<Rightarrow> bool" where
  "stmt_ok (Assign xs ws e) \<longleftrightarrow> ident_text xs \<and> (\<forall>c \<in> set ws. isspace (sint c)) \<and> arith_ok e"

fun stmt_val :: "stmt \<Rightarrow> s32 option" where
  "stmt_val (Assign xs ws e) = arith_val e"

text \<open>What may stand after a statement: the next one's first letter, or the NUL.\<close>

definition stops :: "u8 \<Rightarrow> bool" where
  "stops z \<longleftrightarrow> z = 0 \<or> isalpha (sint z)"

lemma stops_class:
  assumes "stops z"
  shows "\<not> isdigit (sint z)" "\<not> isspace (sint z)" "\<not> is_op z"
proof -
  show "\<not> isdigit (sint z)" "\<not> isspace (sint z)"
    using assms char_classes_disjoint alpha_not_space by (auto simp: stops_def)
  show "\<not> is_op z" using assms by (auto simp: stops_def is_op_def ch_def isalpha_def)
qed

lemma assign_advanced:
  assumes "t = assign_var i v (name_var p i (s\<lparr>var_count := n\<rparr>))"
  shows "advanced s 0 t \<and> vars t = (vars s)(i := v) \<and> var_count t = n"
  using assms by (simp add: advanced_def assign_var_def name_var_def m_free_def Let_def ms_mem_def)

lemma assignment_parsed:
  assumes "reads s (stmt_text st @ [z])" and "stmt_ok st" and "stops z" and "stmt_val st = Some v"
    and "buffer_clear s (length (stmt_text st) + 1)" and "nameless s" and "\<not> had_error s"
  shows "\<exists>t. assignment s = set_var (ident_buf s) (int_var v) t \<and> advanced s (length (stmt_text st)) t \<and>
    same_vars s t \<and> ms_mem t (ident_buf s) \<noteq> 0"
proof -
  obtain xs ws e where st: "st = Assign xs ws e" by (cases st)
  let ?n = "length xs" and ?w = "length ws" and ?e = "length (arith_text e)"
  have ok: "ident_text xs" "\<forall>c \<in> set ws. isspace (sint c)" "arith_ok e" "arith_val e = Some v"
    using assms(2,4) by (simp_all add: st)
  have rd: "reads s (xs @ ws @ ch CHR ''='' # arith_text e @ [z])" using assms(1) by (simp add: st)
  have clear: "buffer_clear s (?n + (?w + (1 + (?e + 1))))" using assms(5) by (simp add: st)
  have eq: "\<not> ident_char (ch CHR ''='')" "\<not> isspace (sint (ch CHR ''=''))"
    by (simp_all add: ident_char_def isalnum_def isalpha_def isdigit_def isspace_def ch_def)
  obtain u us where u: "ws @ ch CHR ''='' # arith_text e @ [z] = u # us" by (cases ws) auto
  have "\<not> ident_char u" using u ok(2) eq char_classes_disjoint(1)
    by (cases ws) (auto simp: ident_char_def ch_def isspace_def)
  moreover have "reads s (xs @ [u])" using rd unfolding u by (simp add: reads_append)
  moreover have "buffer_clear s (?n + 1)" using clear by (auto simp: buffer_clear_def intro: rng_disj_mono)
  ultimately obtain s1 where s1: "parse_ident s = Some (ident_buf s, s1)" "advanced s ?n s1"
    "ms_mem s1 (ident_buf s) \<noteq> 0"
    using parse_ident_reads ok(1) by blast
  have r1: "reads s1 (ws @ ch CHR ''='' # arith_text e @ [z])"
    by (rule reads_advanced [OF s1(2)]) (use clear rd in \<open>simp_all add: reads_append\<close>)
  let ?s2 = "adv (of_nat ?w) s1" and ?s3 = "adv 1 (adv (of_nat ?w) s1)"
  have "reads s1 (ws @ [ch CHR ''=''])" using r1 by (simp add: reads_append)
  then have s2: "skip_whitespace s1 = Some ?s2" "cur ?s2 0 = ch CHR ''=''"
    using skip_reads ok(2) eq(2) by (blast, simp add: reads_append)
  have "reads ?s3 (arith_text e @ [z])" using r1 by (simp add: reads_append)
  then have ev: "eval_expr ?s3 = Some (int_var v, adv (of_nat ?e) ?s3)"
    using eval_arith [OF ok(3) _ ok(4)] stops_class [OF assms(3)] by blast
  let ?s4 = "adv (of_nat ?e) ?s3"
  have a4: "advanced s (length (stmt_text st)) ?s4"
    using s1(2) by (simp add: advanced_def st add.assoc)
  have v4: "same_vars s ?s4" using same_vars_parse [OF s1(1)] by simp
  have "ms_mem ?s4 (ident_buf s) \<noteq> 0" "\<not> had_error ?s4" using s1(2,3) assms(7) by (simp_all add: advanced_def)
  then have "assignment s = set_var (ident_buf s) (int_var v) ?s4 \<and> ms_mem ?s4 (ident_buf s) \<noteq> 0"
    using s1(1) s2 ev by (simp add: assignment_def del: adv_adv)
  then show ?thesis using a4 v4 by blast
qed

lemma assignment_reads:
  assumes "reads s (stmt_text st @ [z])" and "stmt_ok st" and "stops z" and "stmt_val st = Some v"
    and "buffer_clear s (length (stmt_text st) + 1)" and "nameless s" and "\<not> had_error s"
  shows "var_count s < 64 \<Longrightarrow> \<exists>t. assignment s = Some t \<and> advanced s (length (stmt_text st)) t \<and>
      vars t = (vars s)(var_count s := int_var v) \<and> var_count t = var_count s + 1"
    and "\<not> var_count s < 64 \<Longrightarrow> \<exists>t. assignment s = Some t \<and> had_error t"
proof -
  obtain s4 where s4: "assignment s = set_var (ident_buf s) (int_var v) s4"
    "advanced s (length (stmt_text st)) s4" "same_vars s s4" "ms_mem s4 (ident_buf s) \<noteq> 0"
    using assignment_parsed [OF assms] by blast
  have n: "nameless s4" using nameless_same [OF s4(3)] assms(6) by simp
  note set = s4(1) [unfolded set_var_eq [OF n s4(4)]]
  show "\<exists>t. assignment s = Some t \<and> had_error t" if "\<not> var_count s < 64"
    using set that s4(3) by (simp add: same_vars_def fail_def)
  show "\<exists>t. assignment s = Some t \<and> advanced s (length (stmt_text st)) t \<and>
      vars t = (vars s)(var_count s := int_var v) \<and> var_count t = var_count s + 1" if "var_count s < 64"
    using set that s4(3) assign_advanced [OF refl, where s = s4 and i = "var_count s" and n = "var_count s + 1"
        and p = "ident_buf s" and v = "int_var v"]
      advanced_trans [OF s4(2)] by (fastforce simp: same_vars_def)
qed

definition prog_text :: "stmt list \<Rightarrow> u8 list" where
  "prog_text ps = concat (map stmt_text ps)"

lemma stmt_first: "stmt_ok st \<Longrightarrow> \<exists>c t. stmt_text st = c # t \<and> isalpha (sint c)"
  by (cases st) (auto simp: ident_text_def neq_Nil_conv)

lemma prog_follow:
  assumes "\<forall>p \<in> set ps. stmt_ok p"
  shows "\<exists>z u. prog_text ps @ [0] = z # u \<and> stops z"
  using assms stmt_first by (cases ps) (fastforce simp: prog_text_def stops_def)+

lemma run_step:
  assumes "isalpha (sint (cur s 0))" and "\<not> had_error s"
  shows "run_assignments s = do { t \<leftarrow> assignment s; run_assignments t }"
proof -
  have "skip_whitespace s = Some s" using alpha_not_space [OF assms(1)] by (subst skip_whitespace.simps) simp
  moreover have "cur s 0 \<noteq> 0" using assms(1) by auto
  ultimately show ?thesis using assms by (subst run_assignments.simps) simp
qed

text \<open>Each statement takes the next entry of the table.\<close>

lemma run_program:
  assumes "reads s (prog_text ps @ [0])" and "\<forall>p \<in> set ps. stmt_ok p" and "map stmt_val ps = map Some vs"
    and "buffer_clear s (length (prog_text ps) + 1)" and "nameless s" and "\<not> had_error s"
    and "unat (var_count s) + length ps \<le> 64"
  shows "\<exists>t. run_assignments s = Some t \<and> \<not> had_error t \<and> var_count t = var_count s + of_nat (length ps) \<and>
    (\<forall>i. vars t i = (if unat (i - var_count s) < length ps then int_var (vs ! unat (i - var_count s)) else vars s i))"
  using assms
proof (induction ps arbitrary: s vs)
  case Nil
  then show ?case by (intro exI [of _ s]) (simp add: prog_text_def run_assignments.simps)
next
  case (Cons st ps)
  obtain v vs' where vs: "vs = v # vs'" "stmt_val st = Some v" "map stmt_val ps = map Some vs'"
    using Cons.prems(3) by (cases vs) auto
  have tx: "prog_text (st # ps) = stmt_text st @ prog_text ps" by (simp add: prog_text_def)
  obtain z u where z: "prog_text ps @ [0] = z # u" "stops z" using prog_follow Cons.prems(2) by fastforce
  have rd: "reads s (stmt_text st @ prog_text ps @ [0])" using Cons.prems(1) tx by simp
  then have r1: "reads s (stmt_text st @ [z])" unfolding z by (simp add: reads_append)
  have c1: "buffer_clear s (length (stmt_text st) + (length (prog_text ps) + 1))"
    using Cons.prems(4) tx by simp
  then have c2: "buffer_clear s (length (stmt_text st) + 1)"
    by (auto simp: buffer_clear_def intro: rng_disj_mono)
  have room: "var_count s < 64" using Cons.prems(7) by (simp add: word_less_nat_alt)
  obtain t where t: "assignment s = Some t" "advanced s (length (stmt_text st)) t"
      "vars t = (vars s)(var_count s := int_var v)" "var_count t = var_count s + 1"
    using assignment_reads(1) [OF r1 _ z(2) vs(2) c2 _ _ room] Cons.prems by auto
  have "reads t (prog_text ps @ [0])"
    by (rule reads_advanced [OF t(2)]) (use c1 rd in \<open>simp_all add: reads_append\<close>)
  moreover have "buffer_clear t (length (prog_text ps) + 1)" by (rule advanced_clear [OF t(2) c1])
  moreover have "nameless t" using t(3) Cons.prems(5) by (simp add: nameless_def int_var_def zero_var_def)
  moreover have "unat (var_count t) + length ps \<le> 64" using t(4) Cons.prems(7) unat_Suc_less [OF room] by simp
  moreover have "\<not> had_error t" using t(2) Cons.prems(6) by (simp add: advanced_def)
  ultimately obtain t' where t': "run_assignments t = Some t'" "\<not> had_error t'"
      "var_count t' = var_count t + of_nat (length ps)"
      "\<forall>i. vars t' i = (if unat (i - var_count t) < length ps then int_var (vs' ! unat (i - var_count t)) else vars t i)"
    using Cons.IH [OF _ _ vs(3)] Cons.prems(2) by fastforce
  obtain c x where "stmt_text st = c # x" "isalpha (sint c)" using stmt_first Cons.prems(2) by fastforce
  then have "isalpha (sint (cur s 0))" using rd by simp
  then have run: "run_assignments s = Some t'" using run_step Cons.prems(6) t(1) t'(1) by simp
  have "vars t' i = (if unat (i - var_count s) < length (st # ps) then int_var (vs ! unat (i - var_count s)) else vars s i)" for i
  proof (cases "i = var_count s")
    case True
    have "unat (- 1 :: u32) \<ge> length ps" using Cons.prems(7) by simp
    then show ?thesis using t'(4) t(3,4) True vs(1) by (simp add: algebra_simps)
  next
    case False
    then have "i - var_count s \<noteq> 0" by simp
    then have "unat (i - var_count s) = Suc (unat (i - var_count t))"
      using unat_minus_one [of "i - var_count s"] unat_gt_0 [of "i - var_count s"] by (simp add: t(4) diff_diff_add)
    then show ?thesis using t'(4) t(3) False vs(1) by simp
  qed
  then show ?case using run t'(2,3) t(4) by (intro exI [of _ t']) (simp add: algebra_simps)
qed

text \<open>The table full, the next assignment is an error.\<close>

lemma run_program_full:
  assumes "reads s (prog_text (st # ps) @ [0])" and "\<forall>p \<in> set (st # ps). stmt_ok p"
    and "stmt_val st = Some v" and "buffer_clear s (length (prog_text (st # ps)) + 1)" and "nameless s"
    and "\<not> had_error s" and "var_count s = 64"
  shows "\<exists>t. run_assignments s = Some t \<and> had_error t"
proof -
  obtain z u where z: "prog_text ps @ [0] = z # u" "stops z" using prog_follow assms(2) by fastforce
  have rd: "reads s (stmt_text st @ z # u)" using assms(1) z(1) by (simp add: prog_text_def)
  then have "reads s (stmt_text st @ [z])" by (simp add: reads_append)
  moreover have "buffer_clear s (length (stmt_text st) + 1)"
    using assms(4) by (auto simp: buffer_clear_def prog_text_def intro: rng_disj_mono)
  ultimately obtain t where t: "assignment s = Some t" "had_error t"
    using assignment_reads(2) [of s st z v] assms z(2) by auto
  obtain c x where "stmt_text st = c # x" "isalpha (sint c)" using stmt_first assms(2) by fastforce
  then have "isalpha (sint (cur s 0))" using rd by simp
  moreover have "run_assignments t = Some t" using t(2) by (simp add: run_assignments.simps)
  ultimately show ?thesis using run_step assms(6) t by simp
qed

lemma msh_execute_program:
  assumes "reads (start_run c s) (prog_text ps @ [0])" and "\<forall>p \<in> set ps. stmt_ok p"
    and "map stmt_val ps = map Some vs" and "rng_disj c (length (prog_text ps) + 1) (ident_buf s) 32"
    and "nameless s" and "unat (var_count s) + length ps \<le> 64"
  shows "\<exists>t. msh_execute c s = Some (True, t) \<and> var_count t = var_count s + of_nat (length ps) \<and>
    (\<forall>i. vars t i = (if unat (i - var_count s) < length ps then int_var (vs ! unat (i - var_count s)) else vars s i))"
  using run_program [OF assms(1-3)] assms(4-6)
  by (auto simp: msh_execute_def run_code_assignments start_run_def buffer_clear_def nameless_def)

text \<open>Blanks before the NUL: the loop's own \<open>pc++\<close> steps over the terminator.\<close>

lemma run_past_end:
  assumes "reads s (ws @ [0])" and "ws \<noteq> []" and "\<forall>c \<in> set ws. isspace (sint c)" and "\<not> had_error s"
  shows "run_assignments s = run_assignments (adv (of_nat (length ws) + 1) s)"
proof -
  have "skip_whitespace s = Some (adv (of_nat (length ws)) s)" using skip_reads [OF assms(1,3)] by simp
  moreover have "cur (adv (of_nat (length ws)) s) 0 = 0" using assms(1) by (simp add: reads_append)
  moreover have "cur s 0 \<noteq> 0" using assms(1-3) by (cases ws) auto
  ultimately show ?thesis using assms(4) by (subst run_assignments.simps) simp
qed

section \<open>Conversions\<close>

text \<open>An \<open>INT\<close> as text lies in a fresh block of 32 bytes; only that block is written.\<close>

lemma convert_int_str:
  assumes "vtype v = MSH_TYPE_INT" and "sint (vval v) \<noteq> - (2 ^ 31)"
    and "heap_ok (ms_heap s)" and "unat (heap (ms_heap s)) + unat HEAP_SIZE < 2 ^ 32"
    and "unat (heap_index (ms_heap s)) + 32 \<le> unat HEAP_SIZE"
  defines "p \<equiv> heap (ms_heap s) + heap_index (ms_heap s)"
  obtains t where "convert_var v MSH_TYPE_STR s = Some (zero_var\<lparr>vtype := MSH_TYPE_STR, vval := p\<rparr>, t)"
    and "cstr (ms_mem t) p (itoa_text 10 (sint (vval v)))"
    and "\<forall>a. \<not> in_rng p 32 a \<longrightarrow> ms_mem t a = ms_mem s a"
    and "unat (heap_index (ms_heap t)) = unat (heap_index (ms_heap s)) + 32" and "ms_fops t = ms_fops s"
proof -
  let ?t = "itoa_text 10 (sint (vval v))"
  have len: "length ?t \<le> 11"
    using length_itoa_text_10 [of "sint (vval v)"] sint_ge [of "vval v"] sint_lt [of "vval v"] by simp
  have room: "unat (heap_index (ms_heap s)) + unat (32 :: u32) \<le> unat HEAP_SIZE" using assms(5) by simp
  note mb = malloc_block(1,2) [OF assms(3,4) room, folded p_def]
  define s1 where "s1 = s\<lparr>ms_heap := (ms_heap s)\<lparr>heap_index := heap_index (ms_heap s) + 32\<rparr>\<rparr>"
  have m: "m_malloc 32 s = (p, s1)" using mb(1) by (simp add: m_malloc_def s1_def)
  have mem: "ms_mem s1 = ms_mem s" by (simp add: s1_def ms_mem_def)
  have up: "unat p = unat (heap (ms_heap s)) + unat (heap_index (ms_heap s))"
    using assms(4,5) by (simp add: p_def unat_word_ariths)
  have p: "0 < unat p" using mb(2) unat_gt_0 [of p] by blast
  have p12: "unat p + 12 < 2 ^ 32" using up assms(4,5) by simp
  have it: "itoa (ms_mem s) (vval v) p 10 = Some (store (ms_mem s) p (?t @ [0]))"
    using itoa_eq [of 10 "vval v" p "ms_mem s"] assms(2) p p12 len by simp
  define t where "t = set_mem (store (ms_mem s) p (?t @ [0])) s1"
  have tm: "ms_mem t = store (ms_mem s) p (?t @ [0])" by (simp add: t_def set_mem_def ms_mem_def)
  show ?thesis
  proof (rule that)
    show "convert_var v MSH_TYPE_STR s = Some (zero_var\<lparr>vtype := MSH_TYPE_STR, vval := p\<rparr>, t)"
      using assms(1) m mb(2) it mem by (simp add: convert_var_def Let_def t_def)
    show "cstr (ms_mem t) p ?t"
      unfolding tm by (rule cstr_store) (use len itoa_text_nonzero in simp_all)
    show "\<forall>a. \<not> in_rng p 32 a \<longrightarrow> ms_mem t a = ms_mem s a"
      unfolding tm using len in_rng_mono [of p "length (?t @ [0])" _ 32] by (auto intro!: store_outside)
    show "unat (heap_index (ms_heap t)) = unat (heap_index (ms_heap s)) + 32"
      using assms(5) by (simp add: t_def set_mem_def s1_def unat_word_ariths)
    show "ms_fops t = ms_fops s" by (simp add: t_def set_mem_def s1_def)
  qed
qed

lemma convert_str_int:
  assumes "vtype w = MSH_TYPE_STR" and "cstr (ms_mem s) (vval w) (itoa_text 10 (sint i))"
  shows "convert_var w MSH_TYPE_INT s = Some (int_var i, s)"
  using assms atoi_itoa_text [of "ms_mem s" "vval w" i "[]"] by (simp add: convert_var_def Let_def int_var_def)

lemma convert_str_float:
  assumes "vtype w = MSH_TYPE_STR" and "cstr (ms_mem s) (vval w) (itoa_text 10 (sint i))" and "sint i \<noteq> - (2 ^ 31)"
    and "exact_ints (f_double (ms_fops s))"
  shows "convert_var w MSH_TYPE_FLOAT s =
    Some (zero_var\<lparr>vtype := MSH_TYPE_FLOAT, vval := d_float (f_double (ms_fops s)) (d_of_int (f_double (ms_fops s)) i)\<rparr>, s)"
  using assms atof_itoa_text [OF assms(4), of "ms_mem s" "vval w" i "[]"]
  by (simp add: convert_var_def Let_def ends_number_def)

end
