(* ===== verification/Kernel.thy ===== *)
theory Kernel
  imports MsPrograms Tokenizer Acpi Pci Disk Pages
begin

text \<open>
  \<open>kernel.c\<close> above the terminal: reading a command line, the commands of the prompt, the list of
  AHCI devices, the program editor and its executor, and \<open>kernel_main\<close>. Everything runs on one
  state, composed of the states of the components.
\<close>

section \<open>State\<close>

text \<open>
  \<open>k_msh\<close> holds the interpreter with the keyboard, the console, the memory and the heap. \<open>command\<close>,
  \<open>arg_array\<close>, \<open>ed_buffer\<close> and \<open>editor_buffer\<close> are the addresses of \<open>command[256]\<close>, \<open>args[10]\<close>, \<open>editor\<close>
  and \<open>editor_buffer\<close>; \<open>shifted_ptr\<close> is the uninitialised pointer of \<open>editor_handle_input\<close>,
  \<open>past_layout\<close> and \<open>past_shifts\<close> the bytes after the layout tables, \<open>fn_seconds\<close> the address of
  \<open>get_time_in_seconds\<close>, and \<open>stale_length\<close>, \<open>stale_id\<close> what is read through the dangling pointer that
  \<open>get_ahci_devices\<close> returns.
\<close>

record kernel =
  k_msh :: msh
  k_acpi :: acpi
  k_clock :: clock
  current_layout :: KeyboardLayout
  ctrl :: bool
  k_token :: u32
  command :: u32
  arg_array :: u32
  ed_buffer :: u32
  editor_buffer :: u32
  editor_buffer_pos :: u32
  shifted_ptr :: u32
  past_layout :: "nat \<Rightarrow> u8"
  past_shifts :: "nat \<Rightarrow> u8"
  fn_seconds :: u32
  stale_length :: s32
  stale_id :: u16

definition EDITOR_BUFFER_SIZE :: u32 where "EDITOR_BUFFER_SIZE = 4096"

definition k_con :: "kernel \<Rightarrow> console" where
  "k_con k = kb_con (ms_kb (k_msh k))"

definition k_mem :: "kernel \<Rightarrow> mem" where
  "k_mem k = con_mem (k_con k)"

definition k_term :: "kernel \<Rightarrow> terminal" where
  "k_term k = con_term (k_con k)"

definition with_con :: "console \<Rightarrow> kernel \<Rightarrow> kernel" where
  "with_con c k = k\<lparr>k_msh := set_con c (k_msh k)\<rparr>"

definition with_mem :: "mem \<Rightarrow> kernel \<Rightarrow> kernel" where
  "with_mem m k = with_con ((k_con k)\<lparr>con_mem := m\<rparr>) k"

definition with_term :: "terminal \<Rightarrow> kernel \<Rightarrow> kernel" where
  "with_term t k = with_con ((k_con k)\<lparr>con_term := t\<rparr>) k"

definition poke :: "u32 \<Rightarrow> u8 \<Rightarrow> kernel \<Rightarrow> kernel" where
  "poke a v k = with_mem ((k_mem k)(a := v)) k"

text \<open>
  \<open>EditorState\<close> lies in memory: \<open>buffer[4096]\<close>, then \<open>position\<close>, \<open>cursor_x\<close>, \<open>cursor_y\<close> and the byte
  \<open>is_active\<close>. A store past the buffer reaches them.
\<close>

definition ed_word :: "u32 \<Rightarrow> kernel \<Rightarrow> u32" where
  "ed_word off k = load32 (k_mem k) (ed_buffer k + off)"

definition set_ed_word :: "u32 \<Rightarrow> u32 \<Rightarrow> kernel \<Rightarrow> kernel" where
  "set_ed_word off v k = with_mem (store32 (k_mem k) (ed_buffer k + off) v) k"

definition off_position :: u32 where "off_position = of_nat (offsetof EditorState ''position'')"
definition off_cursor_x :: u32 where "off_cursor_x = of_nat (offsetof EditorState ''cursor_x'')"
definition off_cursor_y :: u32 where "off_cursor_y = of_nat (offsetof EditorState ''cursor_y'')"
definition off_active :: u32 where "off_active = of_nat (offsetof EditorState ''is_active'')"

lemma editor_offsets: "off_position = 4096" "off_cursor_x = 4100" "off_cursor_y = 4104" "off_active = 4108"
  by (simp_all add: editor_members off_position_def off_cursor_x_def off_cursor_y_def off_active_def)

abbreviation position :: "kernel \<Rightarrow> u32" where "position \<equiv> ed_word off_position"
abbreviation cursor_x :: "kernel \<Rightarrow> u32" where "cursor_x \<equiv> ed_word off_cursor_x"
abbreviation cursor_y :: "kernel \<Rightarrow> u32" where "cursor_y \<equiv> ed_word off_cursor_y"
abbreviation set_position :: "u32 \<Rightarrow> kernel \<Rightarrow> kernel" where "set_position \<equiv> set_ed_word off_position"
abbreviation set_cursor_x :: "u32 \<Rightarrow> kernel \<Rightarrow> kernel" where "set_cursor_x \<equiv> set_ed_word off_cursor_x"
abbreviation set_cursor_y :: "u32 \<Rightarrow> kernel \<Rightarrow> kernel" where "set_cursor_y \<equiv> set_ed_word off_cursor_y"

definition is_active :: "kernel \<Rightarrow> bool" where
  "is_active k \<longleftrightarrow> k_mem k (ed_buffer k + off_active) \<noteq> 0"

definition set_active :: "bool \<Rightarrow> kernel \<Rightarrow> kernel" where
  "set_active b k = poke (ed_buffer k + off_active) (if b then 1 else 0) k"

text \<open>\<open>terminal_putchar\<close>, \<open>terminal_writestring\<close> of a string in memory and of a literal, \<open>printk\<close>.\<close>

definition put :: "u8 \<Rightarrow> kernel \<Rightarrow> kernel" where
  "put c k = with_term (terminal_putchar c (k_term k)) k"

definition write_str :: "u32 \<Rightarrow> kernel \<Rightarrow> kernel option" where
  "write_str p k = do { t \<leftarrow> terminal_writestring (k_mem k) p (k_term k); Some (with_term t k) }"

definition write_lit :: "string \<Rightarrow> kernel \<Rightarrow> kernel option" where
  "write_lit s k = do { t \<leftarrow> terminal_writestring (lit_mem (lit s)) 0 (k_term k); Some (with_term t k) }"

definition print_lit :: "string \<Rightarrow> kernel \<Rightarrow> kernel option" where
  "print_lit s k = do { c \<leftarrow> kprint s [] (k_con k); Some (with_con c k) }"

definition print_ptr :: "u32 \<Rightarrow> kernel \<Rightarrow> kernel option" where
  "print_ptr p k = do { s \<leftarrow> m_printk p (k_msh k); Some (k\<lparr>k_msh := s\<rparr>) }"

definition read_key :: "kernel \<Rightarrow> (u8 \<times> kernel) option" where
  "read_key k = do {
     (key, kb) \<leftarrow> keyboard_read_key (usb_buf (k_msh k)) (usb_junk (k_msh k)) (ms_kb (k_msh k));
     Some (key, k\<lparr>k_msh := (k_msh k)\<lparr>ms_kb := kb\<rparr>\<rparr>)
   }"

section \<open>Reading a line\<close>

text \<open>\<open>i\<close> is \<open>*buffer_index\<close>; \<open>shift\<close> is a pointer, and the prompt passes the null pointer.\<close>

definition layout_char :: "bool \<Rightarrow> u8 \<Rightarrow> kernel \<Rightarrow> u8" where
  "layout_char shifted key k =
     (if shifted then shifted_layout (past_shifts k) (current_layout k) key
      else us_ascii_to_layout (past_layout k) (current_layout k) key)"

definition terminal_key :: "u32 \<Rightarrow> u32 \<Rightarrow> u32 \<Rightarrow> u8 \<Rightarrow> kernel \<Rightarrow> u8 \<times> u32 \<times> kernel" where
  "terminal_key buf i shift key k =
     (if key = 0 then (0, i, k)
      else if key = 4 then (1, i, poke shift 0 (poke (buf + i) 0 k))
      else if key = 2 then
        (if i > 0 then (0, i - 1, put (ch CHR 0x08) (poke shift 0 k)) else (0, i, poke shift 0 k))
      else if key = 1 \<or> key = 5 then (0, i, poke shift 0 k)
      else if key = 6 \<or> key = 7 then (0, i, poke shift 1 k)
      else
        let c = layout_char (k_mem k shift \<noteq> 0) key k
        in (0, i + 1, poke shift 0 (put c (poke (buf + i) c k))))"

definition terminal_input :: "u32 \<Rightarrow> u32 \<Rightarrow> u32 \<Rightarrow> kernel \<Rightarrow> (u8 \<times> u32 \<times> kernel) option" where
  "terminal_input buf i shift k0 = do {
     (key, k) \<leftarrow> read_key k0;
     Some (terminal_key buf i shift key k)
   }"

partial_function (option) input_loop :: "u32 \<Rightarrow> kernel \<Rightarrow> kernel option" where
  "input_loop i k = do {
     r \<leftarrow> terminal_input (command k) i NULL k;
     if fst r = 0 then input_loop (fst (snd r)) (snd (snd r)) else Some (snd (snd r))
   }"

section \<open>AHCI devices\<close>

text \<open>\<open>pci_read_config_space\<close> gives a register value, which the code then reads through.\<close>

definition get_hba_port :: "u32 \<Rightarrow> u32 \<Rightarrow> u32 \<Rightarrow> kernel \<Rightarrow> u32 \<times> kernel" where
  "get_hba_port bus device func k =
     (case pci_read_config_space (ucast bus) (ucast device) (ucast func) 0x10 (kb_hw (ms_kb (k_msh k))) of
       (pci_config, h) \<Rightarrow>
         let s = (k_msh k)\<lparr>ms_kb := (ms_kb (k_msh k))\<lparr>kb_hw := h\<rparr>\<rparr>;
             bar_address = load32 (k_mem k) pci_config
         in case mmap NULL HBA_PORT_SIZE 3 1 (- 1) bar_address (ms_heap s) of
           (hba_port, hp) \<Rightarrow> (hba_port, k\<lparr>k_msh := s\<lparr>ms_heap := hp\<rparr>\<rparr>))"

text \<open>\<open>check_type\<close> on a port structure that lies in ordinary memory, as that of \<open>mmap\<close> does.\<close>

definition check_type_ram :: "mem \<Rightarrow> u32 \<Rightarrow> s32" where
  "check_type_ram m port = fst (check_type port \<lparr>trace = [], dev_port = (\<lambda>_ _. 0), dev_reg = (\<lambda>_ a. load32 m a)\<rparr>)"

text \<open>\<open>dev\<close> points to an entry of the device array.\<close>

definition is_ahci :: "u32 \<Rightarrow> kernel \<Rightarrow> bool \<times> kernel" where
  "is_ahci dev k =
     (let d = device_at (k_mem k) dev
      in case get_hba_port (ucast (pd_bus d)) (ucast (pd_device d)) (ucast (pd_function d)) k of
        (port, k1) \<Rightarrow> (check_type_ram (k_mem k1) port \<noteq> 0, k1))"

text \<open>The two loops from \<open>i\<close> on, \<open>n\<close> entries being left.\<close>

fun count_ahci :: "nat \<Rightarrow> nat \<Rightarrow> u32 \<Rightarrow> u32 \<Rightarrow> kernel \<Rightarrow> u32 \<times> kernel" where
  "count_ahci 0 i list ahci_count k = (ahci_count, k)"
| "count_ahci (Suc n) i list ahci_count k =
     (case is_ahci (entry_ptr list i) k of
       (yes, k1) \<Rightarrow> count_ahci n (i + 1) list (if yes then ahci_count + 1 else ahci_count) k1)"

text \<open>\<open>ahci_devices[index] = *dev\<close> copies the 12 bytes of the structure.\<close>

definition copy_device :: "u32 \<Rightarrow> u32 \<Rightarrow> kernel \<Rightarrow> kernel" where
  "copy_device dst src k = with_mem (store (k_mem k) dst (bytes_at (k_mem k) src 12)) k"

text \<open>The number is printed by passing it as the format: the string at that address.\<close>

fun copy_ahci :: "nat \<Rightarrow> nat \<Rightarrow> u32 \<Rightarrow> u32 \<Rightarrow> nat \<Rightarrow> kernel \<Rightarrow> kernel option" where
  "copy_ahci 0 i list ahci_devices index k = Some k"
| "copy_ahci (Suc n) i list ahci_devices index k = do {
     k1 \<leftarrow> print_ptr (of_nat i) k;
     let dev = entry_ptr list i;
     let (yes, k2) = is_ahci dev k1;
     if yes then copy_ahci n (i + 1) list ahci_devices (index + 1) (copy_device (entry_ptr ahci_devices index) dev k2)
     else copy_ahci n (i + 1) list ahci_devices index k2
   }"

definition get_ahci_devices :: "pci_device_list \<Rightarrow> kernel \<Rightarrow> (pci_device_list \<times> kernel) option" where
  "get_ahci_devices device_list k = do {
     let (ahci_count, k1) = count_ahci (pl_length device_list) 0 (pl_ptr device_list) 0 k;
     k2 \<leftarrow> print_ptr ahci_count k1;
     let (ahci_devices, s) = m_malloc (ahci_count * 12) (k_msh k2);
     k3 \<leftarrow> copy_ahci (pl_length device_list) 0 (pl_ptr device_list) ahci_devices 0 (k2\<lparr>k_msh := s\<rparr>);
     Some (\<lparr>pl_ptr = ahci_devices, pl_length = unat ahci_count\<rparr>, k3)
   }"

section \<open>The executor\<close>

definition say_line :: "u32 \<Rightarrow> kernel \<Rightarrow> kernel option" where
  "say_line line k = do {
     k1 \<leftarrow> write_lit ''> '' k;
     k2 \<leftarrow> write_str line k1;
     Some (put (ch CHR 0x0A) k2)
   }"

definition exec_line :: "u32 \<Rightarrow> kernel \<Rightarrow> (bool \<times> kernel) option" where
  "exec_line line k = do {
     k1 \<leftarrow> say_line line k;
     (ok, s) \<leftarrow> msh_execute line (k_msh k1);
     Some (ok, k1\<lparr>k_msh := s\<rparr>)
   }"

text \<open>The line loop: \<open>current\<close>, \<open>line_start\<close> and \<open>overall_success\<close> when it ends. After a failed line the
  \<open>break\<close> leaves the newline overwritten.\<close>

partial_function (option) exec_loop ::
    "u32 \<Rightarrow> u32 \<Rightarrow> bool \<Rightarrow> kernel \<Rightarrow> (u32 \<times> u32 \<times> bool \<times> kernel) option" where
  "exec_loop current line_start ok k =
     (if k_mem k current \<noteq> 0 then
        if k_mem k current = ch CHR 0x0A then
          if line_start < current then do {
            r \<leftarrow> exec_line line_start (poke current 0 k);
            if \<not> fst r then do {
              k1 \<leftarrow> write_lit (''! Error in this line'' @ [CHR 0x0A]) (snd r);
              Some (current, line_start, False, k1)
            }
            else exec_loop (current + 1) (current + 1) ok (poke current (ch CHR 0x0A) (snd r))
          }
          else exec_loop (current + 1) (current + 1) ok (poke current (ch CHR 0x0A) (poke current 0 k))
        else exec_loop (current + 1) line_start ok k
      else Some (current, line_start, ok, k))"

definition execute_buffer :: "kernel \<Rightarrow> kernel option" where
  "execute_buffer k = do {
     k1 \<leftarrow> write_lit ([CHR 0x0A] @ ''--- Executing Program ---'' @ [CHR 0x0A]) k;
     let exec_len = (if editor_buffer_pos k \<ge> EDITOR_BUFFER_SIZE then EDITOR_BUFFER_SIZE - 1 else editor_buffer_pos k);
     let k2 = poke (editor_buffer k + exec_len) 0 k1;
     (current, line_start, ok, k3) \<leftarrow> exec_loop (editor_buffer k) (editor_buffer k) True k2;
     (ok', k4) \<leftarrow> (if line_start < current then do {
                     (ok1, k4) \<leftarrow> exec_line line_start k3;
                     Some (ok1 \<and> ok, k4)
                   }
                   else Some (ok, k3));
     write_lit (if ok' then [CHR 0x0A] @ ''--- Execution Successful ---'' @ [CHR 0x0A]
                else [CHR 0x0A] @ ''--- Execution Failed ---'' @ [CHR 0x0A]) k4
   }"

section \<open>The editor\<close>

definition editor_clear_buffer :: "kernel \<Rightarrow> kernel" where
  "editor_clear_buffer k =
     (with_mem (snd (memset (k_mem k) (editor_buffer k) 0 EDITOR_BUFFER_SIZE)) k)\<lparr>editor_buffer_pos := 0\<rparr>"

definition editor_init :: "kernel \<Rightarrow> kernel" where
  "editor_init k =
     set_active False (set_cursor_y 0 (set_cursor_x 0 (set_position 0
       (with_mem (snd (memset (k_mem k) (ed_buffer k) 0 EDITOR_BUFFER_SIZE)) k))))"

text \<open>\<open>while (i > 0 && editor.buffer[i-1] != '\n') i--;\<close>\<close>

function line_begin :: "u32 \<Rightarrow> kernel \<Rightarrow> u32" where
  "line_begin i k =
     (if i > 0 \<and> k_mem k (ed_buffer k + (i - 1)) \<noteq> ch CHR 0x0A then line_begin (i - 1) k else i)"
  by pat_completeness auto
termination
  by (relation "measure (\<lambda>(i, k). unat i)") (auto simp: unat_minus_one unat_gt_0 word_gt_0)

declare line_begin.simps [simp del]

definition set_shifted :: "u8 \<Rightarrow> kernel \<Rightarrow> kernel" where
  "set_shifted v k = poke (shifted_ptr k) v k"

definition is_shifted :: "kernel \<Rightarrow> bool" where
  "is_shifted k \<longleftrightarrow> k_mem k (shifted_ptr k) \<noteq> 0"

definition redraw :: "kernel \<Rightarrow> kernel option" where
  "redraw k = do {
     k1 \<leftarrow> write_str (ed_buffer k) (with_term (terminal_initialize (k_term k)) k);
     Some (with_term ((k_term k1)\<lparr>terminal_row := cursor_y k1, terminal_column := cursor_x k1\<rparr>) k1)
   }"

text \<open>
  \<open>editor.buffer[editor.position++] = c\<close>, with no test of \<open>position\<close>. C leaves open which of the two
  stores comes first; they meet only when \<open>position\<close> is 4096 or more.
\<close>

definition ed_store :: "u8 \<Rightarrow> kernel \<Rightarrow> kernel" where
  "ed_store c k = (let i = position k in poke (ed_buffer k + i) c (set_position (i + 1) k))"

definition ed_enter :: "kernel \<Rightarrow> kernel" where
  "ed_enter k =
     (let k1 = set_cursor_x 0 (ed_store (ch CHR 0x0A) k)
      in set_shifted 0 (set_cursor_y (cursor_y k1 + 1) k1))"

definition ed_backspace :: "kernel \<Rightarrow> kernel" where
  "ed_backspace k0 =
     (let k = set_shifted 0 k0 in
      if position k > 0 then
        let k1 = set_position (position k - 1) k;
            k2 = poke (ed_buffer k1 + position k1) 0 k1;
            k3 = (if k_mem k2 (ed_buffer k2 + position k2) = ch CHR 0x0A
                  then let k4 = set_cursor_y (cursor_y k2 - 1) k2
                       in set_cursor_x (position k4 - line_begin (position k4) k4) k4
                  else set_cursor_x (cursor_x k2 - 1) k2)
        in put (ch CHR 0x08) (put (ch CHR '' '') (put (ch CHR 0x08) k3))
      else k)"

definition ed_char :: "u8 \<Rightarrow> kernel \<Rightarrow> u8 \<times> kernel" where
  "ed_char key k =
     (let c = layout_char (is_shifted k) key k;
          k1 = ed_store c (set_shifted 0 k)
      in (c, set_cursor_x (cursor_x k1 + 1) k1))"

definition ed_leave :: "kernel \<Rightarrow> kernel" where
  "ed_leave k = set_shifted 0 ((set_active False k)\<lparr>ctrl := False\<rparr>)"

text \<open>The tail of the handler: the screen is redrawn unless \<open>key\<close>, by now translated, is 2.\<close>

definition ed_finish :: "u8 \<Rightarrow> kernel \<Rightarrow> kernel option" where
  "ed_finish key k = (if key \<noteq> 2 then redraw k else Some k)"

definition editor_key :: "u8 \<Rightarrow> kernel \<Rightarrow> kernel option" where
  "editor_key key k =
     (if key = 0 then Some k
      else if key = 5 then Some (set_shifted 0 (k\<lparr>ctrl := True\<rparr>))
      else if key = 6 \<or> key = 7 then ed_finish key ((set_shifted 1 k)\<lparr>ctrl := False\<rparr>)
      else if ctrl k then
        let c = layout_char (is_shifted k) key k in
        if c = ch CHR ''q'' then
          write_lit ([CHR 0x0A] @ ''Exited editor. Buffer contents saved.'' @ [CHR 0x0A]) (ed_leave k)
        else if c = ch CHR ''r'' then do {
          k1 \<leftarrow> write_lit ([CHR 0x0A] @ ''Executing code...'' @ [CHR 0x0A]) (ed_leave k);
          execute_buffer k1
        }
        else ed_finish c (k\<lparr>ctrl := False\<rparr>)
      else if key = 4 then ed_finish key (ed_enter k)
      else if key = 2 then Some (ed_backspace k)
      else if key < 128 then case ed_char key k of (c, k1) \<Rightarrow> ed_finish c k1
      else ed_finish key k)"

definition editor_handle_input :: "kernel \<Rightarrow> kernel option" where
  "editor_handle_input k0 = do { (key, k) \<leftarrow> read_key k0; editor_key key k }"

partial_function (option) editor_loop :: "kernel \<Rightarrow> kernel option" where
  "editor_loop k =
     (if is_active k then do { k1 \<leftarrow> editor_handle_input k; editor_loop k1 } else Some k)"

section \<open>The prompt\<close>

text \<open>\<open>strcmp(p, "...") == 0\<close>\<close>

definition is_word :: "kernel \<Rightarrow> u32 \<Rightarrow> string \<Rightarrow> bool option" where
  "is_word k p w = do { d \<leftarrow> strcmp (k_mem k) p (lit_mem (lit w)) 0; Some (d = 0) }"

fun print_all :: "string list \<Rightarrow> kernel \<Rightarrow> kernel option" where
  "print_all [] k = Some k"
| "print_all (s # ss) k = do { k1 \<leftarrow> print_lit s k; print_all ss k1 }"

definition cmd_help :: "kernel \<Rightarrow> kernel option" where
  "cmd_help k = print_all
     [[CHR 0x0A] @ ''Available commands:'' @ [CHR 0x0A],
      ''  help            - Show this help message'' @ [CHR 0x0A],
      ''  lsdisks         - Shows the disks'' @ [CHR 0x0A],
      ''  reboot          - Reboot the system'' @ [CHR 0x0A],
      ''  shutdown        - Exit the terminal'' @ [CHR 0x0A],
      ''  edit            - Start the program editor'' @ [CHR 0x0A],
      ''  run             - Execute the current program'' @ [CHR 0x0A],
      ''  cl              - Change Layout'' @ [CHR 0x0A],
      ''  getkey          - Shows keycode pressed'' @ [CHR 0x0A]] k"

definition layout_names :: "(string \<times> KeyboardLayout) list" where
  "layout_names = [(''en_us'', LAYOUT_US), (''de_de'', LAYOUT_DE), (''fr_fr'', LAYOUT_FR),
     (''es_es'', LAYOUT_ES), (''ru_ru'', LAYOUT_RU)]"

fun find_layout :: "kernel \<Rightarrow> u32 \<Rightarrow> (string \<times> KeyboardLayout) list \<Rightarrow> KeyboardLayout option option" where
  "find_layout k p [] = Some None"
| "find_layout k p ((w, l) # ls) = do {
     eq \<leftarrow> is_word k p w;
     if eq then Some (Some l) else find_layout k p ls
   }"

text \<open>\<open>args[i]\<close>\<close>

definition arg_at :: "kernel \<Rightarrow> u32 \<Rightarrow> u32" where
  "arg_at k i = load32 (k_mem k) (arg_array k + 4 * i)"

definition cmd_cl :: "s32 \<Rightarrow> kernel \<Rightarrow> kernel option" where
  "cmd_cl arg_count k =
     (if sint arg_count > 1 then do {
        l \<leftarrow> find_layout k (arg_at k 1) layout_names;
        case l of
          None \<Rightarrow> write_lit (''Invalid layout. Available layouts: en_us, de_de, fr_fr, es_es, ru_ru'' @ [CHR 0x0A]) k
        | Some layout \<Rightarrow>
            write_lit (''Layout changed successfully.'' @ [CHR 0x0A]) (k\<lparr>current_layout := layout\<rparr>)
      }
      else write_lit (''Usage: cl <layout_name>'' @ [CHR 0x0A]) k)"

definition cmd_getkey :: "s32 \<Rightarrow> kernel \<Rightarrow> kernel option" where
  "cmd_getkey arg_count k =
     (if sint arg_count > 1 then print_ptr (arg_at k 1) k
      else write_lit (''Usage: getkey <key>'' @ [CHR 0x0A]) k)"

definition start_editor :: "kernel \<Rightarrow> kernel option" where
  "start_editor k = write_lit (''Editor started. LCtrl+Q to quit, LCtrl+R to run'' @ [CHR 0x0A]) (set_active True k)"

definition cmd_edit :: "kernel \<Rightarrow> kernel option" where
  "cmd_edit k = do { k1 \<leftarrow> start_editor k; editor_loop k1 }"

definition cmd_run :: "kernel \<Rightarrow> kernel option" where
  "cmd_run k =
     (if editor_buffer_pos k > 0 then execute_buffer k
      else write_lit (''No program to execute. Use '' @ [CHR 0x27] @ ''edit'' @ [CHR 0x27] @ '' first.'' @ [CHR 0x0A]) k)"

text \<open>\<open>reboot\<close> and \<open>shutdown\<close> differ only in their message; both switch the machine off.\<close>

definition power_off :: "string \<Rightarrow> kernel \<Rightarrow> kernel option" where
  "power_off failed k = do {
     (r, st, c) \<leftarrow> initAcpi (k_mem k) (k_acpi k) (k_con k);
     let k1 = with_con c (k\<lparr>k_acpi := st\<rparr>);
     if r = 0 then do {
       k2 \<leftarrow> print_lit (''ACPI initialization successfully.'' @ [CHR 0x0A]) k1;
       (h, c2) \<leftarrow> acpiPowerOff (fn_seconds k2) (k_clock k2) (k_acpi k2) (kb_hw (ms_kb (k_msh k2))) (k_con k2);
       Some (with_con c2 (k2\<lparr>k_msh := (k_msh k2)\<lparr>ms_kb := (ms_kb (k_msh k2))\<lparr>kb_hw := h\<rparr>\<rparr>\<rparr>))
     }
     else print_lit failed k1
   }"

text \<open>The loop over the returned list reads its length and first device id through the dangling pointer.\<close>

fun print_ids :: "nat \<Rightarrow> u32 \<Rightarrow> kernel \<Rightarrow> kernel option" where
  "print_ids 0 p k = Some k"
| "print_ids (Suc n) p k = do { k1 \<leftarrow> print_ptr p k; print_ids n p k1 }"

definition list_disks :: "kernel \<Rightarrow> (pci_device_list \<times> kernel) option" where
  "list_disks k = do {
     (pci_devices, h, c, hp) \<leftarrow> pci_enumerate_devices (kb_hw (ms_kb (k_msh k))) (k_con k) (ms_heap (k_msh k));
     let k1 = with_con c (k\<lparr>k_msh := (k_msh k)\<lparr>ms_heap := hp, ms_kb := (ms_kb (k_msh k))\<lparr>kb_hw := h\<rparr>\<rparr>\<rparr>);
     k2 \<leftarrow> print_lit (''Gotten disk list, checking type.'' @ [CHR 0x0A]) k1;
     Some (pci_devices, k2)
   }"

definition cmd_lsdisks :: "kernel \<Rightarrow> kernel option" where
  "cmd_lsdisks k = do {
     (pci_devices, k2) \<leftarrow> list_disks k;
     (_, k3) \<leftarrow> get_ahci_devices pci_devices k2;
     print_ids (nat (sint (stale_length k3))) (ucast (stale_id k3)) k3
   }"

definition cmd_unknown :: "kernel \<Rightarrow> kernel option" where
  "cmd_unknown k = do {
     k1 \<leftarrow> write_lit (''Unknown command: '' @ [CHR 0x27]) k;
     k2 \<leftarrow> write_str (command k) k1;
     write_lit ([CHR 0x27] @ ''. Type '' @ [CHR 0x27] @ ''help'' @ [CHR 0x27] @ '' for a list of commands.'' @ [CHR 0x0A]) k2
   }"

text \<open>The chain of \<open>else if\<close>: the first name that matches decides.\<close>

datatype cmd = Help | Cl | Getkey | Edit | Run | Reboot | Lsdisks | Shutdown | Unknown

definition command_names :: "(string \<times> cmd) list" where
  "command_names = [(''help'', Help), (''cl'', Cl), (''getkey'', Getkey), (''edit'', Edit), (''run'', Run),
     (''reboot'', Reboot), (''lsdisks'', Lsdisks), (''shutdown'', Shutdown)]"

fun find_cmd :: "kernel \<Rightarrow> u32 \<Rightarrow> (string \<times> cmd) list \<Rightarrow> cmd option" where
  "find_cmd k p [] = Some Unknown"
| "find_cmd k p ((w, c) # cs) = do {
     eq \<leftarrow> is_word k p w;
     if eq then Some c else find_cmd k p cs
   }"

definition goes_on :: "kernel option \<Rightarrow> (bool \<times> kernel) option" where
  "goes_on r = do { k \<leftarrow> r; Some (False, k) }"

definition ends :: "kernel option \<Rightarrow> (bool \<times> kernel) option" where
  "ends r = do { k \<leftarrow> r; Some (True, k) }"

text \<open>The flag of the result is \<open>break\<close>.\<close>

definition run_command :: "cmd \<Rightarrow> s32 \<Rightarrow> kernel \<Rightarrow> (bool \<times> kernel) option" where
  "run_command c arg_count k =
     (case c of
        Help \<Rightarrow> goes_on (cmd_help k)
      | Cl \<Rightarrow> goes_on (cmd_cl arg_count k)
      | Getkey \<Rightarrow> goes_on (cmd_getkey arg_count k)
      | Edit \<Rightarrow> goes_on (cmd_edit k)
      | Run \<Rightarrow> goes_on (cmd_run k)
      | Reboot \<Rightarrow> ends (power_off (''ACPI initialization failed. Unable to reboot.'' @ [CHR 0x0A]) k)
      | Lsdisks \<Rightarrow> goes_on (cmd_lsdisks k)
      | Shutdown \<Rightarrow> ends (power_off (''ACPI initialization failed. Unable to shutdown.'' @ [CHR 0x0A]) k)
      | Unknown \<Rightarrow> goes_on (cmd_unknown k))"

definition split_line :: "kernel \<Rightarrow> (s32 \<times> kernel) option" where
  "split_line k = do {
     (arg_count, ts) \<leftarrow> split_command \<lparr>tok_mem = k_mem k, saved_token = k_token k\<rparr> (command k) (arg_array k);
     Some (arg_count, with_mem (tok_mem ts) (k\<lparr>k_token := saved_token ts\<rparr>))
   }"

definition dispatch :: "kernel \<Rightarrow> (bool \<times> kernel) option" where
  "dispatch k = do {
     (arg_count, k1) \<leftarrow> split_line k;
     if arg_count = 0 then Some (False, k1)
     else do {
       c \<leftarrow> find_cmd k1 (arg_at k1 0) command_names;
       run_command c arg_count k1
     }
   }"

partial_function (option) prompt_loop :: "kernel \<Rightarrow> kernel option" where
  "prompt_loop k = do {
     k1 \<leftarrow> write_lit ([CHR 0x0A] @ ''>>> '') k;
     k2 \<leftarrow> input_loop 0 k1;
     r \<leftarrow> dispatch k2;
     if fst r then Some (snd r) else prompt_loop (snd r)
   }"

definition terminal_prompt :: "kernel \<Rightarrow> kernel option" where
  "terminal_prompt k = do {
     k1 \<leftarrow> write_lit (''Terminal ready. Type '' @ [CHR 0x27] @ ''help'' @ [CHR 0x27] @ '' for a list of commands.'' @ [CHR 0x0A]) k;
     prompt_loop k1
   }"

definition kernel_main :: "kernel \<Rightarrow> kernel option" where
  "kernel_main k =
     (let k1 = editor_init (with_term (terminal_initialize (k_term k)) k)
      in terminal_prompt (k1\<lparr>k_msh := msh_init (k_msh k1)\<rparr>))"

end
