(* ===== verification/Prompt.thy ===== *)
theory Prompt
  imports Kernel
begin

text \<open>
  The prompt: the command buffer refines the line being typed, the line's words choose the
  command and its arguments, and a layout without keys locks the prompt for good.
\<close>

section \<open>Projections\<close>

lemma with_con_sel [simp]:
  "k_con (with_con c k) = c" "k_mem (with_con c k) = con_mem c" "k_term (with_con c k) = con_term c"
  by (simp_all add: k_con_def k_mem_def k_term_def with_con_def set_con_def)

lemma with_mem_sel [simp]:
  "k_mem (with_mem m k) = m" "k_term (with_mem m k) = k_term k"
  "k_term (with_term t k) = t" "k_mem (with_term t k) = k_mem k"
  by (simp_all add: with_mem_def with_term_def k_mem_def [of k] k_term_def [of k])

lemma poke_sel [simp]:
  "k_mem (poke a v k) = (k_mem k)(a := v)" "k_term (poke a v k) = k_term k"
  "k_mem (put c k) = k_mem k" "k_term (put c k) = terminal_putchar c (k_term k)"
  by (simp_all add: poke_def put_def)

text \<open>\<open>same_frame k k'\<close>: everything is as before but the interpreter state with its memory, screen and devices.\<close>

definition same_frame :: "kernel \<Rightarrow> kernel \<Rightarrow> bool" where
  "same_frame k k' \<longleftrightarrow> (\<exists>s. k' = k\<lparr>k_msh := s\<rparr>)"

lemma same_frame_sel:
  assumes "same_frame k k'"
  shows "current_layout k' = current_layout k" "command k' = command k" "past_layout k' = past_layout k"
    "past_shifts k' = past_shifts k" "editor_buffer_pos k' = editor_buffer_pos k" "ctrl k' = ctrl k"
    "k_token k' = k_token k" "ed_buffer k' = ed_buffer k" "editor_buffer k' = editor_buffer k"
    "arg_array k' = arg_array k" "shifted_ptr k' = shifted_ptr k"
  using assms by (auto simp: same_frame_def)

lemma same_frame_refl [simp]: "same_frame k k"
  by (auto simp: same_frame_def intro: exI [of _ "k_msh k"])

lemma same_frame_trans: "same_frame k k1 \<Longrightarrow> same_frame k1 k2 \<Longrightarrow> same_frame k k2"
  by (auto simp: same_frame_def)

lemma same_frame_ops [simp]:
  "same_frame k (with_con c k1) \<longleftrightarrow> same_frame k k1" "same_frame k (with_mem m k1) \<longleftrightarrow> same_frame k k1"
  "same_frame k (with_term t k1) \<longleftrightarrow> same_frame k k1" "same_frame k (poke a v k1) \<longleftrightarrow> same_frame k k1"
  "same_frame k (put x k1) \<longleftrightarrow> same_frame k k1" "same_frame k (k1\<lparr>k_msh := s\<rparr>) \<longleftrightarrow> same_frame k k1"
proof -
  have "same_frame k (with_con c k1) \<longleftrightarrow> same_frame k k1" for c k1
  proof
    assume "same_frame k (with_con c k1)"
    then obtain s where "k1\<lparr>k_msh := set_con c (k_msh k1)\<rparr> = k\<lparr>k_msh := s\<rparr>"
      by (auto simp: same_frame_def with_con_def)
    then have "(k1\<lparr>k_msh := set_con c (k_msh k1)\<rparr>)\<lparr>k_msh := k_msh k1\<rparr> = (k\<lparr>k_msh := s\<rparr>)\<lparr>k_msh := k_msh k1\<rparr>"
      by simp
    then show "same_frame k k1" by (auto simp: same_frame_def)
  qed (auto simp: same_frame_def with_con_def)
  then show "same_frame k (with_con c k1) \<longleftrightarrow> same_frame k k1" "same_frame k (with_mem m k1) \<longleftrightarrow> same_frame k k1"
    "same_frame k (with_term t k1) \<longleftrightarrow> same_frame k k1" "same_frame k (poke a v k1) \<longleftrightarrow> same_frame k k1"
    "same_frame k (put x k1) \<longleftrightarrow> same_frame k k1"
    by (simp_all add: with_mem_def with_term_def poke_def put_def)
  show "same_frame k (k1\<lparr>k_msh := s\<rparr>) \<longleftrightarrow> same_frame k k1"
  proof
    assume "same_frame k (k1\<lparr>k_msh := s\<rparr>)"
    then obtain s' where "k1\<lparr>k_msh := s\<rparr> = k\<lparr>k_msh := s'\<rparr>" by (auto simp: same_frame_def)
    then have "(k1\<lparr>k_msh := s\<rparr>)\<lparr>k_msh := k_msh k1\<rparr> = (k\<lparr>k_msh := s'\<rparr>)\<lparr>k_msh := k_msh k1\<rparr>" by simp
    then show "same_frame k k1" by (auto simp: same_frame_def)
  qed (auto simp: same_frame_def)
qed

lemma same_frame_sym: "same_frame k k' \<Longrightarrow> same_frame k' k"
  by (auto simp: same_frame_def intro: exI [of _ "k_msh k"])

lemma same_frame_poke [simp]: "same_frame (poke a v k) k' \<longleftrightarrow> same_frame k k'"
  using same_frame_sym same_frame_ops(4) by blast

lemma write_frame:
  "write_lit s k = Some k' \<Longrightarrow> same_frame k k'" "write_str p k = Some k' \<Longrightarrow> same_frame k k'"
  "print_lit s k = Some k' \<Longrightarrow> same_frame k k'" "print_ptr p k = Some k' \<Longrightarrow> same_frame k k'"
  by (auto simp: write_lit_def write_str_def print_lit_def print_ptr_def dest!: bind_SomeD)

text \<open>A literal without NUL is written character by character; nothing else changes.\<close>

lemma write_lit_eq:
  assumes "0 \<notin> set (lit s)" and "length s < 2 ^ 32"
  shows "write_lit s k = Some (with_term (fold terminal_putchar (lit s) (k_term k)) k)"
proof -
  have "cstr (lit_mem (lit s)) 0 (lit s)"
    by (rule cstr_lit_mem) (use assms in \<open>auto simp: lit_def\<close>)
  then show ?thesis using writestring_cstr(1) by (auto simp: write_lit_def)
qed

section \<open>The line being typed\<close>

definition no_usb :: "kernel \<Rightarrow> bool" where
  "no_usb k \<longleftrightarrow> usb_keyboard_device (ms_kb (k_msh k)) = None"

lemma with_con_usb [simp]: "usb_keyboard_device (ms_kb (k_msh (with_con c k))) = usb_keyboard_device (ms_kb (k_msh k))"
  by (simp add: with_con_def set_con_def)

lemma usb_ops [simp]:
  "no_usb (with_con c k) = no_usb k" "no_usb (with_term t k) = no_usb k" "no_usb (with_mem m k) = no_usb k"
  "no_usb (poke a v k) = no_usb k" "no_usb (put x k) = no_usb k"
  by (simp_all add: no_usb_def with_term_def with_mem_def poke_def put_def)

text \<open>
  \<open>typed_to buf k es k'\<close>: \<open>k'\<close> is \<open>k\<close> with \<open>es\<close> written on the screen, some history of the devices, and
  new memory in the command buffer and at the null pointer (the shift flag); nothing else is changed.
\<close>

definition with_hw :: "hw \<Rightarrow> kernel \<Rightarrow> kernel" where
  "with_hw h k = k\<lparr>k_msh := (k_msh k)\<lparr>ms_kb := (ms_kb (k_msh k))\<lparr>kb_hw := h\<rparr>\<rparr>\<rparr>"

definition typed_to :: "u32 \<Rightarrow> kernel \<Rightarrow> u8 list \<Rightarrow> kernel \<Rightarrow> bool" where
  "typed_to buf k es k' \<longleftrightarrow>
     (\<exists>h m. k' = with_term (fold terminal_putchar es (k_term k)) (with_mem m (with_hw h k)) \<and>
       (\<forall>a. a \<noteq> NULL \<and> \<not> in_rng buf 256 a \<longrightarrow> m a = k_mem k a))"

lemma with_hw_sel [simp]: "k_mem (with_hw h k) = k_mem k" "k_term (with_hw h k) = k_term k"
  by (simp_all add: with_hw_def k_mem_def k_term_def k_con_def)

lemma with_merge [simp]:
  "with_hw h (with_term t k) = with_term t (with_hw h k)" "with_hw h (with_mem m k) = with_mem m (with_hw h k)"
  "with_hw h (with_hw h' k) = with_hw h k" "with_mem m (with_mem m' k) = with_mem m k"
  "with_term t (with_term t' k) = with_term t k" "with_mem m (with_term t k) = with_term t (with_mem m k)"
  by (simp_all add: with_hw_def with_mem_def with_term_def with_con_def set_con_def k_con_def)

lemma with_same [simp]: "with_mem (k_mem k) k = k" "with_term (k_term k) k = k" "with_hw (kb_hw (ms_kb (k_msh k))) k = k"
  by (simp_all add: with_hw_def with_mem_def with_term_def with_con_def set_con_def k_con_def k_mem_def k_term_def)

lemma typed_to_refl [simp]: "typed_to buf k [] k"
  unfolding typed_to_def by (rule exI [of _ "kb_hw (ms_kb (k_msh k))"], rule exI [of _ "k_mem k"]) simp

lemma typed_to_hw [simp]: "typed_to buf k [] (with_hw h k)"
  unfolding typed_to_def
  by (rule exI [of _ h], rule exI [of _ "k_mem k"]) (use with_same(1) [of "with_hw h k"] with_same(2) [of "with_hw h k"] in simp)

lemma typed_to_trans: "typed_to buf k xs k1 \<Longrightarrow> typed_to buf k1 ys k2 \<Longrightarrow> typed_to buf k (xs @ ys) k2"
  unfolding typed_to_def by (elim exE conjE) (rule exI, rule exI, rule conjI, simp, simp)

lemma typed_to_put: "typed_to buf k xs k1 \<Longrightarrow> typed_to buf k (xs @ [c]) (put c k1)"
  unfolding typed_to_def put_def by (elim exE conjE) (rule exI, rule exI, rule conjI, simp, simp)

lemma typed_to_poke: "typed_to buf k xs k1 \<Longrightarrow> a = NULL \<or> in_rng buf 256 a \<Longrightarrow> typed_to buf k xs (poke a c k1)"
  unfolding typed_to_def poke_def by (elim exE conjE) (rule exI, rule exI, rule conjI, simp, auto)

lemma typed_to_frame: "typed_to buf k es k' \<Longrightarrow> same_frame k k'"
  by (auto simp: typed_to_def with_hw_def)

lemma with_hw_usb [simp]: "no_usb (with_hw h k) = no_usb k"
  "past_scancodes (ms_kb (k_msh (with_hw h k))) = past_scancodes (ms_kb (k_msh k))"
  by (simp_all add: no_usb_def with_hw_def)

lemma past_ops [simp]:
  "past_scancodes (ms_kb (k_msh (with_con c k))) = past_scancodes (ms_kb (k_msh k))"
  "past_scancodes (ms_kb (k_msh (with_mem m k))) = past_scancodes (ms_kb (k_msh k))"
  "past_scancodes (ms_kb (k_msh (with_term t k))) = past_scancodes (ms_kb (k_msh k))"
  by (simp_all add: with_con_def with_mem_def with_term_def set_con_def)

lemma typed_to_sel:
  assumes "typed_to buf k es k'"
  shows "k_term k' = fold terminal_putchar es (k_term k)" "no_usb k' = no_usb k"
    "past_scancodes (ms_kb (k_msh k')) = past_scancodes (ms_kb (k_msh k))"
    "a \<noteq> NULL \<Longrightarrow> \<not> in_rng buf 256 a \<Longrightarrow> k_mem k' a = k_mem k a"
  using assms by (auto simp: typed_to_def)

text \<open>A key read from the PS/2 controller changes nothing but the devices' history.\<close>

lemma read_key_ps2:
  assumes "no_usb k"
  obtains key h where "read_key k = Some (key, with_hw h k)"
proof -
  obtain key kb where kb: "ps2_keyboard_read_data (ms_kb (k_msh k)) = (key, kb)" by fastforce
  then obtain h where h: "kb = (ms_kb (k_msh k))\<lparr>kb_hw := h\<rparr>"
    by (auto simp: ps2_keyboard_read_data_def split: prod.splits if_splits)
  have "read_key k = Some (key, k\<lparr>k_msh := (k_msh k)\<lparr>ms_kb := kb\<rparr>\<rparr>)"
    using assms kb by (simp add: read_key_def keyboard_read_key_def no_usb_def)
  then show ?thesis using that h by (simp add: with_hw_def)
qed

text \<open>The abstract line: its text, and whether a shift key is pending.\<close>

definition key_step :: "(bool \<Rightarrow> u8 \<Rightarrow> u8) \<Rightarrow> u8 \<Rightarrow> u8 list \<times> bool \<Rightarrow> u8 list \<times> bool" where
  "key_step lay key line =
     (case line of (t, sh) \<Rightarrow>
        if key = 0 then (t, sh)
        else if key = 2 then (butlast t, False)
        else if key = 1 \<or> key = 5 then (t, False)
        else if key = 6 \<or> key = 7 then (t, True)
        else (t @ [lay sh key], False))"

text \<open>What a key puts on the screen, and all keys; the line never holds 256 characters.\<close>

definition key_echo :: "(bool \<Rightarrow> u8 \<Rightarrow> u8) \<Rightarrow> u8 \<Rightarrow> u8 list \<times> bool \<Rightarrow> u8 list" where
  "key_echo lay key line =
     (case line of (t, sh) \<Rightarrow>
        if key \<in> {0, 1, 4, 5, 6, 7} then []
        else if key = 2 then (if t = [] then [] else [ch CHR 0x08])
        else [lay sh key])"

fun echo_of :: "(bool \<Rightarrow> u8 \<Rightarrow> u8) \<Rightarrow> u8 list \<Rightarrow> u8 list \<times> bool \<Rightarrow> u8 list" where
  "echo_of lay [] line = []"
| "echo_of lay (key # ks) line = key_echo lay key line @ echo_of lay ks (key_step lay key line)"

fun line_fits :: "(bool \<Rightarrow> u8 \<Rightarrow> u8) \<Rightarrow> u8 list \<Rightarrow> u8 list \<times> bool \<Rightarrow> bool" where
  "line_fits lay [] line \<longleftrightarrow> length (fst line) < 256"
| "line_fits lay (key # ks) line \<longleftrightarrow> length (fst line) < 256 \<and> line_fits lay ks (key_step lay key line)"

definition line_rep :: "kernel \<Rightarrow> u32 \<Rightarrow> u32 \<Rightarrow> u8 list \<times> bool \<Rightarrow> bool" where
  "line_rep k buf i line \<longleftrightarrow> i = of_nat (length (fst line)) \<and>
     bytes_at (k_mem k) buf (length (fst line)) = fst line \<and> (k_mem k NULL \<noteq> 0) = snd line"

definition layout_of :: "kernel \<Rightarrow> bool \<Rightarrow> u8 \<Rightarrow> u8" where
  "layout_of k sh key = layout_char sh key k"

lemma layout_frame: "same_frame k k' \<Longrightarrow> layout_of k' = layout_of k"
  by (rule ext)+ (simp add: layout_of_def layout_char_def same_frame_sel)

lemma bytes_at_null:
  assumes "\<not> in_rng buf n NULL"
  shows "bytes_at (m(NULL := v)) buf n = bytes_at m buf n"
  by (rule bytes_at_cong) (use assms in auto)

lemma bytes_at_snoc:
  assumes "bytes_at m buf n = t" and "n < 2 ^ 32"
  shows "bytes_at (m(buf + of_nat n := c)) buf (Suc n) = t @ [c]"
proof -
  have "bytes_at (m(buf + of_nat n := c)) buf n = bytes_at m buf n"
    by (rule bytes_at_cong) (use in_rng_of_nat [OF assms(2), of buf n] in auto)
  moreover have "bytes_at m' buf (Suc n) = bytes_at m' buf n @ [m' (buf + of_nat n)]" for m'
    by (simp add: bytes_at_def)
  ultimately show ?thesis using assms(1) by simp
qed

lemma cstr_bytes:
  assumes "bytes_at m p (length t + 1) = t @ [0]" and "0 \<notin> set t"
  shows "cstr m p t"
proof -
  have "m (p + of_nat i) = (t @ [0]) ! i" if "i < length t + 1" for i
    using nth_bytes_at [OF that, of m p] assms(1) by simp
  from this [of "length t"] this show ?thesis
    using assms(2) unfolding cstr_iff by (auto simp: nth_append) (metis nth_mem)
qed

lemma bytes_at_butlast: "bytes_at m buf n = t \<Longrightarrow> bytes_at m buf (n - 1) = butlast t"
  by (cases n) (auto simp: bytes_at_def)

lemma terminal_key_step:
  assumes "line_rep k buf i line" and "key \<noteq> 4" and "\<not> in_rng buf 256 NULL" and "length (fst line) < 256"
  shows "\<exists>i' k'. terminal_key buf i NULL key k = (0, i', k') \<and>
    line_rep k' buf i' (key_step (layout_of k) key line) \<and> typed_to buf k (key_echo (layout_of k) key line) k'"
proof -
  obtain t sh where l: "line = (t, sh)" by (cases line)
  have r: "i = of_nat (length t)" "bytes_at (k_mem k) buf (length t) = t" "(k_mem k NULL \<noteq> 0) = sh"
    using assms(1) by (simp_all add: line_rep_def l)
  have n: "\<not> in_rng buf (length t) NULL" "\<not> in_rng buf (length t + 1) NULL" "length t < 2 ^ 32"
    using assms(3,4) in_rng_mono [of buf "length t" NULL 256] in_rng_mono [of buf "length t + 1" NULL 256]
    by (auto simp: l)
  have i0: "i > 0 \<longleftrightarrow> t \<noteq> []" using r(1) n(3) of_nat_inj32 [of "length t" 0] by (auto simp: word_gt_0)
  have cell: "in_rng buf 256 (buf + i)" using in_rng_of_natI [of "length t" 256 buf] assms(4) r(1) by (simp add: l)
  have sh0: "typed_to buf k [] (poke NULL v k)" for v by (rule typed_to_poke) simp_all
  consider "key = 0" | "key = 2" | "key = 1 \<or> key = 5" | "key = 6 \<or> key = 7"
    | "key \<notin> {0, 1, 2, 5, 6, 7}" by auto
  then show ?thesis
  proof cases
    case 1
    then show ?thesis using assms(1) l by (simp add: terminal_key_def key_step_def key_echo_def)
  next
    case 2
    have b: "bytes_at ((k_mem k)(NULL := 0)) buf (length t - 1) = butlast t"
      using bytes_at_butlast [OF r(2)] n(1) in_rng_mono [of buf "length t - 1" NULL "length t"]
      by (subst bytes_at_null) auto
    show ?thesis
    proof (cases "t = []")
      case True
      then show ?thesis using 2 r i0 l sh0
        by (simp add: terminal_key_def key_step_def key_echo_def line_rep_def bytes_at_def)
    next
      case False
      then have "i - 1 = of_nat (length t - 1)" using r(1) by (simp add: of_nat_diff Suc_leI)
      then show ?thesis using 2 i0 l False b typed_to_put [OF sh0, of "ch CHR 0x08"]
        by (simp add: terminal_key_def key_step_def key_echo_def line_rep_def)
    qed
  next
    case 3
    then show ?thesis using r l sh0 bytes_at_null [OF n(1)]
      by (auto simp: terminal_key_def key_step_def key_echo_def line_rep_def)
  next
    case 4
    then show ?thesis using r l sh0 bytes_at_null [OF n(1)]
      by (auto simp: terminal_key_def key_step_def key_echo_def line_rep_def)
  next
    case 5
    let ?c = "layout_char sh key k"
    have "bytes_at (((k_mem k)(buf + i := ?c))(NULL := 0)) buf (Suc (length t)) = t @ [?c]"
      using bytes_at_snoc [OF r(2) n(3), of ?c] bytes_at_null [OF n(2)] r(1) by simp
    moreover have "typed_to buf k ([] @ [?c]) (poke NULL 0 (put ?c (poke (buf + i) ?c k)))"
      by (intro typed_to_poke typed_to_put typed_to_refl) (use cell in simp_all)
    ultimately show ?thesis using 5 assms(2) r l
      by (simp add: terminal_key_def key_step_def key_echo_def line_rep_def layout_of_def Let_def add.commute)
  qed
qed

text \<open>\<open>typing k i ks i' k'\<close>: the keys \<open>ks\<close>, none of them Enter, have been read and handled.\<close>

inductive typing :: "kernel \<Rightarrow> u32 \<Rightarrow> u8 list \<Rightarrow> u32 \<Rightarrow> kernel \<Rightarrow> bool" where
  typing_Nil: "typing k i [] i k"
| typing_Cons: "typing k i (key # ks) i' k'"
    if "read_key k = Some (key, k1)" and "terminal_key (command k) i NULL key k1 = (0, i2, k2)"
      and "typing k2 i2 ks i' k'"

inductive_cases typing_ConsE: "typing k i (key # ks) i' k'"

lemma input_loop_keys:
  "input_loop i k = Some k' \<Longrightarrow> \<exists>ks i2 k2 k3 i3. typing k i ks i2 k2 \<and> read_key k2 = Some (4, k3) \<and>
    terminal_key (command k2) i2 NULL 4 k3 = (1, i3, k')"
proof (induction i k k' rule: input_loop.raw_induct [rotated, consumes 1, case_names step])
  case (step f i k k')
  then obtain r where r: "terminal_input (command k) i NULL k = Some r"
    "if fst r = 0 then f (fst (snd r)) (snd (snd r)) = Some k' else k' = snd (snd r)"
    by (auto dest!: bind_SomeD split: if_splits)
  obtain key k1 where k1: "read_key k = Some (key, k1)" "r = terminal_key (command k) i NULL key k1"
    using r(1) by (auto simp: terminal_input_def dest!: bind_SomeD)
  obtain b i2 k2 where b: "r = (b, i2, k2)" by (cases r)
  show ?case
  proof (cases "b = 0")
    case True
    with r(2) b have "f i2 k2 = Some k'" by simp
    from step(1) [OF this] obtain ks i3 k3 k4 i4 where t: "typing k2 i2 ks i3 k3" "read_key k3 = Some (4, k4)"
      "terminal_key (command k3) i3 NULL 4 k4 = (1, i4, k')" by blast
    have "typing k i (key # ks) i3 k3"
      by (rule typing_Cons [OF k1(1) _ t(1)]) (use k1(2) b True in simp)
    then show ?thesis using t(2,3) by blast
  next
    case False
    then have "key = 4" "b = 1" using k1(2) b by (auto simp: terminal_key_def Let_def split: if_splits)
    moreover have "k2 = k'" using r(2) b False by simp
    ultimately show ?thesis using typing_Nil [of k i] k1 b by metis
  qed
qed

text \<open>Conversely, Enter after some keys ends the loop.\<close>

lemma input_loop_typing:
  assumes "typing k i ks i2 k2" and "read_key k2 = Some (4, k3)"
    and "terminal_key (command k2) i2 NULL 4 k3 = (1, i3, k')"
  shows "input_loop i k = Some k'"
  using assms
proof (induction rule: typing.induct)
  case (typing_Nil k i)
  then show ?case by (subst input_loop.simps) (simp add: terminal_input_def)
next
  case (typing_Cons k key k1 i i2 k2 ks i' k4)
  then show ?case by (subst input_loop.simps) (simp add: terminal_input_def)
qed

text \<open>The keys before the first Enter are determined.\<close>

lemma typing_unique:
  assumes "typing k i ks i2 k2" and "read_key k2 = Some (4, k3)" and "typing k i ks' j2 q2" and "read_key q2 = Some (4, q3)"
  shows "ks' = ks \<and> q2 = k2"
  using assms
proof (induction arbitrary: ks' rule: typing.induct)
  case (typing_Nil k i)
  show ?case using typing_Nil.prems(2) typing_Nil.prems(1)
    by (cases rule: typing.cases) (auto simp: terminal_key_def)
next
  case (typing_Cons k key k1 i i2 k2 ks i' k')
  have key: "key \<noteq> 4" using typing_Cons.hyps(2) by (auto simp: terminal_key_def)
  show ?case using typing_Cons.prems(2)
  proof (cases rule: typing.cases)
    case typing_Nil
    then show ?thesis using typing_Cons.prems(3) typing_Cons.hyps(1) key by simp
  next
    case (typing_Cons key' k1' j q ls)
    then show ?thesis
      using typing_Cons.IH [OF typing_Cons.prems(1) _ typing_Cons.prems(3)] typing_Cons.hyps(1,2) by simp
  qed
qed

lemma enter_key: "terminal_key buf i NULL 4 k = (1, i, poke NULL 0 (poke (buf + i) 0 k))"
  by (simp add: terminal_key_def)

text \<open>The buffer refines the abstract line.\<close>

lemma typing_refines:
  assumes "typing k i ks i' k'" and "line_rep k (command k) i line" and "no_usb k"
    and "\<not> in_rng (command k) 256 NULL" and "line_fits (layout_of k) ks line"
  shows "line_rep k' (command k) i' (fold (key_step (layout_of k)) ks line) \<and>
    length (fst (fold (key_step (layout_of k)) ks line)) < 256 \<and>
    typed_to (command k) k (echo_of (layout_of k) ks line) k'"
  using assms
proof (induction arbitrary: line rule: typing.induct)
  case (typing_Cons k key k1 i i2 k2 ks i' k')
  obtain h where k1: "k1 = with_hw h k"
    using read_key_ps2 [OF typing_Cons.prems(2)] typing_Cons.hyps(1) by (metis Pair_inject option.inject)
  then have t1: "typed_to (command k) k [] k1" by simp
  then have c: "command k1 = command k" "layout_of k1 = layout_of k"
    using typed_to_frame [of "command k" k "[]" k1] by (simp_all add: same_frame_sel layout_frame)
  have rep: "line_rep k1 (command k) i line" using typing_Cons.prems(1) k1 by (simp add: line_rep_def)
  have key: "key \<noteq> 4" using typing_Cons.hyps(2) by (auto simp: terminal_key_def)
  have len: "length (fst line) < 256" "line_fits (layout_of k) ks (key_step (layout_of k) key line)"
    using typing_Cons.prems(4) by simp_all
  from terminal_key_step [OF rep key typing_Cons.prems(3) len(1)] typing_Cons.hyps(2)
  have s: "line_rep k2 (command k) i2 (key_step (layout_of k) key line)"
      "typed_to (command k) k1 (key_echo (layout_of k) key line) k2"
    using c by auto
  have t2: "typed_to (command k) k (key_echo (layout_of k) key line) k2" using typed_to_trans [OF t1 s(2)] by simp
  note f = typed_to_frame [OF t2]
  have c2: "command k2 = command k" "layout_of k2 = layout_of k"
    using f by (simp_all add: same_frame_sel layout_frame)
  have "no_usb k2" using typed_to_sel(2) [OF t2] typing_Cons.prems(2) by simp
  with typing_Cons.IH [of "key_step (layout_of k) key line"] s(1) c2 len(2) typing_Cons.prems(3)
  have "line_rep k' (command k) i' (fold (key_step (layout_of k)) (key # ks) line)"
    "length (fst (fold (key_step (layout_of k)) (key # ks) line)) < 256"
    "typed_to (command k) k2 (echo_of (layout_of k) ks (key_step (layout_of k) key line)) k'" by simp_all
  then show ?case using typed_to_trans [OF t2] by simp
qed simp

section \<open>The line that Enter leaves\<close>

definition line_typed :: "kernel \<Rightarrow> u8 list \<Rightarrow> u8 list" where
  "line_typed k ks = fst (fold (key_step (layout_of k)) ks ([], k_mem k NULL \<noteq> 0))"

lemma input_line:
  assumes t: "typing k 0 ks i k2" and k3: "read_key k2 = Some (4, k3)"
    and e: "terminal_key (command k2) i NULL 4 k3 = (1, j, k')" and usb: "no_usb k"
    and c: "\<not> in_rng (command k) 256 NULL"
    and fits: "line_fits (layout_of k) ks ([], k_mem k NULL \<noteq> 0)"
  shows "length (line_typed k ks) < 256"
    and "bytes_at (k_mem k') (command k) (length (line_typed k ks) + 1) = line_typed k ks @ [0]"
    and "k_mem k' NULL = 0"
    and "typed_to (command k) k (echo_of (layout_of k) ks ([], k_mem k NULL \<noteq> 0)) k'"
proof -
  have rep0: "line_rep k (command k) 0 ([], k_mem k NULL \<noteq> 0)" by (simp add: line_rep_def bytes_at_def)
  let ?l = "fold (key_step (layout_of k)) ks ([], k_mem k NULL \<noteq> 0)" and ?n = "length (line_typed k ks)"
  let ?e = "echo_of (layout_of k) ks ([], k_mem k NULL \<noteq> 0)"
  note r = typing_refines [OF t rep0 usb c fits]
  show len: "?n < 256" using r by (simp add: line_typed_def)
  have t2: "typed_to (command k) k ?e k2" using r by blast
  then have c2: "command k2 = command k" and u2: "no_usb k2"
    using typed_to_frame [OF t2] typed_to_sel(2) [OF t2] usb by (simp_all add: same_frame_sel)
  obtain h where k3: "k3 = with_hw h k2" using read_key_ps2 [OF u2] k3 by (metis Pair_inject option.inject)
  have i: "i = of_nat ?n" and b2: "bytes_at (k_mem k2) (command k) ?n = line_typed k ks"
    using r by (simp_all add: line_rep_def line_typed_def)
  have k': "k' = poke NULL 0 (poke (command k + of_nat ?n) 0 k3)" using e enter_key [of "command k2" i k3] c2 i by simp
  have n: "\<not> in_rng (command k) (?n + 1) NULL" using c len in_rng_mono [of "command k" "?n + 1" NULL 256] by auto
  show "bytes_at (k_mem k') (command k) (?n + 1) = line_typed k ks @ [0]"
    using bytes_at_snoc [OF b2, of 0] bytes_at_null [OF n] len k' k3 by simp
  show "k_mem k' NULL = 0" using k' by simp
  have "typed_to (command k) k ?e k3" using typed_to_trans [OF t2 typed_to_hw] k3 by simp
  then show "typed_to (command k) k ?e k'" unfolding k'
    by (intro typed_to_poke) (use in_rng_of_natI [OF len, of "command k"] in simp_all)
qed

section \<open>Which command runs\<close>

lemma strcmp_lit:
  assumes "cstr m p s" and "0 \<notin> set (lit w)" and "length w < 2 ^ 32"
  shows "\<exists>d. strcmp m p (lit_mem (lit w)) 0 = Some d \<and> (d = 0 \<longleftrightarrow> s = lit w)"
proof -
  have w: "cstr (lit_mem (lit w)) 0 (lit w)" by (rule cstr_lit_mem) (use assms in \<open>auto simp: lit_def\<close>)
  show ?thesis using strcmp_cstr [OF assms(1) w] strcmp_eq_iff [OF assms(1) w] by auto
qed

lemma is_word_lit:
  assumes "cstr (k_mem k) p s" and "0 \<notin> set (lit w)" and "length w < 2 ^ 32"
  shows "is_word k p w = Some (s = lit w)"
  using strcmp_lit [OF assms] by (auto simp: is_word_def)

text \<open>The command a word names, and the layout.\<close>

definition cmd_of :: "u8 list \<Rightarrow> cmd" where
  "cmd_of s = (case map_of (map (\<lambda>(w, c). (lit w, c)) command_names) s of Some c \<Rightarrow> c | None \<Rightarrow> Unknown)"

lemma cmd_of_names:
  "cmd_of w = (if w = lit ''help'' then Help else if w = lit ''cl'' then Cl else if w = lit ''getkey'' then Getkey
     else if w = lit ''edit'' then Edit else if w = lit ''run'' then Run else if w = lit ''reboot'' then Reboot
     else if w = lit ''lsdisks'' then Lsdisks else if w = lit ''shutdown'' then Shutdown else Unknown)"
  by (auto simp: cmd_of_def command_names_def)

definition layout_named :: "u8 list \<Rightarrow> KeyboardLayout option" where
  "layout_named s = map_of (map (\<lambda>(w, l). (lit w, l)) layout_names) s"

lemma find_cmd_list:
  assumes "cstr (k_mem k) p s" and "\<forall>(w, c) \<in> set cs. 0 \<notin> set (lit w) \<and> length w < 2 ^ 32"
  shows "find_cmd k p cs = Some (case map_of (map (\<lambda>(w, c). (lit w, c)) cs) s of Some c \<Rightarrow> c | None \<Rightarrow> Unknown)"
  using assms(2) by (induction cs) (auto simp: is_word_lit [OF assms(1)])

lemma find_cmd_of: "cstr (k_mem k) p s \<Longrightarrow> find_cmd k p command_names = Some (cmd_of s)"
  unfolding cmd_of_def by (rule find_cmd_list) (simp_all add: command_names_def ch_def)

lemma find_layout_list:
  assumes "cstr (k_mem k) p s" and "\<forall>(w, l) \<in> set ls. 0 \<notin> set (lit w) \<and> length w < 2 ^ 32"
  shows "find_layout k p ls = Some (map_of (map (\<lambda>(w, l). (lit w, l)) ls) s)"
  using assms(2) by (induction ls) (auto simp: is_word_lit [OF assms(1)])

lemma find_layout_named: "cstr (k_mem k) p s \<Longrightarrow> find_layout k p layout_names = Some (layout_named s)"
  unfolding layout_named_def by (rule find_layout_list) (simp_all add: layout_names_def ch_def)

text \<open>The words of the line: how many there are, and a pointer to each in \<open>args\<close>.\<close>

abbreviation line_words :: "u8 list \<Rightarrow> u8 list list" where
  "line_words \<equiv> tokens {ch CHR '' ''}"

lemma split_line_words:
  assumes "command k \<noteq> NULL" and "cstr (k_mem k) (command k) s" and "unat (command k) + length s < 2 ^ 32"
    and "rng_disj (arg_array k) (4 * length (line_words s)) (command k) (Suc (length s))"
  obtains m1 tk where
    "split_line k = Some (of_nat (length (line_words s)), with_mem m1 (k\<lparr>k_token := tk\<rparr>))"
    "list_all2 (cstr m1) (pointers_at m1 (arg_array k) (length (line_words s))) (line_words s)"
    "\<forall>a. \<not> in_rng (command k) (length s) a \<and> \<not> in_rng (arg_array k) (4 * length (line_words s)) a \<longrightarrow> m1 a = k_mem k a"
proof -
  obtain ts where "split_command \<lparr>tok_mem = k_mem k, saved_token = k_token k\<rparr> (command k) (arg_array k) =
      Some (of_nat (length (line_words s)), ts)"
    "list_all2 (cstr (tok_mem ts)) (pointers_at (tok_mem ts) (arg_array k) (length (line_words s))) (line_words s)"
    "\<forall>a. \<not> in_rng (command k) (length s) a \<and> \<not> in_rng (arg_array k) (4 * length (line_words s)) a \<longrightarrow> tok_mem ts a = k_mem k a"
    using split_command_words [OF assms(1), of "\<lparr>tok_mem = k_mem k, saved_token = k_token k\<rparr>" s "arg_array k"] assms(2-4)
    by auto
  then show ?thesis using that [of "tok_mem ts" "saved_token ts"] by (simp add: split_line_def)
qed

lemma arg_at_word:
  assumes "list_all2 (cstr m) (pointers_at m (arg_array k) n) ws" and "i < length ws" and "k_mem k = m"
  shows "cstr (k_mem k) (arg_at k (of_nat i)) (ws ! i)"
proof -
  have "i < n" using list_all2_lengthD [OF assms(1)] assms(2) by simp
  then have "pointers_at m (arg_array k) n ! i = arg_at k (of_nat i)"
    using assms(3) by (simp add: pointers_at_def arg_at_def)
  then show ?thesis using list_all2_nthD2 [OF assms(1,2)] assms(3) by simp
qed

text \<open>The words of the line choose the command and are its arguments.\<close>

lemma dispatch_words:
  assumes "command k \<noteq> NULL" and "cstr (k_mem k) (command k) s" and "unat (command k) + length s < 2 ^ 32"
    and "rng_disj (arg_array k) (4 * length (line_words s)) (command k) (Suc (length s))"
    and few: "length (line_words s) \<le> 10"
  obtains m1 tk where
    "split_line k = Some (of_nat (length (line_words s)), with_mem m1 (k\<lparr>k_token := tk\<rparr>))"
    "list_all2 (cstr m1) (pointers_at m1 (arg_array k) (length (line_words s))) (line_words s)"
    "\<forall>a. \<not> in_rng (command k) (length s) a \<and> \<not> in_rng (arg_array k) (4 * length (line_words s)) a \<longrightarrow> m1 a = k_mem k a"
    "line_words s \<noteq> [] \<longrightarrow> find_cmd (with_mem m1 (k\<lparr>k_token := tk\<rparr>)) (arg_at (with_mem m1 (k\<lparr>k_token := tk\<rparr>)) 0)
      command_names = Some (cmd_of (hd (line_words s)))"
    "dispatch k = (if line_words s = [] then Some (False, with_mem m1 (k\<lparr>k_token := tk\<rparr>))
      else run_command (cmd_of (hd (line_words s))) (of_nat (length (line_words s))) (with_mem m1 (k\<lparr>k_token := tk\<rparr>)))"
proof -
  let ?ws = "line_words s"
  obtain m1 tk where w: "split_line k = Some (of_nat (length ?ws), with_mem m1 (k\<lparr>k_token := tk\<rparr>))"
    "list_all2 (cstr m1) (pointers_at m1 (arg_array k) (length ?ws)) ?ws"
    "\<forall>a. \<not> in_rng (command k) (length s) a \<and> \<not> in_rng (arg_array k) (4 * length ?ws) a \<longrightarrow> m1 a = k_mem k a"
    by (rule split_line_words [OF assms(1-4)])
  let ?k1 = "with_mem m1 (k\<lparr>k_token := tk\<rparr>)"
  have arr: "arg_array ?k1 = arg_array k" by (simp add: with_mem_def with_con_def)
  have e: "(of_nat (length ?ws) :: u32) = 0 \<longleftrightarrow> ?ws = []"
    using of_nat_inj32 [of "length ?ws" 0] few by simp
  have f: "find_cmd ?k1 (arg_at ?k1 0) command_names = Some (cmd_of (hd ?ws))" if "?ws \<noteq> []"
  proof (rule find_cmd_of)
    show "cstr (k_mem ?k1) (arg_at ?k1 0) (hd ?ws)"
      using arg_at_word [of m1 ?k1 "length ?ws" ?ws 0] w(2) that arr by (simp add: hd_conv_nth)
  qed
  then have fc: "?ws \<noteq> [] \<longrightarrow> find_cmd ?k1 (arg_at ?k1 0) command_names = Some (cmd_of (hd ?ws))" by blast
  from f have "dispatch k = (if ?ws = [] then Some (False, ?k1)
      else run_command (cmd_of (hd ?ws)) (of_nat (length ?ws)) ?k1)"
    using w(1) e by (simp add: dispatch_def)
  from that [OF w fc this] show ?thesis .
qed

lemma goes_on_Some: "goes_on r = Some (b, k) \<longleftrightarrow> r = Some k \<and> \<not> b"
  by (cases r) (auto simp: goes_on_def)

lemma ends_Some: "ends r = Some (b, k) \<longleftrightarrow> r = Some k \<and> b"
  by (cases r) (auto simp: ends_def)

text \<open>Only \<open>reboot\<close> and \<open>shutdown\<close> leave the prompt.\<close>

lemma run_command_ends: "run_command c args k = Some (b, k') \<Longrightarrow> b \<longleftrightarrow> c = Reboot \<or> c = Shutdown"
  by (cases c) (auto simp: run_command_def goes_on_Some ends_Some)

lemma message_text:
  assumes "message s"
  shows "write_lit s k = Some (with_term (fold terminal_putchar (lit s) (k_term k)) k)"
  using assms by (intro write_lit_eq) (auto simp: message_def)

text \<open>\<open>cl\<close> changes the layout exactly when its argument names one.\<close>

lemma cmd_cl_result:
  assumes "sint arg_count > 1" and "cstr (k_mem k) (arg_at k 1) s"
  shows "\<exists>k'. cmd_cl arg_count k = Some k' \<and>
    current_layout k' = (case layout_named s of Some l \<Rightarrow> l | None \<Rightarrow> current_layout k)"
proof -
  have m: "message (''Layout changed successfully.'' @ [CHR 0x0A])"
      "message (''Invalid layout. Available layouts: en_us, de_de, fr_fr, es_es, ru_ru'' @ [CHR 0x0A])"
    by (simp_all add: message_def ch_def)
  show ?thesis
  proof (cases "layout_named s")
    case None
    then show ?thesis using assms(1) message_text [OF m(2)] find_layout_named [OF assms(2)]
      by (simp add: cmd_cl_def with_term_def with_con_def del: append_Cons append_Nil)
  next
    case (Some l)
    then show ?thesis using assms(1) message_text [OF m(1)] find_layout_named [OF assms(2)]
      by (simp add: cmd_cl_def with_term_def with_con_def del: append_Cons append_Nil)
  qed
qed

section \<open>The empty layouts\<close>

text \<open>\<open>stuck k\<close>: a layout without keys is active, and the keyboard delivers bytes below 128.\<close>

definition ascii_keys :: "kernel \<Rightarrow> bool" where
  "ascii_keys k \<longleftrightarrow> no_usb k \<and> (\<forall>i. unat (past_scancodes (ms_kb (k_msh k)) i) < 128)"

definition stuck :: "kernel \<Rightarrow> bool" where
  "stuck k \<longleftrightarrow> current_layout k \<in> {LAYOUT_FR, LAYOUT_ES, LAYOUT_RU} \<and> ascii_keys k \<and> command k \<noteq> NULL"

lemma scancode_small:
  assumes "\<forall>i. unat (past i) < 128"
  shows "unat (scancode_to_ascii past c) < 128"
proof (cases "unat c < length scancode_list")
  case True
  then have "scancode_to_ascii past c \<in> set us_keys \<union> {0, 1, 2, 4, 5, 6, 7, 8, ch CHR ''*''}"
    by (rule scancode_keys)
  then show ?thesis using us_keys_ascii by (auto simp: ch_def)
next
  case False
  then show ?thesis using assms by (simp add: scancode_to_ascii_def)
qed

lemma read_key_small:
  assumes "ascii_keys k"
  obtains key h where "read_key k = Some (key, with_hw h k)" "unat key < 128"
proof -
  have n: "no_usb k" using assms by (simp add: ascii_keys_def)
  obtain key h where k1: "read_key k = Some (key, with_hw h k)" by (rule read_key_ps2 [OF n])
  have "unat key < 128"
    using k1 n assms scancode_small
    by (auto simp: read_key_def keyboard_read_key_def no_usb_def ascii_keys_def ps2_keyboard_read_data_def
        split: prod.splits if_splits)
  then show ?thesis using that k1 by simp
qed

lemma ascii_ops [simp]:
  "ascii_keys (with_con c k) = ascii_keys k" "ascii_keys (with_term t k) = ascii_keys k"
  "ascii_keys (with_mem m k) = ascii_keys k" "ascii_keys (poke a v k) = ascii_keys k" "ascii_keys (put x k) = ascii_keys k"
  "ascii_keys (with_hw h k) = ascii_keys k"
  by (simp_all add: ascii_keys_def with_term_def with_mem_def poke_def put_def)

lemma stuck_frame: "same_frame k k' \<Longrightarrow> ascii_keys k' \<Longrightarrow> stuck k \<Longrightarrow> stuck k'"
  by (simp add: stuck_def same_frame_sel)

text \<open>Every character that is typed is NUL.\<close>

lemma stuck_key:
  assumes "stuck k" and "i \<noteq> 0 \<longrightarrow> k_mem k (command k) = 0" and "unat key < 128"
    and "terminal_key (command k) i NULL key k = (r, i', k')"
  shows "stuck k' \<and> same_frame k k' \<and> (i' \<noteq> 0 \<or> r \<noteq> 0 \<longrightarrow> k_mem k' (command k') = 0)"
proof -
  have c: "layout_char sh key k = 0" for sh
    using assms(1,3) empty_layouts by (auto simp: stuck_def layout_char_def)
  have f: "same_frame k k'" "ascii_keys k'"
    using assms(1,4) by (auto simp: terminal_key_def stuck_def Let_def split: if_splits)
  have "i' \<noteq> 0 \<or> r \<noteq> 0 \<longrightarrow> k_mem k' (command k) = 0"
    using assms by (auto simp: terminal_key_def c Let_def stuck_def split: if_splits)
  then show ?thesis using f stuck_frame [OF f assms(1)] by (simp add: same_frame_sel)
qed

lemma stuck_input:
  "input_loop i k = Some k' \<Longrightarrow> stuck k \<Longrightarrow> i \<noteq> 0 \<longrightarrow> k_mem k (command k) = 0 \<Longrightarrow>
    stuck k' \<and> same_frame k k' \<and> k_mem k' (command k') = 0"
proof (induction i k k' rule: input_loop.raw_induct [rotated, consumes 1, case_names step])
  case (step f i k k')
  have a: "ascii_keys k" using step(3) by (simp add: stuck_def)
  obtain key h where key: "read_key k = Some (key, with_hw h k)" "unat key < 128" by (rule read_key_small [OF a])
  define k1 where "k1 = with_hw h k"
  have k1: "read_key k = Some (key, k1)" "unat key < 128" "same_frame k k1" "ascii_keys k1" "k_mem k1 = k_mem k"
    using key a typed_to_frame [OF typed_to_hw] by (simp_all add: k1_def)
  have c: "command k1 = command k" using k1(3) by (simp add: same_frame_sel)
  obtain r i2 k2 where t: "terminal_key (command k) i NULL key k1 = (r, i2, k2)" by (metis prod_cases3)
  have s1: "stuck k1" by (rule stuck_frame [OF k1(3,4) step(3)])
  have s2: "stuck k2" "same_frame k1 k2" "i2 \<noteq> 0 \<or> r \<noteq> 0 \<longrightarrow> k_mem k2 (command k2) = 0"
    using stuck_key [OF s1 _ k1(2), of i r i2 k2] t c k1(5) step(4) by simp_all
  have "if r = 0 then f i2 k2 = Some k' else k' = k2"
    using step(2) k1(1) t by (auto simp: terminal_input_def split: if_splits)
  then show ?case using step(1) [of i2 k2 k'] s2 same_frame_trans k1(3) by (auto split: if_splits)
qed

lemma stuck_dispatch:
  assumes "stuck k" and "k_mem k (command k) = 0"
  shows "\<exists>k1. split_line k = Some (0, k1) \<and> dispatch k = Some (False, k1) \<and> stuck k1 \<and>
    current_layout k1 = current_layout k"
proof -
  have e: "tokens {ch CHR '' ''} [] = []" by (simp add: tokens.simps first_run_def skip_delims_def)
  obtain m1 tk where sl: "split_line k = Some (of_nat (length (line_words [])), with_mem m1 (k\<lparr>k_token := tk\<rparr>))"
    by (rule split_line_words [of k "[]"])
       (use assms e unat32_less [of "command k"] in \<open>simp_all add: stuck_def rng_disj_def\<close>)
  let ?k1 = "with_mem m1 (k\<lparr>k_token := tk\<rparr>)"
  have "stuck ?k1" "current_layout ?k1 = current_layout k"
    using assms(1) by (simp_all add: stuck_def ascii_keys_def no_usb_def with_mem_def with_con_def set_con_def)
  then show ?thesis using sl e by (simp add: dispatch_def)
qed

lemma prompt_loop_stuck: "stuck k \<Longrightarrow> prompt_loop k = None"
proof (rule ccontr)
  assume s: "stuck k" and "prompt_loop k \<noteq> None"
  then obtain r where r: "prompt_loop k = Some r" by auto
  have "\<not> stuck k"
    using r
  proof (induction k r rule: prompt_loop.raw_induct [rotated, consumes 1, case_names step])
    case (step f k r)
    show ?case
    proof
      assume s: "stuck k"
      obtain k1 k2 d where k1: "write_lit ([CHR 0x0A] @ ''>>> '') k = Some k1" and k2: "input_loop 0 k1 = Some k2"
        and d: "dispatch k2 = Some d" "if fst d then r = snd d else f (snd d) = Some r"
        using step(2) by (auto dest!: bind_SomeD split: if_splits)
      have "ascii_keys k1" using k1 s by (auto simp: write_lit_def stuck_def dest!: bind_SomeD)
      then have "stuck k1" by (rule stuck_frame [OF write_frame(1) [OF k1] _ s])
      then have "stuck k2" "k_mem k2 (command k2) = 0" using stuck_input [OF k2] by auto
      then obtain k3 where "d = (False, k3)" "stuck k3" using stuck_dispatch d(1) by fastforce
      then show False using d(2) step(1) by auto
    qed
  qed
  then show False using s by blast
qed

end
