(* ===== verification/Editor.thy ===== *)
theory Editor
  imports Prompt
begin

text \<open>
  The program editor and the executor: their two buffers are never connected, so \<open>run\<close> finds no
  program after any session; the cursor arithmetic of the editor; and the search for AHCI devices,
  which looks at fresh heap memory in place of the device.
\<close>

section \<open>The executor's buffer\<close>

lemma exec_line_frame: "exec_line l k = Some r \<Longrightarrow> same_frame k (snd r)"
proof -
  assume "exec_line l k = Some r"
  then obtain k1 k2 b s where "write_lit ''> '' k = Some k1" "write_str l k1 = Some k2"
    and r: "r = (b, (put (ch CHR 0x0A) k2)\<lparr>k_msh := s\<rparr>)"
    by (auto simp: exec_line_def say_line_def dest!: bind_SomeD)
  then have "same_frame k k2" using write_frame(1,2) same_frame_trans by blast
  then show ?thesis by (simp add: r)
qed

lemma exec_loop_frame:
  "exec_loop c l ok k = Some r \<Longrightarrow> same_frame k (snd (snd (snd r)))"
proof (induction c l ok k r rule: exec_loop.raw_induct [rotated, consumes 1, case_names step])
  case (step f c l ok k r)
  show ?case
  proof (cases "k_mem k c = ch CHR 0x0A \<and> l < c \<and> k_mem k c \<noteq> 0")
    case False
    then show ?thesis using step(2) by (auto split: if_splits dest!: step(1))
  next
    case True
    then obtain q where q: "exec_line l (poke c 0 k) = Some q"
      and r: "if \<not> fst q then \<exists>k1. write_lit (''! Error in this line'' @ [CHR 0x0A]) (snd q) = Some k1 \<and> r = (c, l, False, k1)
        else f (c + 1) (c + 1) ok (poke c (ch CHR 0x0A) (snd q)) = Some r"
      using step(2) by (auto split: if_splits dest!: bind_SomeD)
    have e: "same_frame k (snd q)" using exec_line_frame [OF q] by simp
    then show ?thesis using r write_frame(1) same_frame_trans [OF e] by (auto split: if_splits dest!: step(1))
  qed
qed

lemma execute_frame:
  assumes "execute_buffer k = Some k'"
  shows "same_frame k k'"
proof -
  obtain k1 where k1: "write_lit ([CHR 0x0A] @ ''--- Executing Program ---'' @ [CHR 0x0A]) k = Some k1"
    using assms unfolding execute_buffer_def by (blast dest: bind_SomeD)
  note f1 = write_frame(1) [OF k1]
  obtain c l ok k3 n where k3: "exec_loop (editor_buffer k) (editor_buffer k) True (poke n 0 k1) = Some (c, l, ok, k3)"
    and r: "do {
     (ok', k4) \<leftarrow> (if l < c then do { (ok1, k4) \<leftarrow> exec_line l k3; Some (ok1 \<and> ok, k4) } else Some (ok, k3));
     write_lit (if ok' then [CHR 0x0A] @ ''--- Execution Successful ---'' @ [CHR 0x0A]
                else [CHR 0x0A] @ ''--- Execution Failed ---'' @ [CHR 0x0A]) k4 } = Some k'"
    using assms k1 unfolding execute_buffer_def Let_def by (auto dest!: bind_SomeD simp del: append_Cons append_Nil)
  have f3: "same_frame k k3" using exec_loop_frame [OF k3] same_frame_trans [OF f1] by simp
  have "same_frame k (snd q)" if "exec_line l k3 = Some q" for q
    using same_frame_trans [OF f3 exec_line_frame [OF that]] .
  then show ?thesis using r f3
    by (fastforce split: if_splits dest!: bind_SomeD intro: same_frame_trans [OF _ write_frame(1)] simp del: append_Cons append_Nil)
qed

text \<open>With nothing in the buffer the executor runs no line, and reports success.\<close>

definition exec_banner :: "u8 list" where
  "exec_banner = lit ([CHR 0x0A] @ ''--- Executing Program ---'' @ [CHR 0x0A] @ [CHR 0x0A] @
     ''--- Execution Successful ---'' @ [CHR 0x0A])"

lemma execute_empty:
  assumes "editor_buffer_pos k = 0"
  shows "\<exists>k'. execute_buffer k = Some k' \<and> same_frame k k' \<and> k_mem k' = (k_mem k)(editor_buffer k := 0) \<and>
    k_term k' = fold terminal_putchar exec_banner (k_term k)"
proof -
  let ?a = "[CHR 0x0A] @ ''--- Executing Program ---'' @ [CHR 0x0A]"
  let ?b = "[CHR 0x0A] @ ''--- Execution Successful ---'' @ [CHR 0x0A]"
  have m: "message ?a" "message ?b" by (simp_all add: message_def ch_def)
  define k1 where "k1 = with_term (fold terminal_putchar (lit ?a) (k_term k)) k"
  define k2 where "k2 = poke (editor_buffer k) 0 k1"
  have w: "write_lit ?a k = Some k1" unfolding k1_def by (rule message_text [OF m(1)])
  have l: "exec_loop (editor_buffer k) (editor_buffer k) True k2 = Some (editor_buffer k, editor_buffer k, True, k2)"
    by (subst exec_loop.simps) (simp add: k2_def)
  have "execute_buffer k = write_lit ?b k2"
    unfolding execute_buffer_def Let_def w
    using assms l by (simp add: EDITOR_BUFFER_SIZE_def k2_def del: append_Cons append_Nil)
  also have "\<dots> = Some (with_term (fold terminal_putchar (lit ?b) (k_term k2)) k2)" by (rule message_text [OF m(2)])
  finally show ?thesis
    by (simp add: k2_def k1_def exec_banner_def del: append_Cons append_Nil) (simp add: k1_def)
qed

section \<open>Nothing moves the executor's position\<close>

abbreviation same_pos :: "kernel \<Rightarrow> kernel \<Rightarrow> bool" where
  "same_pos k k' \<equiv> editor_buffer_pos k' = editor_buffer_pos k"

lemma pos_ops [simp]:
  "editor_buffer_pos (with_con c k) = editor_buffer_pos k" "editor_buffer_pos (with_term t k) = editor_buffer_pos k"
  "editor_buffer_pos (with_mem m k) = editor_buffer_pos k" "editor_buffer_pos (poke a v k) = editor_buffer_pos k"
  "editor_buffer_pos (put x k) = editor_buffer_pos k" "editor_buffer_pos (set_shifted y k) = editor_buffer_pos k"
  "editor_buffer_pos (set_ed_word off w k) = editor_buffer_pos k" "editor_buffer_pos (set_active b k) = editor_buffer_pos k"
  "editor_buffer_pos (copy_device d e k) = editor_buffer_pos k"
  by (simp_all add: with_con_def with_term_def with_mem_def poke_def put_def set_shifted_def set_ed_word_def
      set_active_def copy_device_def)

lemma pos_frame: "same_frame k k' \<Longrightarrow> same_pos k k'"
  by (simp add: same_frame_sel)

lemmas pos_dests = write_frame [THEN pos_frame] execute_frame [THEN pos_frame]

lemma read_key_pos: "read_key k = Some (key, k') \<Longrightarrow> same_pos k k'"
  by (auto simp: read_key_def dest!: bind_SomeD)

lemma redraw_pos: "redraw k = Some k' \<Longrightarrow> same_pos k k'"
  by (auto simp: redraw_def dest!: bind_SomeD pos_dests(2))

lemma editor_key_pos:
  assumes "editor_key key k = Some k'"
  shows "same_pos k k'"
proof -
  have f: "ed_finish x q = Some k' \<Longrightarrow> same_pos q k'" for x q
    by (auto simp: ed_finish_def dest: redraw_pos split: if_splits)
  show ?thesis
    using assms
    by (auto simp: editor_key_def ed_enter_def ed_backspace_def ed_char_def ed_store_def ed_leave_def Let_def
        split: if_splits dest!: f pos_dests bind_SomeD)
qed

lemma editor_loop_pos: "editor_loop k = Some k' \<Longrightarrow> same_pos k k'"
proof (induction k k' rule: editor_loop.raw_induct [rotated, consumes 1, case_names step])
  case (step f k k')
  then show ?case
    by (auto simp: editor_handle_input_def split: if_splits
        dest!: bind_SomeD step(1) editor_key_pos read_key_pos)
qed

lemma ahci_pos:
  "is_ahci d k = (y, k') \<Longrightarrow> same_pos k k'"
  "count_ahci n i l c k = (m, k'') \<Longrightarrow> same_pos k k''"
  "copy_ahci n i l p j k = Some k3 \<Longrightarrow> same_pos k k3"
proof -
  show a: "is_ahci d k = (y, k') \<Longrightarrow> same_pos k k'" for d k y k'
    by (auto simp: is_ahci_def get_hba_port_def Let_def split: prod.splits)
  show "count_ahci n i l c k = (m, k'') \<Longrightarrow> same_pos k k''"
    by (induction n i l c k rule: count_ahci.induct) (auto split: prod.splits dest: a)
  show "copy_ahci n i l p j k = Some k3 \<Longrightarrow> same_pos k k3"
    by (induction n i l p j k rule: copy_ahci.induct)
       (fastforce simp: Let_def split: prod.splits if_splits dest!: bind_SomeD dest: a pos_dests(4))+
qed

lemma print_ids_pos: "print_ids n p k = Some k' \<Longrightarrow> same_pos k k'"
  by (induction n p k rule: print_ids.induct) (fastforce dest!: bind_SomeD dest: pos_dests(4))+

lemma print_all_pos: "print_all ss k = Some k' \<Longrightarrow> same_pos k k'"
  by (induction ss k rule: print_all.induct) (fastforce dest!: bind_SomeD dest: pos_dests(3))+

lemma lsdisks_pos: "cmd_lsdisks k = Some k' \<Longrightarrow> same_pos k k'"
  by (auto simp: cmd_lsdisks_def list_disks_def get_ahci_devices_def Let_def split: prod.splits
      dest!: bind_SomeD print_ids_pos pos_dests ahci_pos(2,3))

lemma power_off_pos: "power_off m k = Some k' \<Longrightarrow> same_pos k k'"
  by (auto simp: power_off_def Let_def split: if_splits dest!: bind_SomeD pos_dests(3))

lemma run_command_pos:
  assumes "run_command c args k = Some (b, k')"
  shows "same_pos k k'"
  using assms
  by (cases c)
     (auto simp: run_command_def goes_on_Some ends_Some cmd_help_def cmd_cl_def cmd_getkey_def cmd_edit_def start_editor_def
       cmd_run_def cmd_unknown_def split: if_splits option.splits
       dest!: print_all_pos pos_dests editor_loop_pos lsdisks_pos power_off_pos bind_SomeD)

lemma split_line_pos: "split_line k = Some (n, k') \<Longrightarrow> same_pos k k'"
  by (auto simp: split_line_def dest!: bind_SomeD)

lemma dispatch_pos: "dispatch k = Some (b, k') \<Longrightarrow> same_pos k k'"
  by (auto simp: dispatch_def split: if_splits dest!: bind_SomeD run_command_pos split_line_pos)

lemma input_loop_pos: "input_loop i k = Some k' \<Longrightarrow> same_pos k k'"
proof (induction i k k' rule: input_loop.raw_induct [rotated, consumes 1, case_names step])
  case (step f i k k')
  have t: "same_pos q q'" if "terminal_key b j s key q = (x, y, q')" for b j s key q x y q'
    using that by (auto simp: terminal_key_def Let_def split: if_splits)
  show ?case using step(2)
    by (auto simp: terminal_input_def split: if_splits dest!: bind_SomeD read_key_pos step(1) t)
qed


definition no_program :: "u8 list" where
  "no_program = lit (''No program to execute. Use '' @ [CHR 0x27] @ ''edit'' @ [CHR 0x27] @ '' first.'' @ [CHR 0x0A])"

lemma cmd_run_empty:
  assumes "editor_buffer_pos k = 0"
  shows "cmd_run k = Some (with_term (fold terminal_putchar no_program (k_term k)) k)"
proof -
  have "message (''No program to execute. Use '' @ [CHR 0x27] @ ''edit'' @ [CHR 0x27] @ '' first.'' @ [CHR 0x0A])"
    by (simp add: message_def ch_def)
  from message_text [OF this] show ?thesis
    using assms by (simp add: cmd_run_def no_program_def del: append_Cons append_Nil)
qed

section \<open>Editing\<close>

text \<open>The four variables of the editor lie behind its buffer, each apart from the others; the
  uninitialised pointer is taken not to point into them.\<close>

definition ed_apart :: "kernel \<Rightarrow> bool" where
  "ed_apart k \<longleftrightarrow> \<not> in_rng (ed_buffer k) 4109 (shifted_ptr k)"

lemma ed_offsets:
  "off_position = of_nat 4096" "off_cursor_x = of_nat 4100" "off_cursor_y = of_nat 4104" "off_active = of_nat 4108"
  by (simp_all add: editor_offsets)

lemma ed_frame [simp]:
  "ed_buffer (with_con c k) = ed_buffer k" "ed_buffer (with_mem m k) = ed_buffer k" "ed_buffer (with_term t k) = ed_buffer k"
  "ed_buffer (poke a v k) = ed_buffer k" "ed_buffer (put x k) = ed_buffer k" "ed_buffer (set_ed_word off w k) = ed_buffer k"
  "ed_buffer (set_shifted v k) = ed_buffer k"
  "ctrl (with_con c k) = ctrl k" "ctrl (with_mem m k) = ctrl k" "ctrl (with_term t k) = ctrl k"
  "shifted_ptr (with_con c k) = shifted_ptr k" "shifted_ptr (with_mem m k) = shifted_ptr k"
  "shifted_ptr (with_term t k) = shifted_ptr k" "shifted_ptr (poke a v k) = shifted_ptr k"
  "shifted_ptr (put x k) = shifted_ptr k" "shifted_ptr (set_ed_word off w k) = shifted_ptr k"
  "shifted_ptr (set_shifted v k) = shifted_ptr k"
  by (simp_all add: with_con_def with_mem_def with_term_def poke_def put_def set_ed_word_def set_shifted_def)

lemma set_ed_word_mem: "k_mem (set_ed_word off v k) = store32 (k_mem k) (ed_buffer k + off) v"
  by (simp add: set_ed_word_def)

lemma ed_word_same [simp]: "ed_word off (set_ed_word off v k) = v"
  by (simp add: ed_word_def set_ed_word_mem load32_store32)

lemma ed_word_other:
  assumes "i + 4 \<le> j \<or> j + 4 \<le> i" and "i + 4 \<le> 2 ^ 32" and "j + 4 \<le> 2 ^ 32"
  shows "ed_word (of_nat i) (set_ed_word (of_nat j) v k) = ed_word (of_nat i) k"
proof -
  have "rng_disj (ed_buffer k + of_nat i) 4 (ed_buffer k + of_nat j) 4"
    using assms rng_disj_offsets [of i 4 j 4 "ed_buffer k"] rng_disj_offsets [of j 4 i 4 "ed_buffer k"]
    by (auto intro: rng_disj_sym)
  then show ?thesis by (simp add: ed_word_def set_ed_word_mem load32_other rng_disj_sym)
qed

lemma ed_word_others [simp]:
  "cursor_x (set_position v k) = cursor_x k" "cursor_y (set_position v k) = cursor_y k"
  "position (set_cursor_x v k) = position k" "cursor_y (set_cursor_x v k) = cursor_y k"
  "position (set_cursor_y v k) = position k" "cursor_x (set_cursor_y v k) = cursor_x k"
  unfolding ed_offsets by (rule ed_word_other; simp)+

lemma ed_word_poke:
  assumes "\<not> in_rng (ed_buffer k + off) 4 a"
  shows "ed_word off (poke a v k) = ed_word off k"
  using assms by (simp add: ed_word_def) (rule load32_cong, auto)

lemma ed_word_put [simp]: "ed_word off (put c k) = ed_word off k"
  by (simp add: ed_word_def)

lemma ed_words_shifted [simp]:
  assumes "ed_apart k"
  shows "position (set_shifted v k) = position k" "cursor_x (set_shifted v k) = cursor_x k"
    "cursor_y (set_shifted v k) = cursor_y k"
proof -
  have "ed_word (of_nat i) (set_shifted v k) = ed_word (of_nat i) k" if "i + 4 \<le> 4109" for i
    unfolding set_shifted_def
    by (rule ed_word_poke) (use assms in_rng_shift [of "ed_buffer k" i 4 _ 4109] that in \<open>auto simp: ed_apart_def\<close>)
  from this [of 4096] this [of 4100] this [of 4104]
  show "position (set_shifted v k) = position k" "cursor_x (set_shifted v k) = cursor_x k"
    "cursor_y (set_shifted v k) = cursor_y k" by (simp_all add: ed_offsets)
qed

text \<open>A store inside the buffer leaves the four variables alone.\<close>

lemma ed_words_buffer:
  assumes "i < EDITOR_BUFFER_SIZE"
  shows "position (poke (ed_buffer k + i) v k) = position k" "cursor_x (poke (ed_buffer k + i) v k) = cursor_x k"
    "cursor_y (poke (ed_buffer k + i) v k) = cursor_y k"
proof -
  have u: "unat i < 4096" using assms by (simp add: EDITOR_BUFFER_SIZE_def word_less_nat_alt)
  have "ed_word (of_nat j) (poke (ed_buffer k + i) v k) = ed_word (of_nat j) k" if "4096 \<le> j" "j + 4 \<le> 4109" for j
  proof (rule ed_word_poke)
    have "rng_disj (ed_buffer k + of_nat (unat i)) 1 (ed_buffer k + of_nat j) 4"
      by (rule rng_disj_offsets) (use that u in simp_all)
    then show "\<not> in_rng (ed_buffer k + of_nat j) 4 (ed_buffer k + i)"
      using rng_disjD [of "ed_buffer k + i" 1 _ 4 "ed_buffer k + i"] in_rng_of_natI [of 0 1 "ed_buffer k + i"] by simp
  qed
  from this [of 4096] this [of 4100] this [of 4104]
  show "position (poke (ed_buffer k + i) v k) = position k" "cursor_x (poke (ed_buffer k + i) v k) = cursor_x k"
    "cursor_y (poke (ed_buffer k + i) v k) = cursor_y k" by (simp_all add: ed_offsets)
qed

text \<open>Backspace clears the byte and then asks whether it is a newline: it never is, so the cursor moves
  left, past the margin too, and never up.\<close>

lemma ed_backspace_moves:
  assumes "ed_apart k" and "position k \<noteq> 0" and "position k \<le> EDITOR_BUFFER_SIZE"
  shows "position (ed_backspace k) = position k - 1 \<and> cursor_x (ed_backspace k) = cursor_x k - 1 \<and>
    cursor_y (ed_backspace k) = cursor_y k"
proof -
  have i: "position k - 1 < EDITOR_BUFFER_SIZE" and p: "0 < position k"
    using assms(2,3) unat_gt_0 [of "position k"]
    by (simp_all add: word_gt_0 word_less_nat_alt word_le_nat_alt unat_minus_one)
  let ?k1 = "set_position (position k - 1) (set_shifted 0 k)"
  let ?k2 = "poke (ed_buffer k + (position k - 1)) 0 ?k1"
  have w: "position ?k2 = position k - 1" "cursor_x ?k2 = cursor_x k" "cursor_y ?k2 = cursor_y k"
    using ed_words_buffer [OF i, of ?k1] assms(1) by simp_all
  have "k_mem ?k2 (ed_buffer k + position ?k2) = 0" by (simp add: w)
  then have "ed_backspace k = put (ch CHR 0x08) (put (ch CHR '' '') (put (ch CHR 0x08) (set_cursor_x (cursor_x k - 1) ?k2)))"
    using p w assms(1) by (simp add: ed_backspace_def Let_def ch_def)
  then show ?thesis using w by simp
qed

lemma ed_enter_moves:
  assumes "ed_apart k" and "position k < EDITOR_BUFFER_SIZE"
  shows "position (ed_enter k) = position k + 1" "cursor_x (ed_enter k) = 0" "cursor_y (ed_enter k) = cursor_y k + 1"
    and "ed_apart (ed_enter k)"
proof -
  let ?k1 = "set_position (position k + 1) k"
  note w = ed_words_buffer [OF assms(2), of ?k1 "ch CHR 0x0A"]
  have "ed_apart (set_ed_word x y (set_ed_word x' y' (ed_store c k)))" for x y x' y' c
    using assms(1) by (simp add: ed_apart_def ed_store_def Let_def)
  then show "position (ed_enter k) = position k + 1" "cursor_x (ed_enter k) = 0" "cursor_y (ed_enter k) = cursor_y k + 1"
    using w by (simp_all add: ed_enter_def ed_store_def Let_def)
  show "ed_apart (ed_enter k)" using assms(1) by (simp add: ed_apart_def ed_enter_def ed_store_def Let_def)
qed

lemma enter_backspace:
  assumes "ed_apart k" and "position k < EDITOR_BUFFER_SIZE"
  shows "position (ed_backspace (ed_enter k)) = position k \<and> cursor_x (ed_backspace (ed_enter k)) = - 1 \<and>
    cursor_y (ed_backspace (ed_enter k)) = cursor_y k + 1"
proof -
  have "unat (position k + 1) = Suc (unat (position k))" by (rule unat_Suc_less [OF assms(2)])
  then have "position k + 1 \<noteq> 0" "position k + 1 \<le> EDITOR_BUFFER_SIZE"
    using assms(2) by (auto simp: word_le_nat_alt word_less_nat_alt)
  then show ?thesis
    using ed_backspace_moves [OF ed_enter_moves(4) [OF assms]] ed_enter_moves [OF assms] by simp
qed

text \<open>
  The editor's buffer refines the text being edited. \<open>ed_only k k'\<close>: \<open>k'\<close> is \<open>k\<close> with another screen and
  with new memory only in \<open>editor\<close> and where the uninitialised pointer points.
\<close>

definition ed_only :: "kernel \<Rightarrow> kernel \<Rightarrow> bool" where
  "ed_only k k' \<longleftrightarrow> (\<exists>t m. k' = with_term t (with_mem m k) \<and>
     (\<forall>a. \<not> in_rng (ed_buffer k) 4109 a \<and> a \<noteq> shifted_ptr k \<longrightarrow> m a = k_mem k a))"

lemma ed_only_refl [simp]: "ed_only k k"
  unfolding ed_only_def by (rule exI [of _ "k_term k"], rule exI [of _ "k_mem k"]) simp

lemma ed_only_trans: "ed_only k k1 \<Longrightarrow> ed_only k1 k2 \<Longrightarrow> ed_only k k2"
  unfolding ed_only_def by (elim exE conjE) (rule exI, rule exI, rule conjI, simp, simp)

lemma ed_only_frame: "ed_only k k' \<Longrightarrow> same_frame k k'"
  by (auto simp: ed_only_def)

lemma ed_only_sel:
  assumes "ed_only k k'"
  shows "ed_apart k' = ed_apart k" "ed_buffer k' = ed_buffer k" "shifted_ptr k' = shifted_ptr k" "ctrl k' = ctrl k"
    "\<not> in_rng (ed_buffer k) 4109 a \<Longrightarrow> a \<noteq> shifted_ptr k \<Longrightarrow> k_mem k' a = k_mem k a"
  using assms by (auto simp: ed_only_def ed_apart_def)

lemma ed_only_term: "ed_only k k1 \<Longrightarrow> ed_only k (with_term t k1)"
  unfolding ed_only_def by (elim exE conjE) (rule exI, rule exI, rule conjI, simp, simp)

lemma ed_only_put: "ed_only k k1 \<Longrightarrow> ed_only k (put c k1)"
  by (simp add: put_def ed_only_term)

lemma ed_only_mem:
  assumes "ed_only k k1" and "\<And>a. \<not> in_rng (ed_buffer k) 4109 a \<Longrightarrow> a \<noteq> shifted_ptr k \<Longrightarrow> m a = k_mem k1 a"
  shows "ed_only k (with_mem m k1)"
  using assms unfolding ed_only_def by (elim exE conjE) (rule exI, rule exI, rule conjI, simp, simp)

lemma ed_only_poke:
  assumes "ed_only k k1" and "i < 4109"
  shows "ed_only k (poke (ed_buffer k1 + of_nat i) v k1)"
  unfolding poke_def
  by (rule ed_only_mem [OF assms(1)]) (use in_rng_of_natI [OF assms(2)] ed_only_sel(2) [OF assms(1)] in auto)

lemma ed_only_shifted: "ed_only k k1 \<Longrightarrow> ed_only k (set_shifted v k1)"
  unfolding set_shifted_def poke_def by (rule ed_only_mem) (auto dest: ed_only_sel(3))

lemma ed_only_word:
  assumes "ed_only k k1" and "j + 4 \<le> 4109"
  shows "ed_only k (set_ed_word (of_nat j) v k1)"
  unfolding set_ed_word_def
proof (rule ed_only_mem [OF assms(1)])
  fix a assume "\<not> in_rng (ed_buffer k) 4109 a"
  then have "\<not> in_rng (ed_buffer k1 + of_nat j) 4 a"
    using in_rng_shift [of "ed_buffer k" j 4 a 4109] assms(2) ed_only_sel(2) [OF assms(1)] by auto
  then show "store32 (k_mem k1) (ed_buffer k1 + of_nat j) v a = k_mem k1 a" by (rule store32_outside)
qed

lemma ed_only_words:
  assumes "ed_only k k1"
  shows "ed_only k (set_position v k1)" "ed_only k (set_cursor_x v k1)" "ed_only k (set_cursor_y v k1)"
  using ed_only_word [OF assms, of 4096] ed_only_word [OF assms, of 4100] ed_only_word [OF assms, of 4104]
  by (simp_all add: ed_offsets)

text \<open>\<open>ed_rep k (t, sh)\<close>: the editor is active, its buffer holds \<open>t\<close>, zero bytes behind it, and \<open>sh\<close> tells
  a pending shift key.\<close>

definition ed_rep :: "kernel \<Rightarrow> u8 list \<times> bool \<Rightarrow> bool" where
  "ed_rep k ts \<longleftrightarrow> length (fst ts) < 4096 \<and> position k = of_nat (length (fst ts)) \<and>
     (\<forall>i < 4096. k_mem k (ed_buffer k + of_nat i) = (if i < length (fst ts) then fst ts ! i else 0)) \<and>
     is_shifted k = snd ts \<and> is_active k"

definition text_step :: "(bool \<Rightarrow> u8 \<Rightarrow> u8) \<Rightarrow> u8 \<Rightarrow> u8 list \<times> bool \<Rightarrow> u8 list \<times> bool" where
  "text_step lay key ts =
     (case ts of (t, sh) \<Rightarrow>
        if key = 0 then (t, sh)
        else if key = 6 \<or> key = 7 then (t, True)
        else if key = 4 then (t @ [ch CHR 0x0A], False)
        else if key = 2 then (butlast t, False)
        else if key < 128 then (t @ [lay sh key], False)
        else (t, sh))"

text \<open>The cells of the buffer, the flag and the position under the editor's operations.\<close>

lemma ed_cell_word:
  assumes "i < j \<or> j + 4 \<le> i" and "i \<le> 4108" and "j + 4 \<le> 4109"
  shows "k_mem (set_ed_word (of_nat j) v k) (ed_buffer k + of_nat i) = k_mem k (ed_buffer k + of_nat i)"
proof -
  have "rng_disj (ed_buffer k + of_nat i) 1 (ed_buffer k + of_nat j) 4"
    using rng_disj_offsets [of i 1 j 4 "ed_buffer k"] rng_disj_offsets [of j 4 i 1 "ed_buffer k"] assms
    by (auto intro: rng_disj_sym)
  then have "\<not> in_rng (ed_buffer k + of_nat j) 4 (ed_buffer k + of_nat i)"
    using rng_disjD [of "ed_buffer k + of_nat i" 1 _ 4 "ed_buffer k + of_nat i"]
      in_rng_of_natI [of 0 1 "ed_buffer k + of_nat i"] by simp
  then show ?thesis by (simp add: set_ed_word_mem store32_outside)
qed

lemma ed_cells [simp]:
  assumes "b = ed_buffer k" and "i < 4096"
  shows "k_mem (set_position v k) (b + of_nat i) = k_mem k (b + of_nat i)"
    "k_mem (set_cursor_x v k) (b + of_nat i) = k_mem k (b + of_nat i)"
    "k_mem (set_cursor_y v k) (b + of_nat i) = k_mem k (b + of_nat i)"
  using ed_cell_word [of i 4096] ed_cell_word [of i 4100] ed_cell_word [of i 4104] assms
  by (simp_all add: ed_offsets)

lemma active_ops [simp]:
  "is_active (set_position v k) = is_active k" "is_active (set_cursor_x v k) = is_active k"
  "is_active (set_cursor_y v k) = is_active k" "is_active (put c k) = is_active k" "is_active (with_term t k) = is_active k"
  using ed_cell_word [of 4108 4096] ed_cell_word [of 4108 4100] ed_cell_word [of 4108 4104]
  by (simp_all add: is_active_def ed_offsets)

lemma active_poke: "i < 4096 \<Longrightarrow> is_active (poke (ed_buffer k + of_nat i) v k) = is_active k"
  using of_nat_inj32 [of i 4108] by (simp add: is_active_def ed_offsets)

lemma active_shifted: "ed_apart k \<Longrightarrow> is_active (set_shifted v k) = is_active k"
  using in_rng_of_natI [of 4108 4109 "ed_buffer k"] by (auto simp: is_active_def set_shifted_def ed_offsets ed_apart_def)

lemma ed_cell_poke:
  assumes "i < 4096" and "j < 4096"
  shows "k_mem (poke (b + of_nat j) v k) (b + of_nat i) = (if i = j then v else k_mem k (b + of_nat i))"
  using of_nat_inj32 [of i j] assms by simp

lemma ed_cell_shifted:
  assumes "ed_apart k" and "i < 4096"
  shows "k_mem (set_shifted v k) (ed_buffer k + of_nat i) = k_mem k (ed_buffer k + of_nat i)"
  using assms in_rng_of_natI [of i 4109 "ed_buffer k"] by (auto simp: set_shifted_def ed_apart_def)

lemma shifted_word:
  assumes "ed_apart k" and "j + 4 \<le> 4109"
  shows "is_shifted (set_ed_word (of_nat j) v k) = is_shifted k"
proof -
  have "\<not> in_rng (ed_buffer k + of_nat j) 4 (shifted_ptr k)"
    using assms in_rng_shift [of "ed_buffer k" j 4 _ 4109] by (auto simp: ed_apart_def)
  then show ?thesis by (simp add: is_shifted_def set_ed_word_mem store32_outside)
qed

lemma shifted_ops [simp]:
  assumes "ed_apart k"
  shows "is_shifted (set_position v k) = is_shifted k" "is_shifted (set_cursor_x v k) = is_shifted k"
    "is_shifted (set_cursor_y v k) = is_shifted k"
  using shifted_word [OF assms, of 4096] shifted_word [OF assms, of 4100] shifted_word [OF assms, of 4104]
  by (simp_all add: ed_offsets)

lemma shifted_poke:
  "ed_apart k \<Longrightarrow> i < 4109 \<Longrightarrow> is_shifted (poke (ed_buffer k + of_nat i) v k) = is_shifted k"
  using in_rng_of_natI [of i 4109 "ed_buffer k"] by (auto simp: is_shifted_def ed_apart_def)

lemma shifted_set [simp]: "is_shifted (set_shifted v k) \<longleftrightarrow> v \<noteq> 0" "is_shifted (put c k) = is_shifted k"
  by (simp_all add: is_shifted_def set_shifted_def)

lemma redraw_returns:
  assumes "k_mem k a = 0"
  shows "\<exists>t. redraw k = Some (with_term t k)"
proof -
  obtain s where "cstr (k_mem k) (ed_buffer k) s" using cstr_exists [where m = "k_mem k", OF assms] by blast
  then show ?thesis using writestring_cstr(1) by (auto simp: redraw_def write_str_def)
qed

lemma ed_finish_refines:
  assumes "ed_rep k1 ts" and "ed_only k k1"
  shows "\<exists>k'. ed_finish c k1 = Some k' \<and> ed_rep k' ts \<and> ed_only k k'"
proof (cases "c = 2")
  case False
  have "k_mem k1 (ed_buffer k1 + of_nat (length (fst ts))) = 0" using assms(1) by (simp add: ed_rep_def)
  then obtain t where "redraw k1 = Some (with_term t k1)" using redraw_returns by blast
  moreover have "ed_rep (with_term t k1) ts"
    using assms(1) by (simp add: ed_rep_def ed_word_def is_shifted_def)
  ultimately show ?thesis using False ed_only_term [OF assms(2)] by (simp add: ed_finish_def)
qed (use assms in \<open>simp add: ed_finish_def\<close>)

lemma ed_store_rep:
  assumes "ed_rep k (t, sh)" and "ed_apart k" and "length t < 4095"
  shows "ed_rep (ed_store c k) (t @ [c], sh)" and "ed_only k (ed_store c k)"
proof -
  let ?n = "length t"
  have n: "?n < 4096" "position k = of_nat ?n" using assms(1) by (simp_all add: ed_rep_def)
  let ?k1 = "set_position (of_nat ?n + 1) k"
  have st: "ed_store c k = poke (ed_buffer ?k1 + of_nat ?n) c ?k1" by (simp add: ed_store_def n(2) Let_def)
  have lt: "of_nat ?n < EDITOR_BUFFER_SIZE" using n(1) by (simp add: EDITOR_BUFFER_SIZE_def word_less_nat_alt unat_of_nat32)
  have "position (ed_store c k) = of_nat (length (t @ [c]))"
    unfolding st using ed_words_buffer(1) [OF lt, of ?k1] by simp
  moreover have "k_mem (ed_store c k) (ed_buffer (ed_store c k) + of_nat i) = (if i < length (t @ [c]) then (t @ [c]) ! i else 0)"
    if "i < 4096" for i
    unfolding st using ed_cell_poke [OF that n(1), of "ed_buffer k" c ?k1] that assms(1)
    by (auto simp: ed_rep_def nth_append less_Suc_eq)
  moreover have "is_shifted (ed_store c k) = sh"
    unfolding st using shifted_poke [of ?k1 ?n c] assms(1,2) n(1) by (simp add: ed_apart_def) (simp add: ed_rep_def)
  moreover have "is_active (ed_store c k)"
    unfolding st using active_poke [OF n(1), of ?k1 c] assms(1) by (simp add: ed_rep_def)
  ultimately show "ed_rep (ed_store c k) (t @ [c], sh)" using assms(3) by (simp add: ed_rep_def)
  show "ed_only k (ed_store c k)"
    unfolding st by (rule ed_only_poke [OF ed_only_words(1) [OF ed_only_refl]]) (use n(1) in simp)
qed

lemma ed_rep_words:
  assumes "ed_rep k ts" and "ed_apart k"
  shows "ed_rep (set_cursor_x v k) ts" and "ed_rep (set_cursor_y v k) ts"
  using assms by (simp_all add: ed_rep_def)

lemma ed_rep_shifted:
  assumes "ed_rep k ts" and "ed_apart k"
  shows "ed_rep (set_shifted v k) (fst ts, v \<noteq> 0)"
  using assms by (simp add: ed_rep_def ed_cell_shifted active_shifted)

lemma ed_enter_rep:
  assumes "ed_rep k (t, sh)" and "ed_apart k" and "length t < 4095"
  shows "ed_rep (ed_enter k) (t @ [ch CHR 0x0A], False)" and "ed_only k (ed_enter k)"
proof -
  let ?k1 = "ed_store (ch CHR 0x0A) k"
  note s = ed_store_rep [OF assms, of "ch CHR 0x0A"]
  have a: "ed_only k (set_cursor_y v (set_cursor_x 0 ?k1))" for v by (intro ed_only_words s(2))
  have r: "ed_rep (set_cursor_y v (set_cursor_x 0 ?k1)) (t @ [ch CHR 0x0A], sh)" for v
    using s ed_only_sel(1) [OF s(2)] ed_only_sel(1) [OF ed_only_words(2) [OF s(2)]] assms(2)
    by (intro ed_rep_words) simp_all
  show "ed_rep (ed_enter k) (t @ [ch CHR 0x0A], False)"
    using ed_rep_shifted [OF r, of _ 0] ed_only_sel(1) [OF a] assms(2) by (simp add: ed_enter_def Let_def)
  show "ed_only k (ed_enter k)" using ed_only_shifted [OF a] by (simp add: ed_enter_def Let_def)
qed

lemma ed_char_rep:
  assumes "ed_rep k (t, sh)" and "ed_apart k" and "length t < 4095"
  shows "fst (ed_char key k) = layout_of k sh key"
    and "ed_rep (snd (ed_char key k)) (t @ [layout_of k sh key], False)" and "ed_only k (snd (ed_char key k))"
proof -
  have sh: "is_shifted k = sh" using assms(1) by (simp add: ed_rep_def)
  then show f: "fst (ed_char key k) = layout_of k sh key" by (simp add: ed_char_def layout_of_def Let_def)
  let ?c = "layout_of k sh key" and ?k0 = "set_shifted 0 k"
  have o: "ed_only k ?k0" by (rule ed_only_shifted) simp
  have r0: "ed_rep ?k0 (t, False)" "ed_apart ?k0"
    using ed_rep_shifted [OF assms(1,2), of 0] ed_only_sel(1) [OF o] assms(2) by simp_all
  note s = ed_store_rep [OF r0 assms(3), of ?c]
  have e: "snd (ed_char key k) = set_cursor_x (cursor_x (ed_store ?c ?k0) + 1) (ed_store ?c ?k0)"
    using sh by (simp add: ed_char_def layout_of_def Let_def)
  show "ed_rep (snd (ed_char key k)) (t @ [?c], False)"
    unfolding e using s ed_only_sel(1) [OF s(2)] r0(2) by (intro ed_rep_words) simp_all
  show "ed_only k (snd (ed_char key k))"
    unfolding e by (intro ed_only_words ed_only_trans [OF o s(2)])
qed

lemma ed_backspace_rep:
  assumes "ed_rep k (t, sh)" and "ed_apart k"
  shows "ed_rep (ed_backspace k) (butlast t, False)" and "ed_only k (ed_backspace k)"
proof -
  let ?k0 = "set_shifted 0 k"
  have o: "ed_only k ?k0" by (rule ed_only_shifted) simp
  have r0: "ed_rep ?k0 (t, False)" "ed_apart ?k0"
    using ed_rep_shifted [OF assms, of 0] ed_only_sel(1) [OF o] assms(2) by simp_all
  have n: "length t < 4096" "position ?k0 = of_nat (length t)" using r0(1) by (simp_all add: ed_rep_def)
  have "ed_rep (ed_backspace k) (butlast t, False) \<and> ed_only k (ed_backspace k)"
  proof (cases "t = []")
    case True
    then have "ed_backspace k = ?k0" using n(2) by (simp add: ed_backspace_def Let_def)
    then show ?thesis using r0(1) o True by simp
  next
    case False
    let ?n = "length t - 1"
    let ?k1 = "set_position (of_nat ?n) ?k0"
    let ?k2 = "poke (ed_buffer ?k1 + of_nat ?n) 0 ?k1"
    have n1: "(of_nat (length t) :: u32) - 1 = of_nat ?n" "(of_nat (length t) :: u32) > 0" "?n < 4096"
      using False n(1) of_nat_inj32 [of "length t" 0] by (auto simp: of_nat_diff Suc_leI word_gt_0)
    have lt: "of_nat ?n < EDITOR_BUFFER_SIZE" using n1(3) by (simp add: EDITOR_BUFFER_SIZE_def word_less_nat_alt unat_of_nat32)
    have p2: "position ?k2 = of_nat ?n" using ed_words_buffer(1) [OF lt, of ?k1] by simp
    have e: "ed_backspace k = put (ch CHR 0x08) (put (ch CHR '' '') (put (ch CHR 0x08) (set_cursor_x (cursor_x ?k2 - 1) ?k2)))"
      using n(2) n1 p2 by (simp add: ed_backspace_def Let_def ch_def)
    have o2: "ed_only k ?k2" by (intro ed_only_poke ed_only_words o) (use n1(3) in simp)
    have "k_mem ?k2 (ed_buffer ?k2 + of_nat i) = (if i < length (butlast t) then butlast t ! i else 0)" if "i < 4096" for i
      using ed_cell_poke [OF that n1(3), of "ed_buffer k" 0 ?k1] r0(1) that by (simp add: ed_rep_def nth_butlast) (auto simp: nth_butlast)
    moreover have "\<not> is_shifted ?k2" using shifted_poke [of ?k1 ?n 0] r0 n1(3) by (simp add: ed_apart_def) 
    moreover have "is_active ?k2" using active_poke [OF n1(3), of ?k1 0] r0(1) by (simp add: ed_rep_def)
    ultimately have "ed_rep ?k2 (butlast t, False)" using n(1) p2 by (simp add: ed_rep_def)
    then have "ed_rep (set_cursor_x (cursor_x ?k2 - 1) ?k2) (butlast t, False)"
      using ed_only_sel(1) [OF o2] assms(2) by (intro ed_rep_words) simp_all
    then have "ed_rep (ed_backspace k) (butlast t, False)" unfolding e by (simp add: ed_rep_def)
    then show ?thesis unfolding e by (intro conjI ed_only_put ed_only_words o2) (simp add: e)
  qed
  then show "ed_rep (ed_backspace k) (butlast t, False)" and "ed_only k (ed_backspace k)" by simp_all
qed

text \<open>Every key but LCtrl, handled while no LCtrl is pending.\<close>

lemma editor_key_refines:
  assumes rep: "ed_rep k (t, sh)" and a: "ed_apart k" and c: "\<not> ctrl k" "key \<noteq> 5" and room: "length t < 4095"
  shows "\<exists>k'. editor_key key k = Some k' \<and> ed_rep k' (text_step (layout_of k) key (t, sh)) \<and> ed_only k k'"
proof -
  consider "key = 0" | "key = 6 \<or> key = 7" | "key = 4" | "key = 2" | "key < 128" "key \<notin> {0, 2, 4, 6, 7}"
    | "\<not> key < 128" "key \<notin> {0, 2, 4, 6, 7}" by auto
  then show ?thesis
  proof cases
    case 1
    then show ?thesis using rep by (simp add: editor_key_def text_step_def)
  next
    case 2
    have k1: "(set_shifted 1 k)\<lparr>ctrl := False\<rparr> = set_shifted 1 k"
      using c(1) by (simp add: set_shifted_def poke_def with_mem_def with_con_def)
    have "ed_rep (set_shifted 1 k) (t, True)" using ed_rep_shifted [OF rep a, of 1] by simp
    from ed_finish_refines [OF this ed_only_shifted [OF ed_only_refl]] show ?thesis
      using 2 k1 by (auto simp: editor_key_def text_step_def)
  next
    case 3
    from ed_finish_refines [OF ed_enter_rep [OF rep a room]] show ?thesis
      using 3 c by (auto simp: editor_key_def text_step_def)
  next
    case 4
    then show ?thesis using c ed_backspace_rep [OF rep a] by (simp add: editor_key_def text_step_def)
  next
    case 5
    have "\<exists>k'. ed_finish (fst (ed_char key k)) (snd (ed_char key k)) = Some k' \<and>
        ed_rep k' (t @ [layout_of k sh key], False) \<and> ed_only k k'"
      by (rule ed_finish_refines [OF ed_char_rep(2,3) [OF rep a room]])
    then show ?thesis using 5 c by (auto simp: editor_key_def text_step_def split: prod.split)
  next
    case 6
    from ed_finish_refines [OF rep ed_only_refl] show ?thesis
      using 6 c by (auto simp: editor_key_def text_step_def)
  qed
qed

section \<open>Listing the disks\<close>

text \<open>The port structure is fresh heap memory, never the device: while the heap is zero, no device is one.\<close>

lemma check_type_zero:
  assumes "\<forall>a. in_rng p 128 a \<longrightarrow> m a = 0"
  shows "check_type_ram m p = 0"
proof -
  have "load32 m (p + off_ssts) = 0"
  proof -
    have "m (p + 0x28 + of_nat j) = 0" if "j < 4" for j
      using assms in_rng_of_natI [of "0x28 + j" 128 p] that by (simp add: add.assoc)
    from this [of 0] this [of 1] this [of 2] this [of 3] show ?thesis
      by (simp add: load32_def port_offsets add.assoc)
  qed
  then show ?thesis by (simp add: check_type_ram_def check_type_def reg_read_def Let_def)
qed

lemma mmap_block:
  assumes "heap_ok hp" and "next_mapping hp < MAX_MAPPINGS" and "unat (heap_index hp) + 128 \<le> unat HEAP_SIZE"
    and "unat (heap hp) + unat HEAP_SIZE < 2 ^ 32"
  obtains hp' where "mmap a HBA_PORT_SIZE pr fl fd off hp = (heap hp + heap_index hp, hp')"
    and "heap hp' = heap hp" and "heap_index hp' = heap_index hp + 128" and "next_mapping hp' = next_mapping hp + 1"
    and "\<And>x. in_rng (heap hp + heap_index hp) 128 x \<Longrightarrow> in_rng (heap hp) (unat HEAP_SIZE) x"
proof -
  have room: "unat (heap_index hp) + unat HBA_PORT_SIZE \<le> unat HEAP_SIZE" using assms(3) by (simp add: port_size)
  note b = malloc_block [OF assms(1,4) room]
  have u: "unat (heap hp + heap_index hp) = unat (heap hp) + unat (heap_index hp)"
    using assms(3,4) by (simp add: unat_word_ariths)
  have "in_rng (heap hp) (unat HEAP_SIZE) x" if "in_rng (heap hp + heap_index hp) 128 x" for x
    using that u assms(3,4) by (simp add: in_rng_unat)
  moreover have "\<not> MAX_MAPPINGS \<le> next_mapping hp" using assms(2) by (simp add: not_le)
  then obtain hp' where "mmap a HBA_PORT_SIZE pr fl fd off hp = (heap hp + heap_index hp, hp')"
    "heap hp' = heap hp" "heap_index hp' = heap_index hp + 128" "next_mapping hp' = next_mapping hp + 1"
    using b(1,2) by (simp add: mmap_def port_size)
  ultimately show ?thesis using that by blast
qed

definition k_heap :: "kernel \<Rightarrow> heap_state" where
  "k_heap k = ms_heap (k_msh k)"

text \<open>Room for \<open>n\<close> more port structures, in the unused part of the heap, which is zero.\<close>

definition heap_rest :: "kernel \<Rightarrow> u32 \<Rightarrow> bool" where
  "heap_rest k a \<longleftrightarrow> in_rng (heap (k_heap k) + heap_index (k_heap k)) (unat HEAP_SIZE - unat (heap_index (k_heap k))) a"

definition zero_heap :: "nat \<Rightarrow> kernel \<Rightarrow> bool" where
  "zero_heap n k \<longleftrightarrow> heap_ok (k_heap k) \<and> unat (heap (k_heap k)) + unat HEAP_SIZE < 2 ^ 32 \<and>
     unat (heap_index (k_heap k)) + 128 * n \<le> unat HEAP_SIZE \<and>
     unat (next_mapping (k_heap k)) + n \<le> unat MAX_MAPPINGS \<and>
     (\<forall>a. heap_rest k a \<longrightarrow> k_mem k a = 0)"

lemma heap_rest_step:
  assumes "heap hp' = heap hp" and "heap_index hp' = heap_index hp + n"
    and "unat (heap_index hp) + unat n \<le> unat HEAP_SIZE"
    and "in_rng (heap hp' + heap_index hp') (unat HEAP_SIZE - unat (heap_index hp')) a"
  shows "in_rng (heap hp + heap_index hp) (unat HEAP_SIZE - unat (heap_index hp)) a"
proof -
  have "unat (heap_index hp') = unat (heap_index hp) + unat n"
    using assms(2,3) by (simp add: unat_word_ariths)
  moreover have "heap hp' + heap_index hp' = heap hp + heap_index hp + of_nat (unat n)"
    using assms(1,2) by simp
  ultimately show ?thesis
    using in_rng_shift [of "heap hp + heap_index hp" "unat n"] assms(3,4) by simp
qed

lemma is_ahci_zero:
  assumes "zero_heap (Suc n) k"
  shows "\<exists>k'. is_ahci p k = (False, k') \<and> zero_heap n k'"
proof -
  let ?hp = "k_heap k" and ?d = "device_at (k_mem k) p"
  have z: "heap_ok ?hp" "unat (heap ?hp) + unat HEAP_SIZE < 2 ^ 32" "unat (heap_index ?hp) + 128 * Suc n \<le> unat HEAP_SIZE"
    "unat (next_mapping ?hp) + Suc n \<le> unat MAX_MAPPINGS" "\<forall>a. heap_rest k a \<longrightarrow> k_mem k a = 0"
    using assms by (simp_all add: zero_heap_def)
  obtain v h where v: "pci_read_config_space (ucast (ucast (pd_bus ?d) :: u32)) (ucast (ucast (pd_device ?d) :: u32))
      (ucast (ucast (pd_function ?d) :: u32)) 0x10 (kb_hw (ms_kb (k_msh k))) = (v, h)" by fastforce
  have lt: "next_mapping ?hp < MAX_MAPPINGS" "unat (heap_index ?hp) + 128 \<le> unat HEAP_SIZE"
    using z(3,4) by (simp_all add: word_less_nat_alt)
  obtain hp' where m: "mmap NULL HBA_PORT_SIZE 3 1 (- 1) (load32 (k_mem k) v) ?hp = (heap ?hp + heap_index ?hp, hp')"
    "heap hp' = heap ?hp" "heap_index hp' = heap_index ?hp + 128" "next_mapping hp' = next_mapping ?hp + 1"
    using mmap_block [OF z(1) lt z(2)] by metis
  let ?k' = "k\<lparr>k_msh := (k_msh k)\<lparr>ms_kb := (ms_kb (k_msh k))\<lparr>kb_hw := h\<rparr>, ms_heap := hp'\<rparr>\<rparr>"
  have mem: "k_mem ?k' = k_mem k" "k_heap ?k' = hp'" by (simp_all add: k_mem_def k_con_def k_heap_def)
  have "heap_rest k x" if "in_rng (heap ?hp + heap_index ?hp) 128 x" for x
    unfolding heap_rest_def by (rule in_rng_mono [OF that]) (use lt(2) in simp)
  then have "check_type_ram (k_mem k) (heap ?hp + heap_index ?hp) = 0"
    by (intro check_type_zero) (use z(5) in blast)
  then have r: "is_ahci p k = (False, ?k')"
    using v m(1) mem(1) by (simp add: is_ahci_def get_hba_port_def Let_def k_heap_def)
  have u: "unat (heap_index hp') = unat (heap_index ?hp) + 128" "unat (next_mapping hp') = Suc (unat (next_mapping ?hp))"
    using m(3,4) z(3,4) lt unat_Suc_less [OF lt(1)] by (simp_all add: unat_word_ariths)
  have "heap_ok hp'"
    using z(1,3) m(2,3) u(1) by (simp add: heap_ok_def word_le_nat_alt)
  moreover have "heap_rest k a" if "heap_rest ?k' a" for a
    using that heap_rest_step [OF m(2,3)] lt(2) unfolding heap_rest_def mem(2) by simp
  ultimately show ?thesis using z m(2) mem u r by (simp add: zero_heap_def)
qed

lemma count_ahci_zero: "zero_heap n k \<Longrightarrow> fst (count_ahci n i l c k) = c"
proof (induction n arbitrary: i k)
  case (Suc n)
  obtain k' where "is_ahci (entry_ptr l i) k = (False, k')" "zero_heap n k'" using is_ahci_zero [OF Suc.prems] by blast
  then show ?case using Suc.IH by simp
qed simp

text \<open>The command as a whole, up to the count: the enumeration takes its block from the heap and fills it,
  prints, and leaves the rest of the heap as it was.\<close>

definition printk_apart :: "kernel \<Rightarrow> bool" where
  "printk_apart k \<longleftrightarrow> rng_disj (heap (k_heap k)) (unat HEAP_SIZE) (con_buf (k_con k)) 256 \<and>
     rng_disj (heap (k_heap k)) (unat HEAP_SIZE) (con_num (k_con k)) 12"

lemma lsdisks_counts_none:
  assumes ok: "con_ok (k_con k)" "pci_bus cfg (kb_hw (ms_kb (k_msh k)))" "present cfg \<noteq> {}"
    and heap: "heap_ok (k_heap k)" "unat (heap (k_heap k)) + unat HEAP_SIZE < 2 ^ 32"
    and room: "unat (heap_index (k_heap k)) + 1536 + 128 * 128 \<le> unat HEAP_SIZE"
      "unat (next_mapping (k_heap k)) + 128 \<le> unat MAX_MAPPINGS"
    and zero: "\<forall>a. heap_rest k a \<longrightarrow> k_mem k a = 0" and apart: "printk_apart k"
  shows "\<exists>l k2. list_disks k = Some (l, k2) \<and> pl_length l = 128 \<and>
    (\<forall>i < 128. entry_ok cfg (device_at (k_mem k2) (entry_ptr (pl_ptr l) i))) \<and>
    fst (count_ahci (pl_length l) 0 (pl_ptr l) 0 k2) = 0"
proof -
  let ?hp = "k_heap k" and ?c = "k_con k"
  define p where "p = heap ?hp + heap_index ?hp"
  define hp1 where "hp1 = ?hp\<lparr>heap_index := heap_index ?hp + 1536\<rparr>"
  have m: "malloc (128 * 12) ?hp = (p, hp1)" and p: "p \<noteq> NULL"
    using malloc_block(1,2) [OF heap, of 1536] room(1) by (simp_all add: p_def hp1_def)
  have blk: "in_rng (heap ?hp) (unat HEAP_SIZE) a" if "in_rng p 1536 a" for a
    using in_rng_shift [of "heap ?hp" "unat (heap_index ?hp)" 1536 a "unat HEAP_SIZE"] that room(1) by (simp add: p_def)
  have arr: "array_apart p ?c"
    using apart blk by (auto simp: array_apart_def printk_apart_def rng_disj_def)
  obtain h1 c1 where e: "pci_enumerate_devices (kb_hw (ms_kb (k_msh k))) ?c ?hp =
      Some (\<lparr>pl_ptr = p, pl_length = 128\<rparr>, h1, c1, hp1)"
    and ent: "\<forall>i < 128. entry_ok cfg (device_at (con_mem c1) (entry_ptr p i))"
    and c1: "con_ok c1" "pci_frame p ?c c1"
    using pci_enumerate_full [OF ok(1,2) m p ok(3)] arr by blast
  let ?k1 = "with_con c1 (k\<lparr>k_msh := (k_msh k)\<lparr>ms_heap := hp1, ms_kb := (ms_kb (k_msh k))\<lparr>kb_hw := h1\<rparr>\<rparr>\<rparr>)"
  have "message (''Gotten disk list, checking type.'' @ [CHR 0x0A])" by (simp add: message_def ch_def)
  from kprint_message [OF c1(1) this] obtain c2 where
    c2: "kprint (''Gotten disk list, checking type.'' @ [CHR 0x0A]) [] c1 = Some c2"
    and pr: "printed c1 (lit (''Gotten disk list, checking type.'' @ [CHR 0x0A])) c2" by blast
  let ?k2 = "with_con c2 ?k1"
  have l: "list_disks k = Some (\<lparr>pl_ptr = p, pl_length = 128\<rparr>, ?k2)"
    using e c2 by (simp add: list_disks_def print_lit_def k_heap_def Let_def del: append_Cons append_Nil)
  have mem: "k_mem ?k2 = con_mem c2" and hp2: "k_heap ?k2 = hp1"
    by (simp_all only: with_con_sel) (simp add: k_heap_def with_con_def set_con_def)
  have ent2: "entry_ok cfg (device_at (k_mem ?k2) (entry_ptr p i))" if "i < 128" for i
    using entries_printed [OF pr c1(2) arr that] ent that by (simp add: mem)
  have u: "unat (heap_index hp1) = unat (heap_index ?hp) + 1536"
    using room(1) by (simp add: hp1_def unat_word_ariths)
  have rest: "k_mem ?k2 a = 0" if a: "heap_rest ?k2 a" for a
  proof -
    have a1: "in_rng (p + of_nat 1536) (unat HEAP_SIZE - unat (heap_index hp1)) a"
      using a by (simp add: heap_rest_def hp2) (simp add: hp1_def p_def add.assoc)
    have "rng_disj (p + of_nat 0) 1536 (p + of_nat 1536) (unat HEAP_SIZE - unat (heap_index hp1))"
      by (rule rng_disj_offsets) simp_all
    then have out: "\<not> in_rng p 1536 a" using a1 by (auto dest: rng_disjD2)
    have r: "heap_rest k a"
      using heap_rest_step [of hp1 ?hp 1536 a] a room(1) unfolding heap_rest_def hp2 by (simp add: hp1_def)
    then have "in_rng (heap ?hp) (unat HEAP_SIZE) a"
      using in_rng_shift [of "heap ?hp" "unat (heap_index ?hp)" _ a "unat HEAP_SIZE"] heap(1)
      by (simp add: heap_rest_def heap_ok_def word_le_nat_alt)
    then have "\<not> in_rng (con_buf ?c) 256 a" "\<not> in_rng (con_num ?c) 12 a"
      using apart by (auto simp: printk_apart_def dest: rng_disjD)
    then have "con_mem c2 a = k_mem k a"
      using out c1(2) pr by (simp add: pci_frame_def printed_def k_mem_def)
    then show ?thesis using zero r mem by simp
  qed
  have "heap_ok hp1" using heap(1) u room(1) by (simp add: heap_ok_def hp1_def word_le_nat_alt)
  then have "zero_heap 128 ?k2"
    using heap(2) u room rest by (simp add: zero_heap_def hp2) (simp add: hp1_def)
  then show ?thesis using l ent2 count_ahci_zero by (intro exI [of _ "\<lparr>pl_ptr = p, pl_length = 128\<rparr>"] exI [of _ ?k2]) simp
qed

end
