(* ===== verification/Session.thy ===== *)
theory Session
  imports Editor
begin

text \<open>
  Sessions: the turns of the prompt within the bounds of its buffers, what they keep, and keyboards that
  type a given text, on which sessions can be run.
\<close>

section \<open>Sessions\<close>

text \<open>
  Sessions within the bounds of the buffers. \<open>prompt_line k k3\<close>: the prompt is shown in \<open>k\<close>, a line is
  typed that never holds 256 characters, and Enter leaves \<open>k3\<close>. \<open>editing k ks k'\<close>: the keys \<open>ks\<close>, read and
  handled by the editor's loop, lead from \<open>k\<close> to \<open>k'\<close>. \<open>session k cs k'\<close>: the commands \<open>cs\<close> later, each of
  at most ten words, the prompt is back in \<open>k'\<close>, and the editor never had 4096 characters in its buffer.
\<close>

inductive prompt_line :: "kernel \<Rightarrow> kernel \<Rightarrow> bool" where
  prompt_line_intro: "prompt_line k1 k3"
    if "write_lit ([CHR 0x0A] @ ''>>> '') k1 = Some k2" and "typing k2 0 ks i kt"
      and "line_fits (layout_of k2) ks ([], k_mem k2 NULL \<noteq> 0)"
      and "read_key kt = Some (4, ke)" and "terminal_key (command kt) i NULL 4 ke = (1, j, k3)"

inductive editing :: "kernel \<Rightarrow> u8 list \<Rightarrow> kernel \<Rightarrow> bool" where
  editing_Nil: "editing k [] k"
| editing_Cons: "editing k (key # ks) k2"
    if "is_active k" and "read_key k = Some (key, k0)" and "editor_key key k0 = Some k1" and "editing k1 ks k2"

definition edit_fits :: "kernel \<Rightarrow> bool" where
  "edit_fits k \<longleftrightarrow> (\<forall>k1 ks k2. start_editor k = Some k1 \<and> editing k1 ks k2 \<and> is_active k2 \<longrightarrow>
     position k2 < EDITOR_BUFFER_SIZE)"

definition command_of :: "s32 \<Rightarrow> kernel \<Rightarrow> cmd option" where
  "command_of n k = (if n = 0 then None else find_cmd k (arg_at k 0) command_names)"

inductive session :: "kernel \<Rightarrow> cmd option list \<Rightarrow> kernel \<Rightarrow> bool" where
  session_Nil: "session k [] k"
| session_Cons: "session k (command_of n ka # cs) k'"
    if "prompt_line k k3" and "split_line k3 = Some (n, ka)" and "n \<le> 10"
      and "command_of n ka = Some Edit \<Longrightarrow> edit_fits ka"
      and "dispatch k3 = Some (False, k4)" and "session k4 cs k'"

lemma prompt_line_input:
  assumes "prompt_line k1 k3"
  obtains k2 where "write_lit ([CHR 0x0A] @ ''>>> '') k1 = Some k2" and "input_loop 0 k2 = Some k3"
  using assms by (cases rule: prompt_line.cases) (blast intro: input_loop_typing)

text \<open>These are turns of the code's loop: a session puts off the result of \<open>prompt_loop\<close> without changing it.\<close>

lemma session_prompt_loop: "session k cs k' \<Longrightarrow> prompt_loop k = prompt_loop k'"
proof (induction rule: session.induct)
  case (session_Cons k k3 n ka k4 cs k')
  obtain k2 where "write_lit ([CHR 0x0A] @ ''>>> '') k = Some k2" "input_loop 0 k2 = Some k3"
    by (rule prompt_line_input [OF session_Cons.hyps(1)])
  then have "prompt_loop k = prompt_loop k4"
    using session_Cons.hyps by (subst prompt_loop.simps) (simp del: append_Cons append_Nil)
  then show ?case using session_Cons.IH by simp
qed simp

lemma session_pos: "session k cs k' \<Longrightarrow> same_pos k k'"
proof (induction rule: session.induct)
  case (session_Cons k k3 n ka k4 cs k')
  obtain k2 where "write_lit ([CHR 0x0A] @ ''>>> '') k = Some k2" "input_loop 0 k2 = Some k3"
    by (rule prompt_line_input [OF session_Cons.hyps(1)])
  then have "same_pos k k3" using input_loop_pos pos_dests(1) by metis
  then show ?case using dispatch_pos [OF session_Cons.hyps(5)] session_Cons.IH by simp
qed simp

text \<open>The turn before a session goes on.\<close>

lemma editing_cases:
  assumes "editing k ks k'"
  shows "k' = k \<or> (\<exists>key k0 k1 ks'. is_active k \<and> read_key k = Some (key, k0) \<and> editor_key key k0 = Some k1 \<and> editing k1 ks' k')"
  using assms by (cases rule: editing.cases) auto

text \<open>In a layout without keys no line has a word, and no command is ever looked up.\<close>

lemma stuck_line:
  assumes "stuck k1" and k2: "write_lit ([CHR 0x0A] @ ''>>> '') k1 = Some k2" and k3: "input_loop 0 k2 = Some k3"
  shows "stuck k3" and "same_frame k1 k3" and "k_mem k3 (command k3) = 0"
proof -
  have "ascii_keys k2" using k2 assms(1) by (auto simp: write_lit_def stuck_def dest!: bind_SomeD)
  then have "stuck k2" by (rule stuck_frame [OF write_frame(1) [OF k2] _ assms(1)])
  from stuck_input [OF k3 this] show "stuck k3" "same_frame k1 k3" "k_mem k3 (command k3) = 0"
    using same_frame_trans [OF write_frame(1) [OF k2]] by auto
qed

lemma stuck_session:
  "session k cs k' \<Longrightarrow> stuck k \<Longrightarrow> stuck k' \<and> current_layout k' = current_layout k \<and> set cs \<subseteq> {None}"
proof (induction rule: session.induct)
  case (session_Cons k k3 n ka k4 cs k')
  obtain k2 where k2: "write_lit ([CHR 0x0A] @ ''>>> '') k = Some k2" "input_loop 0 k2 = Some k3"
    by (rule prompt_line_input [OF session_Cons.hyps(1)])
  note k3 = stuck_line [OF session_Cons.prems k2]
  obtain kb where kb: "split_line k3 = Some (0, kb)" "dispatch k3 = Some (False, kb)" "stuck kb"
      "current_layout kb = current_layout k3"
    using stuck_dispatch [OF k3(1,3)] by blast
  then have "k4 = kb" "n = 0" using session_Cons.hyps(2,5) by simp_all
  then show ?case using session_Cons.IH kb k3(2) by (simp add: same_frame_sel command_of_def)
qed simp

section \<open>Editing\<close>

text \<open>The keys of an editing session without LCtrl change the text as \<open>text_step\<close> says, and the next key
  can be handled too.\<close>

lemma ed_hw [simp]:
  "ed_rep (with_hw h k) ts = ed_rep k ts" "ed_apart (with_hw h k) = ed_apart k" "ctrl (with_hw h k) = ctrl k"
  "layout_of (with_hw h k) = layout_of k" "ed_buffer (with_hw h k) = ed_buffer k" "shifted_ptr (with_hw h k) = shifted_ptr k"
proof -
  have f: "same_frame k (with_hw h k)" by (auto simp: same_frame_def with_hw_def)
  then show "layout_of (with_hw h k) = layout_of k" by (rule layout_frame)
  show "ed_buffer (with_hw h k) = ed_buffer k" "shifted_ptr (with_hw h k) = shifted_ptr k" "ctrl (with_hw h k) = ctrl k"
    using f by (simp_all add: same_frame_sel)
  then show "ed_rep (with_hw h k) ts = ed_rep k ts" "ed_apart (with_hw h k) = ed_apart k"
    by (simp_all add: ed_rep_def ed_apart_def ed_word_def is_shifted_def is_active_def)
qed

lemma ed_only_usb: "ed_only k k' \<Longrightarrow> no_usb k' = no_usb k"
  by (auto simp: ed_only_def)

lemma text_step_length: "length (fst (text_step lay key ts)) \<le> length (fst ts) + 1"
  by (auto simp: text_step_def split: prod.splits)

lemma editing_refines:
  assumes "editing k ks k'" and "ed_rep k ts" and "ed_apart k" and "\<not> ctrl k" and "no_usb k" and "5 \<notin> set ks"
    and "length (fst ts) + length ks < 4096"
  shows "ed_rep k' (fold (text_step (layout_of k)) ks ts) \<and> same_frame k k' \<and>
    (\<forall>a. \<not> in_rng (ed_buffer k) 4109 a \<and> a \<noteq> shifted_ptr k \<longrightarrow> k_mem k' a = k_mem k a)"
  using assms
proof (induction arbitrary: ts rule: editing.induct)
  case (editing_Cons k key k0 k1 ks k2)
  obtain h where k0: "k0 = with_hw h k"
    using read_key_ps2 [OF editing_Cons.prems(4)] editing_Cons.hyps(2) by (metis Pair_inject option.inject)
  have "ed_rep k0 (fst ts, snd ts)" "ed_apart k0" "\<not> ctrl k0" "key \<noteq> 5" "length (fst ts) < 4095"
    using k0 editing_Cons.prems by auto
  from editor_key_refines [OF this] editing_Cons.hyps(3)
  have s: "ed_rep k1 (text_step (layout_of k) key ts)" "ed_only k0 k1" using k0 by auto
  note o = ed_only_sel [OF s(2)] and f = ed_only_frame [OF s(2)]
  have f1: "same_frame k k1" using f k0 same_frame_trans [of k k0 k1] by (auto simp: same_frame_def with_hw_def)
  have lay: "layout_of k1 = layout_of k" using f1 by (rule layout_frame)
  have "ed_rep k2 (fold (text_step (layout_of k1)) ks (text_step (layout_of k) key ts)) \<and> same_frame k1 k2 \<and>
    (\<forall>a. \<not> in_rng (ed_buffer k1) 4109 a \<and> a \<noteq> shifted_ptr k1 \<longrightarrow> k_mem k2 a = k_mem k1 a)"
    by (rule editing_Cons.IH [OF s(1)])
       (use o(1,4) k0 editing_Cons.prems ed_only_usb [OF s(2)] text_step_length [of "layout_of k" key ts] in auto)
  then show ?case using lay f1 same_frame_trans o(2,3,5) k0 by auto
qed simp

lemma editor_returns:
  assumes "ed_rep k ts" and "ed_apart k" and "\<not> ctrl k" and "no_usb k" and "length (fst ts) < 4095"
    and "\<And>h k1. read_key k \<noteq> Some (5, k1)"
  shows "\<exists>k'. editor_handle_input k = Some k'"
proof -
  obtain key h where r: "read_key k = Some (key, with_hw h k)" using read_key_ps2 [OF assms(4)] by blast
  then have "key \<noteq> 5" using assms(6) by auto
  from editor_key_refines [of "with_hw h k" "fst ts" "snd ts" key] this assms(1-3,5)
  show ?thesis using r by (auto simp: editor_handle_input_def)
qed

section \<open>Keyboards that type\<close>

text \<open>A controller that always has a byte ready and delivers the bytes of \<open>codes\<close> in turn, then zeros.\<close>

fun data_reads :: "io list \<Rightarrow> nat" where
  "data_reads [] = 0"
| "data_reads (InB p v # tr) = (if p = 0x60 then Suc (data_reads tr) else data_reads tr)"
| "data_reads (_ # tr) = data_reads tr"

definition typed_ports :: "u8 list \<Rightarrow> io list \<Rightarrow> u16 \<Rightarrow> u32" where
  "typed_ports codes tr p =
     (if p = 0x60 then (if data_reads tr < length codes then ucast (codes ! data_reads tr) else 0) else 1)"

text \<open>\<open>will_type codes k\<close>: the next reads of the keyboard deliver \<open>codes\<close>.\<close>

definition will_type :: "u8 list \<Rightarrow> kernel \<Rightarrow> bool" where
  "will_type codes k \<longleftrightarrow> no_usb k \<and>
     (\<exists>cs. dev_port (kb_hw (ms_kb (k_msh k))) = typed_ports cs \<and>
       drop (data_reads (trace (kb_hw (ms_kb (k_msh k))))) cs = codes)"

lemma kb_hw_ops [simp]:
  "kb_hw (ms_kb (k_msh (with_con c k))) = kb_hw (ms_kb (k_msh k))"
  "kb_hw (ms_kb (k_msh (with_mem m k))) = kb_hw (ms_kb (k_msh k))"
  "kb_hw (ms_kb (k_msh (with_term t k))) = kb_hw (ms_kb (k_msh k))"
  by (simp_all add: with_con_def with_mem_def with_term_def set_con_def)

lemma will_type_ops [simp]:
  "will_type cs (with_con c k) = will_type cs k" "will_type cs (with_mem m k) = will_type cs k"
  "will_type cs (with_term t k) = will_type cs k" "will_type cs (poke a v k) = will_type cs k"
  "will_type cs (put x k) = will_type cs k" "will_type cs (k\<lparr>k_token := tk\<rparr>) = will_type cs k"
  "will_type cs (k\<lparr>ctrl := b\<rparr>) = will_type cs k" "will_type cs (set_shifted y k) = will_type cs k"
  "will_type cs (set_active b k) = will_type cs k"
  by (simp_all add: will_type_def poke_def put_def set_shifted_def set_active_def)
     (simp_all add: no_usb_def)

lemma read_typed:
  assumes "will_type (c # cs) k"
  obtains h where "read_key k = Some (scancode_to_ascii (past_scancodes (ms_kb (k_msh k))) c, with_hw h k)"
    and "will_type cs (with_hw h k)"
proof -
  let ?kb = "ms_kb (k_msh k)" and ?h = "kb_hw (ms_kb (k_msh k))"
  obtain all where w: "no_usb k" "dev_port ?h = typed_ports all" "drop (data_reads (trace ?h)) all = c # cs"
    using assms by (auto simp: will_type_def)
  then have n: "data_reads (trace ?h) < length all" "all ! data_reads (trace ?h) = c"
      "drop (Suc (data_reads (trace ?h))) all = cs"
    by (metis drop_all list.distinct(1) not_le, metis hd_drop_conv_nth drop_all list.distinct(1) list.sel(1) not_le,
        metis drop_Suc list.sel(3) tl_drop)
  have wait: "ps2_keyboard_wait_for_input ?h = (True, ?h\<lparr>trace := InB 0x64 1 # trace ?h\<rparr>)"
    using w(2) by (simp add: ps2_keyboard_wait_for_input_def ps2_wait_loop.simps inb_def emit_def Let_def typed_ports_def
        PS2_STATUS_PORT_def PS2_STATUS_OUTPUT_FULL_def)
  let ?h2 = "?h\<lparr>trace := InB 0x60 c # InB 0x64 1 # trace ?h\<rparr>"
  have "ucast (ucast c :: u32) = c" by (rule bit_word_eqI) (auto simp: bit_simps)
  then have "ps2_keyboard_read_data ?kb = (scancode_to_ascii (past_scancodes ?kb) c, ?kb\<lparr>kb_hw := ?h2\<rparr>)"
    using wait w(2) n(1,2) by (simp add: ps2_keyboard_read_data_def inb_def emit_def Let_def typed_ports_def PS2_DATA_PORT_def)
  then have "read_key k = Some (scancode_to_ascii (past_scancodes ?kb) c, with_hw ?h2 k)"
    using w(1) by (simp add: read_key_def keyboard_read_key_def no_usb_def with_hw_def)
  moreover have "will_type cs (with_hw ?h2 k)"
    using w n(3) by (auto simp: will_type_def with_hw_def no_usb_def intro!: exI [of _ all])
  ultimately show ?thesis using that by blast
qed

lemma ed_only_will_type: "ed_only k k' \<Longrightarrow> will_type cs k' = will_type cs k"
  by (auto simp: ed_only_def)

text \<open>The keys of the US layout that \<open>codes\<close> stand for, all of them in the scancode table.\<close>

definition keys_of :: "u8 list \<Rightarrow> u8 list" where
  "keys_of codes = map (scancode_to_ascii (\<lambda>_. 0)) codes"

lemma known_code: "unat c < length scancode_list \<Longrightarrow> scancode_to_ascii past c = scancode_to_ascii (\<lambda>_. 0) c"
  by (simp add: scancode_to_ascii_def)

definition known :: "u8 list \<Rightarrow> bool" where
  "known codes \<longleftrightarrow> (\<forall>c \<in> set codes. unat c < length scancode_list)"

lemma terminal_key_hw:
  assumes "key \<noteq> 4" and "terminal_key buf i NULL key k = (r, i', k')"
  shows "r = 0 \<and> same_frame k k' \<and> (will_type cs k' = will_type cs k)"
  using assms by (auto simp: terminal_key_def Let_def split: if_splits)

lemma type_keys:
  assumes "will_type (cs @ rest) k" and "known cs" and "4 \<notin> set (keys_of cs)"
  shows "\<exists>i' k'. typing k i (keys_of cs) i' k' \<and> will_type rest k'"
  using assms
proof (induction cs arbitrary: k i)
  case Nil
  then show ?case using typing_Nil [of k i] by (auto simp: keys_of_def)
next
  case (Cons c cs)
  have kc: "unat c < length scancode_list" "known cs" "4 \<notin> set (keys_of cs)" "scancode_to_ascii (\<lambda>_. 0) c \<noteq> 4"
    using Cons.prems(2,3) by (auto simp: known_def keys_of_def)
  have "will_type (c # (cs @ rest)) k" using Cons.prems(1) by simp
  from read_typed [OF this]
  obtain h where h: "read_key k = Some (scancode_to_ascii (\<lambda>_. 0) c, with_hw h k)" "will_type (cs @ rest) (with_hw h k)"
    unfolding known_code [OF kc(1), of "past_scancodes (ms_kb (k_msh k))"] by blast
  obtain r i2 k2 where t: "terminal_key (command k) i NULL (scancode_to_ascii (\<lambda>_. 0) c) (with_hw h k) = (r, i2, k2)"
    by (metis prod_cases3)
  note f = terminal_key_hw [OF kc(4) t]
  obtain i' k' where "typing k2 i2 (keys_of cs) i' k'" "will_type rest k'"
    using Cons.IH [of k2 i2] h(2) f [of "cs @ rest"] kc(2,3) by blast
  moreover have "terminal_key (command k) i NULL (scancode_to_ascii (\<lambda>_. 0) c) (with_hw h k) = (0, i2, k2)"
    using t f by simp
  ultimately have "typing k i (keys_of (c # cs)) i' k'"
    unfolding keys_of_def list.map by (intro typing_Cons [OF h(1)])
  then show ?case using \<open>will_type rest k'\<close> by blast
qed

text \<open>A line typed and ended with Enter (scancode 28).\<close>

lemma prompt_line_typed:
  assumes w: "will_type (cs @ 0x1C # rest) k" and kn: "known cs" "4 \<notin> set (keys_of cs)"
    and c: "\<not> in_rng (command k) 256 NULL"
    and fits: "line_fits (layout_of k) (keys_of cs) ([], k_mem k NULL \<noteq> 0)"
  obtains k3 es where "prompt_line k k3" and "will_type rest k3" and "typed_to (command k) k es k3"
    and "length (line_typed k (keys_of cs)) < 256"
    and "bytes_at (k_mem k3) (command k) (length (line_typed k (keys_of cs)) + 1) = line_typed k (keys_of cs) @ [0]"
proof -
  define k2 where "k2 = with_term (fold terminal_putchar (lit ([CHR 0x0A] @ ''>>> '')) (k_term k)) k"
  have f: "same_frame k k2" and m: "k_mem k2 = k_mem k" by (simp_all add: k2_def)
  have p: "write_lit ([CHR 0x0A] @ ''>>> '') k = Some k2"
    unfolding k2_def by (rule message_text) (simp add: message_def ch_def)
  have lay: "layout_of k2 = layout_of k" "command k2 = command k" using f by (simp_all add: layout_frame same_frame_sel)
  have w2: "will_type (cs @ 0x1C # rest) k2" using w by (simp add: k2_def)
  obtain i kt where t: "typing k2 0 (keys_of cs) i kt" "will_type (0x1C # rest) kt" using type_keys [OF w2 kn] by blast
  have "scancode_to_ascii past 0x1C = 4" for past by (simp add: scancode_to_ascii_def scancode_list_def)
  then obtain h where e: "read_key kt = Some (4, with_hw h kt)" "will_type rest (with_hw h kt)"
    using read_typed [OF t(2)] by metis
  define k3 where "k3 = poke NULL 0 (poke (command kt + i) 0 (with_hw h kt))"
  have k3: "terminal_key (command kt) i NULL 4 (with_hw h kt) = (1, i, k3)" by (simp add: k3_def enter_key)
  have u: "no_usb k2" using w2 by (simp add: will_type_def)
  have fits2: "line_fits (layout_of k2) (keys_of cs) ([], k_mem k2 NULL \<noteq> 0)" using fits lay m by simp
  have c2: "\<not> in_rng (command k2) 256 NULL" using c lay by simp
  note il = input_line [OF t(1) e(1) k3 u c2 fits2]
  have lt: "line_typed k2 ks = line_typed k ks" for ks by (simp add: line_typed_def lay m)
  have "typed_to (command k) k (lit ([CHR 0x0A] @ ''>>> '')) k2"
    unfolding typed_to_def k2_def
    by (rule exI [of _ "kb_hw (ms_kb (k_msh k))"], rule exI [of _ "k_mem k"]) simp
  from typed_to_trans [OF this] il(4) lay
  have "typed_to (command k) k (lit ([CHR 0x0A] @ ''>>> '') @ echo_of (layout_of k2) (keys_of cs) ([], k_mem k2 NULL \<noteq> 0)) k3"
    by simp
  moreover have "prompt_line k k3" by (rule prompt_line_intro [OF p t(1) fits2 e(1) k3])
  moreover have "will_type rest k3" using e(2) by (simp add: k3_def)
  ultimately show ?thesis using il(1,2) lt lay(2) by (intro that) simp_all
qed

end
