(* ===== verification/Spec2Isabelle.thy ===== *)
theory Spec2Isabelle
  imports Tokenizer Pages Time Acpi Pci Disk Session
begin

text \<open>A verification development for Husky's kernel, a 32-bit freestanding C program: the C library,
  the heap and the page allocator, the VGA terminal and \<open>printk\<close>, the drivers (timer, PCI, USB,
  keyboard, ACPI, AHCI), the \<open>microshell\<close> interpreter, and the prompt and editor of \<open>kernel.c\<close>.

  The program. \<open>kernel_main\<close> clears the screen, resets the editor and the interpreter and enters
  \<open>terminal_prompt\<close>, which reads keys through the keyboard driver into a command line, splits it with
  \<open>strtok\<close> and runs one of eight commands: \<open>help\<close>, \<open>cl\<close> (layout), \<open>getkey\<close>, \<open>edit\<close>, \<open>run\<close>, \<open>lsdisks\<close> (PCI and
  AHCI), \<open>reboot\<close> and \<open>shutdown\<close> (ACPI). The executor behind the editor hands lines to the interpreter. Output goes through
  \<open>printk\<close> and \<open>terminal_writestring\<close> to the 25 by 80 text screen. There is no scheduler, and the timer
  interrupt is not installed by the C code, so a single sequential state is enough.

  Which theory models what (paths under \<open>src/src/kernel\<close>).
  \<^item> \<open>Prelude\<close>: integer types, flat memory, address ranges modulo 2^32, division that may fault.
  \<^item> \<open>Memory\<close>, \<open>CStrings\<close>: \<open>memset\<close>, \<open>memcpy\<close>, \<open>memcmp\<close> and the \<open>str*\<close> functions of \<open>System/system.c\<close> and
    \<open>System/standard.c\<close>; \<open>cstr m p s\<close> is the abstraction "the C string at \<open>p\<close> is \<open>s\<close>".
  \<^item> \<open>CNumbers\<close>, \<open>Atof\<close>: character classes, \<open>atoi\<close>, \<open>itoa\<close>, \<open>atof\<close>, against positional values.
  \<^item> \<open>Tokenizer\<close>: \<open>strtok\<close> with its static pointer, \<open>split_command\<close> with the array of pointers it
    fills, against the list of words.
  \<^item> \<open>Allocator\<close>: \<open>malloc\<close>, \<open>free\<close>, \<open>strdup\<close>, \<open>strndup\<close>, \<open>mmap\<close>, \<open>munmap\<close>; the locale \<open>block_source\<close> is the
    contract of a source of fresh blocks. \<open>Pages\<close>: \<open>alloc_page\<close>, \<open>free_page\<close>; the locale
    \<open>page_allocator\<close> is the contract over the set of frames in use.
  \<^item> \<open>Terminal\<close>: the terminal of \<open>kernel.c\<close>; the locale \<open>text_screen\<close> is the contract of a character
    screen. \<open>Printk\<close>: \<open>printk\<close> and \<open>wrstr\<close>, against \<open>render\<close>, the text a format denotes.
  \<^item> \<open>Hardware\<close>: ports and volatile registers as a trace of accesses. \<open>Time\<close>: \<open>System/time.c\<close>.
  \<^item> \<open>CStructs\<close>: the layout of C structures on i386, with the declarations of \<open>disk.h\<close>, \<open>acpi.c\<close>, \<open>pci.h\<close>,
    \<open>usb.h\<close>, \<open>microshell.h\<close> and \<open>kernel.c\<close>, from which the offsets that the other theories use are computed.
  \<^item> \<open>Pci\<close>, \<open>Usb\<close>, \<open>Keyboard\<close>, \<open>Layouts\<close>, \<open>Acpi\<close>, \<open>Disk\<close>: the files of \<open>Drivers\<close> and \<open>BuiltIn/keyboard_layouts.h\<close>.
  \<^item> \<open>Microshell\<close>: \<open>BuiltIn/microshell.c\<close>; \<open>MsFrame\<close>: what the interpreter can and cannot change;
    \<open>MsPrograms\<close>: the value of expressions and the run of whole programs.
  \<^item> \<open>Kernel\<close>: the rest of \<open>kernel.c\<close> on the composed state \<open>kernel\<close>. \<open>Prompt\<close>: the line being typed, the
    choice of the command, the empty layouts. \<open>Editor\<close>: the executor, the text being edited, the search for
    disks. \<open>Session\<close>: sequences of turns of the prompt and of the editor, and keyboards that type a text.
  This theory holds sample states and the properties that the library is for, each with a
  concrete instance where it has hypotheses.

  Conventions. A \<open>char\<close> is an 8-bit word that \<open>sint\<close> reads (it is signed on i686); \<open>int\<close>, \<open>size_t\<close> and
  pointers are 32-bit words, and arithmetic wraps. Memory is one function from 32-bit addresses to
  bytes, every one of which can be read and written, address 0 included: the kernel runs in
  protected mode without paging, and so the code's null-pointer and out-of-bounds accesses have the
  effect they have on the machine, where a compiler would be free to assume they do not happen.
  Strings, buffers, the heap with the PCI device array, the argument array and the \<open>EditorState\<close> of
  \<open>kernel.c\<close>, ACPI tables and AHCI command lists lie in that memory, at addresses
  that are fields of the state or arguments; so aliasing is kept, and lemmas name the ranges that
  have to be disjoint. Other scalars and the arrays \<open>page_bitmap\<close>, \<open>mappings\<close>, \<open>ctx.vars\<close> and \<open>usb_devices\<close>
  are fields of the state records, the arrays being functions of the index. String literals
  are memories of their own.

  Loops. A loop with a fixed bound is a \<open>fun\<close> or \<open>function\<close> with its measure; a loop whose end the code
  does not guarantee is a \<open>partial_function\<close> into \<open>option\<close>, where \<open>None\<close> says that it does not return, and
  lemmas prove \<open>Some\<close> where it does. There is no fuel. The bounds that appear in statements are
  those of the code: 256 bytes of \<open>printk\<close>'s and the prompt's buffers, 10 arguments, the 4096 bytes of the
  editor's buffer, 64 variables, 256 mappings, 4096
  frames, 128 PCI devices, 32 command slots, 10000 polls of the keyboard.

  Parameters, for what the C code cannot determine: the answers of ports and registers
  (\<open>dev_port\<close>, \<open>dev_reg\<close>, any function of the accesses so far; \<open>pci_bus\<close>, \<open>engine_idle\<close> and \<open>holds_writes\<close>
  are hypotheses on them); single and double precision arithmetic (\<open>float_ops\<close>, \<open>double_ops\<close>, with the
  exactness on 32-bit integers as the hypothesis \<open>exact_ints\<close>); uninitialised and out-of-bounds data
  (\<open>past_scancodes\<close>, \<open>past_layout\<close>, \<open>past_shifts\<close>, \<open>past_shifted\<close>, \<open>usb_junk\<close>, \<open>stack_args\<close>, \<open>shifted_ptr\<close>, and
  \<open>stale_length\<close>, \<open>stale_id\<close> behind the dangling pointer of \<open>get_ahci_devices\<close>); the addresses of buffers
  and of the function \<open>get_time_in_seconds\<close>, with which \<open>sleep\<close> compares its target.

  What the lemmas show. The library and the allocators do what they promise, up to the stated
  limits; a command line, the words in it, the choice of the command and the text in the editor are the
  expected ones; the screen shows what is written. Programs of the shell that are sequences of assignments run to
  their end with the value of each expression. On the other side: only assignments are ever
  executed, variables can never be read back, the editor's text never reaches the executor, the
  PCI enumeration lists devices repeatedly or does not return, the USB initialisation and \<open>sleep\<close> do
  not return, \<open>read\<close> finds no slot on an idle port, and three of the five layouts lock the prompt.

  Not modelled. The boot code (assembly); \<open>System/exFAT.c\<close>, which is empty; the string constant
  of \<open>BuiltIn/programs.h\<close>, which no code uses; prototypes; \<open>current_editor_state\<close> and the \<open>KEY_CTRL\<close>
  constants, which no code reads. A store past the end of an array changes the memory
  behind it, but not the variables that the model keeps as fields of records, although the compiler
  may have placed some of them there: the locals of the stack frame behind \<open>command[256]\<close> and \<open>args[10]\<close>,
  the static variables behind \<open>editor\<close> and \<open>editor_buffer\<close>, and whatever the uninitialised pointer of
  \<open>editor_handle_input\<close> points to. The properties about the prompt, the words, the editor and \<open>printk\<close>
  therefore state the bounds within which no array is overrun (for sessions, they are part of the
  definition of \<open>session\<close>).\<close>

section \<open>Sample states\<close>

text \<open>Concrete states at which the properties with hypotheses are applied.\<close>

definition sample_mem :: mem where
  "sample_mem = lit_mem (lit ''ls  -a'')"

definition zero_mem :: mem where
  "zero_mem = (\<lambda>_. 0)"

definition sample_heap :: heap_state where
  "sample_heap = \<lparr>hmem = sample_mem, heap = 0x200000, heap_index = 0,
     mappings = (\<lambda>_. \<lparr>mm_addr = 0, mm_size = 0, mm_prot = 0, mm_allocated = False\<rparr>),
     next_mapping = 0\<rparr>"

definition sample_pages :: page_state where
  "sample_pages = \<lparr>physical_memory = 0x1000000, page_bitmap = (\<lambda>_. 0)\<rparr>"

definition sample_terminal :: terminal where
  "sample_terminal = \<lparr>terminal_row = 3, terminal_column = 79, terminal_color = 7,
     terminal_buffer = 0xB8000, vram = (\<lambda>_. 0)\<rparr>"

lemma sample_heap_ok: "heap_ok sample_heap" "heap_inv sample_heap"
  by (simp_all add: heap_inv_def heap_ok_def sample_heap_def HEAP_SIZE_def)

lemma sample_pages_ok: "pages_ok sample_pages" "used_frames sample_pages = {}"
  by (simp_all add: pages_ok_def sample_pages_def used_frames_def)

lemma sample_terminal_ok: "term_ok sample_terminal" "cursor sample_terminal = 319"
  "terminal_color sample_terminal = 7"
  by (simp_all add: term_ok_def sample_terminal_def VGA_HEIGHT_def VGA_WIDTH_def cursor_def)

lemma sample_cstr: "cstr sample_mem 0 (lit ''ls  -a'')"
  unfolding sample_mem_def by (rule cstr_lit_mem) (simp_all add: ch_def)

section \<open>Sample machines\<close>

definition sample_console :: console where
  "sample_console = \<lparr>con_mem = sample_mem, con_term = sample_terminal, con_buf = 0x1000, con_num = 0x2000\<rparr>"

definition sample_hw :: "(io list \<Rightarrow> u16 \<Rightarrow> u32) \<Rightarrow> hw" where
  "sample_hw ports = \<lparr>trace = [], dev_port = ports, dev_reg = (\<lambda>_ _. 0)\<rparr>"

text \<open>A keyboard controller that always has the Enter key ready.\<close>

definition enter_ports :: "io list \<Rightarrow> u16 \<Rightarrow> u32" where
  "enter_ports tr p = (if p = 0x64 then 1 else 0x1C)"

definition sample_keyboard :: keyboard where
  "sample_keyboard = \<lparr>kb_hw = sample_hw enter_ports, kb_con = sample_console, usb_devices = new_device,
     usb_keyboard_device = None, past_scancodes = (\<lambda>_. 0)\<rparr>"

definition sample_acpi :: acpi where
  "sample_acpi = \<lparr>SMI_CMD = 0xB2, ACPI_ENABLE = 0xF1, ACPI_DISABLE = 0xF0, PM1a_CNT = 0x604, PM1b_CNT = 0,
     SLP_TYPa = 0x1400, SLP_TYPb = 0, SLP_EN = 0x2000, SCI_EN = 1, PM1_CNT_LEN = 2\<rparr>"

text \<open>Doubles whose arithmetic is that of 64-bit integers: exact on integers of 32 bits.\<close>

definition sample_doubles :: double_ops where
  "sample_doubles = \<lparr>d_of_int = (\<lambda>i. word_of_int (sint i)), d_tenth = 0, d_add = (+), d_mul = (*), d_neg = uminus,
     d_float = ucast\<rparr>"

lemma sample_doubles_exact: "exact_ints sample_doubles"
proof -
  have s: "sint (of_nat a :: s32) = int a" if "a < 2 ^ 31" for a using that by (rule sint_of_nat32)
  have neg: "sint (- of_nat a :: s32) = - int a" if "0 < a" "a < 2 ^ 31" for a
  proof -
    have "(- of_nat a :: s32) = of_int (- int a)" by simp
    also have "sint \<dots> = - int a"
      unfolding signed_of_int using that by (subst signed_take_bit_int_eq_self) auto
    finally show ?thesis .
  qed
  show ?thesis unfolding exact_ints_def
  proof (intro conjI allI impI; elim conjE)
    fix a d :: nat assume "d < 10" "10 * a + d < 2 ^ 31"
    then have "sint (of_nat a :: s32) = int a" "sint (of_nat d :: s32) = int d"
        "sint (of_nat (10 * a + d) :: s32) = int (10 * a + d)"
      by - (rule s, simp)+
    moreover have "sint (10 :: s32) = 10" by simp
    ultimately show "d_add sample_doubles (d_mul sample_doubles (d_of_int sample_doubles (of_nat a)) (d_of_int sample_doubles 10))
        (d_of_int sample_doubles (of_nat d)) = d_of_int sample_doubles (of_nat (10 * a + d))"
      by (simp only: sample_doubles_def double_ops.simps) simp
  next
    fix a :: nat assume "0 < a" "a < 2 ^ 31"
    then show "d_neg sample_doubles (d_of_int sample_doubles (of_nat a)) = d_of_int sample_doubles (- of_nat a)"
      by (simp only: sample_doubles_def double_ops.simps s neg) simp
  qed
qed

definition sample_floats :: float_ops where
  "sample_floats = \<lparr>f_of_int = id, f_to_int = id, f_frac = (\<lambda>_ _. 0), f_add = (+), f_sub = (-), f_mul = (*),
     f_div = (\<lambda>a _. a), f_nonzero = (\<lambda>a. a \<noteq> 0), f_double = sample_doubles\<rparr>"

definition sample_msh :: "mem \<Rightarrow> msh" where
  "sample_msh m = \<lparr>ms_kb = sample_keyboard\<lparr>kb_con := sample_console\<lparr>con_mem := m\<rparr>\<rparr>, ms_heap = sample_heap,
     ms_fops = sample_floats, code = 0, pc = 0, had_error = False, vars = (\<lambda>_. zero_var), var_count = 0,
     ident_buf = 0x4000, line_buf = 0x5000, itoa_buf = 0x6000, stack_args = (\<lambda>_. 0), usb_buf = 0x7000,
     usb_junk = 0, past_shifted = (\<lambda>_. 0)\<rparr>"

definition sample_kernel :: "mem \<Rightarrow> kernel" where
  "sample_kernel m = \<lparr>k_msh = sample_msh m, k_acpi = sample_acpi, k_clock = \<lparr>ticks = 0\<rparr>, current_layout = LAYOUT_US,
     ctrl = False, k_token = 0, command = 0x100, arg_array = 0x300, ed_buffer = 0x8000, editor_buffer = 0xA000,
     editor_buffer_pos = 0, shifted_ptr = 0xC000, past_layout = (\<lambda>_. 0), past_shifts = (\<lambda>_. 0),
     fn_seconds = 0x100000, stale_length = 0, stale_id = 0\<rparr>"

text \<open>The machine on which \<open>codes\<close> are typed, with a memory of zeros.\<close>

definition typing_kernel :: "u8 list \<Rightarrow> kernel" where
  "typing_kernel codes = with_hw (sample_hw (typed_ports codes)) (sample_kernel zero_mem)"

lemma sample_console_ok: "con_ok sample_console"
  using sample_terminal_ok(1)
  by (auto simp: con_ok_def sample_console_def frame_ok_def intro: rng_disj_unatI)

lemma sample_kernel_ok: "no_usb (sample_kernel m)" "ascii_keys (sample_kernel m)" "command (sample_kernel m) = 0x100"
  "k_mem (sample_kernel m) = m" "nameless (sample_msh m)" "msh_inv (sample_msh m)" "arg_array (sample_kernel m) = 0x300"
  by (simp_all add: no_usb_def ascii_keys_def sample_kernel_def sample_msh_def sample_keyboard_def k_mem_def k_con_def
      nameless_def msh_inv_def zero_var_def)

lemma typing_kernel_ok:
  "command (typing_kernel codes) = 0x100" "arg_array (typing_kernel codes) = 0x300" "k_mem (typing_kernel codes) = zero_mem"
  "ed_buffer (typing_kernel codes) = 0x8000" "shifted_ptr (typing_kernel codes) = 0xC000" "\<not> ctrl (typing_kernel codes)"
  "editor_buffer_pos (typing_kernel codes) = 0" "current_layout (typing_kernel codes) = LAYOUT_US"
  "will_type codes (typing_kernel codes)" "no_usb (typing_kernel codes)" "ascii_keys (typing_kernel codes)"
proof -
  show "command (typing_kernel codes) = 0x100" "arg_array (typing_kernel codes) = 0x300"
    "ed_buffer (typing_kernel codes) = 0x8000" "shifted_ptr (typing_kernel codes) = 0xC000" "\<not> ctrl (typing_kernel codes)"
    "editor_buffer_pos (typing_kernel codes) = 0" "current_layout (typing_kernel codes) = LAYOUT_US"
    by (simp_all add: typing_kernel_def with_hw_def sample_kernel_def)
  show "k_mem (typing_kernel codes) = zero_mem" "no_usb (typing_kernel codes)" "ascii_keys (typing_kernel codes)"
    by (simp_all add: typing_kernel_def sample_kernel_ok)
  show "will_type codes (typing_kernel codes)"
    by (auto simp: will_type_def typing_kernel_def sample_kernel_ok) (auto simp: with_hw_def sample_hw_def)
qed

lemma us_layout: "current_layout k = LAYOUT_US \<Longrightarrow> layout_of k sh key =
    (if sh then shifted_layout (past_shifts k) LAYOUT_US key else us_ascii_to_layout (past_layout k) LAYOUT_US key)"
  by (simp add: layout_of_def layout_char_def)

section \<open>Properties of the C library\<close>

text \<open>\<open>strlen\<close> returns the number of bytes before the first NUL, and it fails to return
  only if no byte of the whole address space is a NUL.\<close>

theorem strlen_total:
  "(cstr m p s \<longrightarrow> strlen m p = Some (of_nat (length s))) \<and>
   (strlen m p = None \<longleftrightarrow> (\<forall>a. m a \<noteq> 0))"
  using strlen_cstr strlen_diverges_iff by blast

theorem strlen_total_witness: "strlen sample_mem 0 = Some 6"
  using strlen_total [of sample_mem 0 "lit ''ls  -a''"] sample_cstr by simp

text \<open>C40. On C strings \<open>strcmp\<close> returns, its result is zero exactly on equal strings, and
  swapping the operands negates it.\<close>

theorem strcmp_orders:
  assumes "cstr m1 p s" and "cstr m2 q t"
  shows "\<exists>r. strcmp m1 p m2 q = Some r \<and> strcmp m2 q m1 p = Some (- r) \<and> (r = 0 \<longleftrightarrow> s = t)"
  using assms strcmp_cstr strcmp_cstr [OF assms(2,1)] str_diff_antisym [of t s]
    str_diff_zero [of s t] cstr_nonzero
  by (metis neg_equal_iff_equal)

theorem strcmp_orders_witness:
  "\<exists>r. strcmp sample_mem 0 (lit_mem (lit ''ls'')) 0 = Some r \<and> r \<noteq> 0"
proof -
  have "cstr (lit_mem (lit ''ls'')) 0 (lit ''ls'')" by (rule cstr_lit_mem) (simp_all add: ch_def)
  then show ?thesis using strcmp_orders [OF sample_cstr] by fastforce
qed

text \<open>C39. \<open>memcpy\<close> of a range that is not overwritten before it is read puts the source bytes at the
  destination and changes nothing else; the pointer it returns is the END of the destination, since
  the assembly constraint hands back the advanced \<open>edi\<close>.\<close>

theorem memcpy_result:
  assumes "rng_disj d (unat n) s (unat n)"
  shows "fst (memcpy m d s n) = d + n \<and>
    (\<forall>i. i < n \<longrightarrow> snd (memcpy m d s n) (d + i) = m (s + i)) \<and>
    (\<forall>a. \<not> in_rng d (unat n) a \<longrightarrow> snd (memcpy m d s n) a = m a)"
  using memcpy_eq [OF copy_safe_disj [OF assms], of m]
  by (simp add: in_rng_def word_less_nat_alt)

theorem memcpy_result_witness: "snd (memcpy sample_mem 0x100 0 2) (0x100 + 1) = ch CHR ''s''"
proof -
  have "rng_disj 0x100 (unat (2 :: u32)) 0 (unat (2 :: u32))" by (rule rng_disj_unatI) simp_all
  from memcpy_result [OF this, THEN conjunct2, THEN conjunct1, rule_format, of 1 sample_mem]
  show ?thesis by (simp add: sample_mem_def lit_mem_def)
qed

text \<open>\<open>strcat\<close> returns its first operand, which then holds the concatenation, and writes only
  the bytes of the result.\<close>

theorem strcat_appends:
  assumes "cstr m d s" and "cstr m q t"
    and "rng_disj d (length s + length t + 1) q (length t + 1)"
  shows "\<exists>m'. strcat m d q = Some (d, m') \<and> cstr m' d (s @ t) \<and>
    (\<forall>a. \<not> in_rng d (length s + length t + 1) a \<longrightarrow> m' a = m a)"
  using strcat_cstr [OF assms] by blast

theorem strcat_appends_witness:
  "\<exists>m'. strcat (store sample_mem 0x100 [ch CHR ''x'', 0]) 0x100 0 = Some (0x100, m') \<and>
    cstr m' 0x100 (lit ''xls  -a'')"
proof -
  let ?m = "store sample_mem 0x100 [ch CHR ''x'', 0]"
  have "cstr ?m 0x100 [ch CHR ''x'']"
    using cstr_store [of "[ch CHR ''x'']" sample_mem "0x100"] by (simp add: ch_def)
  moreover have "cstr ?m 0 (lit ''ls  -a'')"
    by (rule cstr_cong [OF sample_cstr]) (auto simp: store_def in_rng_unat)
  moreover have "rng_disj 0x100 (length [ch CHR ''x''] + length (lit ''ls  -a'') + 1) 0
      (length (lit ''ls  -a'') + 1)"
    by (rule rng_disj_unatI) simp_all
  ultimately show ?thesis using strcat_appends [where m = ?m and d = "0x100" and q = 0] by fastforce
qed

text \<open>\<open>strncpy\<close> writes exactly \<open>n\<close> bytes: those of the source string while it lasts, then NULs.
  A source of \<open>n\<close> bytes or more leaves the copy without a terminator.\<close>

theorem strncpy_pads:
  assumes "cstr m q s" and "rng_disj d (unat n) q (Suc (length s))"
  shows "fst (strncpy m d q n) = d \<and>
    (\<forall>i < n. snd (strncpy m d q n) (d + i) = (if unat i < length s then s ! unat i else 0)) \<and>
    (\<forall>a. \<not> in_rng d (unat n) a \<longrightarrow> snd (strncpy m d q n) a = m a)"
  using strncpy_cstr [OF assms] assms(1)
  by (auto simp: in_rng_def word_less_nat_alt cstr_iff dest: spec [of _ "unat _"])

theorem strncpy_pads_witness:
  "snd (strncpy sample_mem 0x100 0 2) (0x100 + 1) = ch CHR ''s'' \<and>
   snd (strncpy sample_mem 0x100 0 8) (0x100 + 7) = 0"
proof -
  have "rng_disj 0x100 (unat (2 :: u32)) 0 (Suc (length (lit ''ls  -a'')))"
    and "rng_disj 0x100 (unat (8 :: u32)) 0 (Suc (length (lit ''ls  -a'')))"
    by (rule rng_disj_unatI; simp)+
  from strncpy_pads [OF sample_cstr this(1), THEN conjunct2, THEN conjunct1, rule_format, of 1]
    strncpy_pads [OF sample_cstr this(2), THEN conjunct2, THEN conjunct1, rule_format, of 7]
  show ?thesis by simp
qed

text \<open>C15. Printing an \<open>int\<close> in decimal and reading it back gives the number, for every value but
  \<open>INT_MIN\<close>: \<open>itoa\<close> returns, and \<open>atoi\<close> on its output is the identity.\<close>

theorem itoa_atoi:
  assumes "sint v \<noteq> - (2 ^ 31)" and "0 < unat str" and "unat str + 12 < 2 ^ 32"
  shows "\<exists>m'. itoa m v str 10 = Some m' \<and> atoi m' str = Some v"
  using itoa_decimal [OF assms, of m] atoi_itoa_text [of _ str v "[]"] by auto

theorem itoa_atoi_witness: "\<exists>m'. itoa sample_mem (- 42) 0x100 10 = Some m' \<and> atoi m' 0x100 = Some (- 42)"
  by (rule itoa_atoi) simp_all

text \<open>C38. Where double arithmetic is exact on integers of 32 bits, \<open>atof\<close> reads what \<open>itoa\<close> prints as the
  conversion of the number to \<open>double\<close>.\<close>

theorem itoa_atof:
  assumes "exact_ints dop" and "sint v \<noteq> - (2 ^ 31)" and "0 < unat str" and "unat str + 12 < 2 ^ 32"
  shows "\<exists>m'. itoa m v str 10 = Some m' \<and> atof dop m' str = Some (d_of_int dop v)"
proof -
  obtain m' where "itoa m v str 10 = Some m'" "cstr m' str (itoa_text 10 (sint v))"
    using itoa_decimal [OF assms(2-4)] by blast
  then show ?thesis using atof_itoa_text [OF assms(1), of m' str v "[]"] assms(2) by (simp add: ends_number_def)
qed

theorem itoa_atof_witness:
  "\<exists>m'. itoa sample_mem (- 42) 0x100 10 = Some m' \<and> atof sample_doubles m' 0x100 = Some (- 42)"
  using itoa_atof [OF sample_doubles_exact, of "- 42" "0x100" sample_mem] by (simp add: sample_doubles_def)

text \<open>C11. \<open>split_command\<close> returns the number of words of the command line; the array at \<open>args\<close>, when it
  does not overlap the line, then holds a pointer to each word, in order, as a C string; only the line and
  as many entries of the array as there are words are written.\<close>

theorem split_words:
  assumes "p \<noteq> NULL" and "cstr (tok_mem st) p s" and "unat p + length s < 2 ^ 32"
    and "rng_disj args (4 * length (tokens {ch CHR '' ''} s)) p (Suc (length s))"
  shows "\<exists>st'. split_command st p args = Some (of_nat (length (tokens {ch CHR '' ''} s)), st') \<and>
    list_all2 (cstr (tok_mem st')) (pointers_at (tok_mem st') args (length (tokens {ch CHR '' ''} s)))
      (tokens {ch CHR '' ''} s) \<and>
    (\<forall>a. \<not> in_rng p (length s) a \<and> \<not> in_rng args (4 * length (tokens {ch CHR '' ''} s)) a \<longrightarrow>
      tok_mem st' a = tok_mem st a)"
  by (rule split_command_words [OF assms])

theorem split_words_witness:
  "\<exists>st'. split_command \<lparr>tok_mem = store (\<lambda>_. 0) 0x100 (lit ''a b'' @ [0]), saved_token = 0\<rparr> 0x100 0x300 =
    Some (2, st') \<and> cstr (tok_mem st') (load32 (tok_mem st') 0x304) (lit ''b'')"
proof -
  let ?st = "\<lparr>tok_mem = store (\<lambda>_. 0) 0x100 (lit ''a b'' @ [0]), saved_token = 0\<rparr>"
  have c: "cstr (tok_mem ?st) 0x100 (lit ''a b'')"
    unfolding tok_state.simps by (rule cstr_store) (simp_all add: ch_def)
  have t: "tokens {ch CHR '' ''} (lit ''a b'') = [lit ''a'', lit ''b'']"
    by (simp add: ch_def tokens.simps skip_delims_def first_run_def after_run_def)
  have dj: "rng_disj 0x300 (4 * length (tokens {ch CHR '' ''} (lit ''a b''))) 0x100 (Suc (length (lit ''a b'')))"
    unfolding t by (rule rng_disj_sym, rule rng_disj_unatI) simp_all
  have nz: "(0x100 :: u32) \<noteq> NULL" "unat (0x100 :: u32) + length (lit ''a b'') < 2 ^ 32" by simp_all
  obtain st' where "split_command ?st 0x100 0x300 = Some (2, st')"
    "list_all2 (cstr (tok_mem st')) (pointers_at (tok_mem st') 0x300 (Suc (Suc 0))) [lit ''a'', lit ''b'']"
    using split_words [OF nz(1) c nz(2) dj] t by auto
  then show ?thesis
    by (intro exI [of _ st']) (simp add: pointers_at_Suc)
qed

section \<open>Properties of the allocators\<close>

text \<open>C13. The blocks that a sequence of \<open>malloc\<close> calls hands out are pairwise disjoint, as long as no
  request is so large that \<open>heap_index + size\<close> wraps.\<close>

theorem malloc_disjoint:
  assumes "heap_ok st" and "\<forall>n \<in> set ns. small_request n" and "alloc_seq malloc ns st = (bs, st')"
    and "i < j" and "j < length bs" and "fst (bs ! i) \<noteq> NULL" and "fst (bs ! j) \<noteq> NULL"
  shows "rng_disj (fst (bs ! i)) (unat (snd (bs ! i))) (fst (bs ! j)) (unat (snd (bs ! j)))"
  by (rule bump.seq_disjoint [OF assms])

theorem malloc_disjoint_witness: "rng_disj 0x200000 16 0x200010 32"
  using malloc_disjoint [OF sample_heap_ok(1), of "[16, 32]" _ _ 0 1]
  by (simp add: small_request_def malloc_def sample_heap_def HEAP_SIZE_def)

text \<open>C37. The check of \<open>malloc\<close> is made on the wrapped sum: a request of \<open>2^32 - k\<close> bytes succeeds
  and moves the heap index BACK by \<open>k\<close>, so that the next block overlaps blocks already handed out.\<close>

theorem malloc_wraparound:
  assumes "heap_ok st" and "0 < k" and "k \<le> heap_index st"
  shows "malloc (- k) st = (heap st + heap_index st, st\<lparr>heap_index := heap_index st - k\<rparr>)"
  by (rule malloc_wraps [OF assms])

theorem malloc_wraparound_witness:
  "malloc (- 8) (sample_heap\<lparr>heap_index := 16\<rparr>) = (0x200010, sample_heap\<lparr>heap_index := 8\<rparr>)"
proof -
  have "heap_ok (sample_heap\<lparr>heap_index := 16\<rparr>)"
    by (simp add: heap_ok_def sample_heap_def HEAP_SIZE_def)
  from malloc_wraparound [OF this, of 8] show ?thesis by (simp add: sample_heap_def)
qed

text \<open>C35. When the block fits and the source is not in the unused part of the heap, \<open>strdup\<close> returns a
  fresh block that holds the string, keeps the source, and takes exactly the string and its NUL.\<close>

theorem strdup_copies:
  assumes "heap_ok st" and "unat (heap st) + unat HEAP_SIZE < 2 ^ 32"
    and "s \<noteq> NULL" and "cstr (hmem st) s t" and "not_in_free_heap st s (Suc (length t))"
    and "unat (heap_index st) + length t + 1 \<le> unat HEAP_SIZE"
  shows "\<exists>st'. strdup s st = Some (heap st + heap_index st, st') \<and>
    cstr (hmem st') (heap st + heap_index st) t \<and> cstr (hmem st') s t \<and>
    unat (heap_index st') = unat (heap_index st) + length t + 1"
  by (rule strdup_cstr [OF assms])

theorem strdup_copies_witness:
  "\<exists>st'. strdup 1 sample_heap = Some (0x200000, st') \<and> cstr (hmem st') 0x200000 (lit ''s  -a'')"
proof -
  have "cstr (hmem sample_heap) 1 (lit ''s  -a'')" using sample_cstr by (simp add: sample_heap_def)
  moreover have "not_in_free_heap sample_heap 1 (Suc (length (lit ''s  -a'')))"
    by (auto simp: not_in_free_heap_def sample_heap_def in_rng_unat)
  ultimately show ?thesis
    using strdup_copies [OF sample_heap_ok(1), of 1] by (fastforce simp: sample_heap_def)
qed

text \<open>C25. The allocator's invariant (index inside the array, at most \<open>MAX_MAPPINGS\<close> entries) holds after
  any sequence of \<open>malloc\<close>, \<open>free\<close>, \<open>strdup\<close>, \<open>strndup\<close>, \<open>mmap\<close> and \<open>munmap\<close>.\<close>

theorem heap_runs:
  assumes "heap_step\<^sup>*\<^sup>* st st'" and "heap_inv st"
  shows "heap_index st' \<le> HEAP_SIZE \<and> next_mapping st' \<le> MAX_MAPPINGS \<and>
    next_mapping st \<le> next_mapping st'"
  using heap_run_inv [OF assms] by (simp add: heap_inv_def heap_ok_def)

theorem heap_runs_witness:
  "heap_index (snd (malloc 64 sample_heap)) \<le> HEAP_SIZE"
  using heap_runs [OF r_into_rtranclp [where r = heap_step, OF step_malloc] sample_heap_ok(2)] by blast

text \<open>C36. The mapping table is never given back: once it is full, \<open>mmap\<close> fails after any further
  sequence of operations, \<open>munmap\<close> included.\<close>

theorem mmap_table_full:
  assumes "heap_inv st" and "next_mapping st = MAX_MAPPINGS" and "heap_step\<^sup>*\<^sup>* st st'"
  shows "mmap addr len prot flags fd offset st' = (MAP_FAILED, st')"
  by (rule mmap_exhausted [OF assms])

theorem mmap_table_full_witness:
  "fst (mmap 0 4096 3 1 (- 1) 0 (snd (munmap 0x200000 0 (sample_heap\<lparr>next_mapping := MAX_MAPPINGS\<rparr>)))) =
    MAP_FAILED"
proof -
  have "heap_inv (sample_heap\<lparr>next_mapping := MAX_MAPPINGS\<rparr>)"
    using sample_heap_ok(1) by (simp add: heap_inv_def heap_ok_def)
  from mmap_table_full [OF this _ r_into_rtranclp [where r = heap_step, OF step_munmap]] show ?thesis by simp
qed

text \<open>C31. From \<open>n\<close> calls of \<open>alloc_page\<close>, as long as \<open>n\<close> frames are free, come \<open>n\<close> distinct frames,
  none of them in use before, no two sharing a byte; exactly these become used.\<close>

theorem pages_fresh:
  assumes "pages_ok st" and "n + card (used_frames st) \<le> 4096"
    and "alloc_pages alloc_page n st = (ps, st')"
  shows "distinct ps \<and> length ps = n \<and> set ps \<inter> used_frames st = {} \<and>
    used_frames st' = used_frames st \<union> set ps \<and>
    (\<forall>p \<in> set ps. \<forall>q \<in> set ps. p \<noteq> q \<longrightarrow> rng_disj p (unat PAGE_SIZE) q (unat PAGE_SIZE))"
proof -
  have "n + card (used_frames st) \<le> card (frame_set st)" using assms(2) by (simp add: card_frame_set)
  from pg.pages_distinct [OF assms(1) this assms(3)] show ?thesis
    using frames_disjoint [OF assms(1)] by blast
qed

theorem pages_fresh_witness: "distinct (fst (alloc_pages alloc_page 3 sample_pages))"
  using pages_fresh [OF sample_pages_ok(1), of 3] sample_pages_ok(2)
  by (cases "alloc_pages alloc_page 3 sample_pages") simp

text \<open>C14. \<open>alloc_page\<close> and \<open>free_page\<close> refine a set of used frames: allocation adds a frame that was
  free, or fails and changes nothing exactly when all 4096 are used; freeing removes the frame, and
  does nothing for a pointer that is misaligned or outside the array.\<close>

theorem page_refinement:
  assumes "pages_ok st"
  shows "(case alloc_page st of (p, st') \<Rightarrow>
      if used_frames st = frame_set st then p = NULL \<and> st' = st
      else p \<in> frame_set st - used_frames st \<and> used_frames st' = insert p (used_frames st)) \<and>
    used_frames (free_page q st) = used_frames st - {q} \<and>
    (q \<notin> frame_set st \<longrightarrow> free_page q st = st)"
proof (intro conjI)
  show "case alloc_page st of (p, st') \<Rightarrow>
      if used_frames st = frame_set st then p = NULL \<and> st' = st
      else p \<in> frame_set st - used_frames st \<and> used_frames st' = insert p (used_frames st)"
    using pg.alloc_some [OF assms] pg.alloc_none [OF assms]
    by (cases "alloc_page st") auto
  show "used_frames (free_page q st) = used_frames st - {q}" using pg.free_used [OF assms] by simp
  show "q \<notin> frame_set st \<longrightarrow> free_page q st = st"
    by (cases rule: free_page_cases [of q st]) (auto simp: frame_set_def)
qed

theorem page_refinement_witness:
  "used_frames (free_page 5 sample_pages) = {} \<and> fst (alloc_page sample_pages) \<noteq> NULL"
proof -
  have "used_frames sample_pages \<noteq> frame_set sample_pages"
    using card_frame_set [of sample_pages] by (auto simp: sample_pages_ok)
  moreover have "NULL \<notin> frame_set sample_pages" using pg.finite_frames [OF sample_pages_ok(1)] by simp
  ultimately show ?thesis
    using page_refinement [OF sample_pages_ok(1), of 5] sample_pages_ok(2)
    by (cases "alloc_page sample_pages") auto
qed

section \<open>Properties of the terminal\<close>

text \<open>C30. Whatever bytes are written, the cursor stays inside the 25 rows of 80 columns: every cell
  written is one of the 2000 of the screen.\<close>

theorem terminal_stays:
  assumes "term_ok t"
  shows "terminal_row (fold terminal_putchar cs t) < VGA_HEIGHT \<and>
    terminal_column (fold terminal_putchar cs t) < VGA_WIDTH"
  using scr.puts_inv [OF assms, of cs] by (simp add: term_ok_def)

theorem terminal_stays_witness:
  "terminal_row (fold terminal_putchar (replicate 5000 0x0A) sample_terminal) < VGA_HEIGHT"
  using terminal_stays [OF sample_terminal_ok(1)] by blast

text \<open>C24. A string of printable characters that fits the screen is shown, character by character, in the
  cells from the cursor on (wrapping from the last cell to the first), in the current colour; no other
  cell changes.\<close>

theorem writestring_visible:
  assumes "term_ok t" and "cstr m p s" and "\<forall>c \<in> set s. printable c" and "length s \<le> 2000"
  shows "\<exists>t'. terminal_writestring m p t = Some t' \<and> cursor t' = (cursor t + length s) mod 2000 \<and>
    (\<forall>k < length s. cell_at t' ((cursor t + k) mod 2000) = vga_entry (s ! k) (terminal_color t)) \<and>
    (\<forall>i < 2000. (\<forall>k < length s. i \<noteq> (cursor t + k) mod 2000) \<longrightarrow> cell_at t' i = cell_at t i)"
  using writestring_cstr(1) [OF assms(2)] scr.puts_pos [OF assms(1,3)] scr.puts_cell [OF assms(1,3,4)]
  by simp

theorem writestring_visible_witness:
  "\<exists>t'. terminal_writestring sample_mem 0 sample_terminal = Some t' \<and>
    cell_at t' 320 = vga_entry (ch CHR ''s'') 7"
proof -
  have "\<forall>c \<in> set (lit ''ls  -a''). printable c" by (simp add: printable_def ch_def)
  from writestring_visible [OF sample_terminal_ok(1) sample_cstr this]
  obtain t' where t': "terminal_writestring sample_mem 0 sample_terminal = Some t'"
    "\<forall>k < length (lit ''ls  -a''). cell_at t' ((cursor sample_terminal + k) mod 2000) =
      vga_entry (lit ''ls  -a'' ! k) (terminal_color sample_terminal)"
    by auto
  from t'(2) [rule_format, of 1] show ?thesis
    using t'(1) by (simp add: sample_terminal_ok)
qed

text \<open>After a printable character, backspace brings the cursor back and blanks that cell, all other
  cells being as before the character; the last cell of the screen is the exception.\<close>

theorem backspace_inverse:
  assumes "term_ok t" and "printable c" and "cursor t \<noteq> 1999"
  shows "cursor (terminal_putchar (ch CHR 0x08) (terminal_putchar c t)) = cursor t \<and>
    (\<forall>i < 2000. cell_at (terminal_putchar (ch CHR 0x08) (terminal_putchar c t)) i =
      (if i = cursor t then vga_entry (ch CHR '' '') (terminal_color t) else cell_at t i))"
  using backspace_undoes(1) [OF assms, of 0] backspace_undoes(2) [OF assms] by simp

theorem backspace_inverse_witness:
  "cursor (terminal_putchar (ch CHR 0x08) (terminal_putchar (ch CHR ''x'') sample_terminal)) = 319"
  using backspace_inverse [OF sample_terminal_ok(1), of "ch CHR ''x''"]
  by (simp add: sample_terminal_ok printable_def ch_def)

text \<open>C4. \<open>printk\<close> returns and prints what its format denotes (\<open>%d\<close> the decimal text, \<open>%s\<close> the string,
  any other pair as it stands), and changes memory only in its two stack buffers, provided that text is
  shorter than the 256 bytes of its unchecked buffer.\<close>

theorem printk_formats:
  assumes "frame_ok buf num" and "format_at src m buf num p f"
    and "length (render strs args 0 f) < 256"
    and "args_ok (\<lambda>v. sint v \<noteq> - (2 ^ 31))
           (\<lambda>q. cstr m q (strs q) \<and> clear_of buf num q (Suc (length (strs q)))) args 0 f"
    and "\<And>q. 0 \<notin> set (strs q)"
  shows "\<exists>m'. printk src p args buf num m t =
      Some (m', fold terminal_putchar (render strs args 0 f) t) \<and>
    (\<forall>a. \<not> in_rng buf 256 a \<and> \<not> in_rng num 12 a \<longrightarrow> m' a = m a)"
proof -
  obtain m' where r: "printk src p args buf num m t =
      Some (m', fold terminal_putchar (render strs args 0 f) t)"
    "buffered m buf num (render strs args 0 f @ [0]) m'"
    using printk_render [OF assms(1,2,3,4,5)] by blast
  have "m' a = m a" if "\<not> in_rng buf 256 a" "\<not> in_rng num 12 a" for a
    using r(2) that assms(3) in_rng_mono [of buf "length (render strs args 0 f @ [0])" a 256]
    by (auto simp: buffered_def store_def)
  then show ?thesis using r(1) by blast
qed

theorem printk_formats_witness:
  "\<exists>m'. printk (Literal (lit ''n=%d'')) 0 (\<lambda>_. 7) 0x1000 0x2000 (\<lambda>_. 0) sample_terminal =
    Some (m', fold terminal_putchar (lit ''n=7'') sample_terminal)"
proof -
  have fr: "frame_ok 0x1000 0x2000" by (auto simp: frame_ok_def intro: rng_disj_unatI)
  have "cstr (lit_mem (lit ''n=%d'')) 0 (lit ''n=%d'')" by (rule cstr_lit_mem) (simp_all add: ch_def)
  then have fm: "format_at (Literal (lit ''n=%d'')) (\<lambda>_. 0) 0x1000 0x2000 0 (lit ''n=%d'')"
    by (simp add: format_at_def)
  have r: "render (\<lambda>_. []) (\<lambda>_. 7) 0 (lit ''n=%d'') = lit ''n=7''"
    by (simp add: ch_def itoa_text_def nat_str_def digits_le.simps digit_char_def)
  show ?thesis
    using printk_formats [OF fr fm, of "\<lambda>_. []" "\<lambda>_. 7" sample_terminal] r by (auto simp: ch_def)
qed

section \<open>Properties of the prompt\<close>

section \<open>Typed lines\<close>

text \<open>The codes of some words, and what typing them gives in the US layout.\<close>

lemma scan_words:
  "keys_of [0x26, 0x1F] = lit ''ls''" "keys_of [0x23, 0x12, 0x26, 0x19] = lit ''help''"
  "keys_of [0x12, 0x20, 0x17, 0x14] = lit ''edit''"
  "known [0x26, 0x1F]" "known [0x23, 0x12, 0x26, 0x19]" "known [0x12, 0x20, 0x17, 0x14]"
  by (simp_all add: keys_of_def known_def scancode_to_ascii_def scancode_list_def ch_def)

definition plain_letter :: "u8 \<Rightarrow> bool" where
  "plain_letter c \<longleftrightarrow> c \<in> set us_keys \<and> 8 < c"

lemma us_letters:
  assumes "current_layout k = LAYOUT_US" and "plain_letter c"
  shows "layout_of k False c = c"
  using assms us_layout_id [of c] by (simp add: us_layout plain_letter_def)

lemma plain_keys:
  assumes "current_layout k = LAYOUT_US" and "\<forall>c \<in> set ks. plain_letter c"
  shows "fold (key_step (layout_of k)) ks (t, False) = (t @ ks, False)"
    and "length t + length ks < 256 \<Longrightarrow> line_fits (layout_of k) ks (t, False)"
  using assms(2)
proof (induction ks arbitrary: t)
  case (Cons c ks)
  { case 1
    have "key_step (layout_of k) c (t, False) = (t @ [c], False)"
      using 1 us_letters [OF assms(1), of c] by (auto simp: key_step_def plain_letter_def ch_def)
    then show ?case using Cons.IH(1) [of "t @ [c]"] 1 by simp }
  { case 2
    have "key_step (layout_of k) c (t, False) = (t @ [c], False)"
      using 2 us_letters [OF assms(1), of c] by (auto simp: key_step_def plain_letter_def ch_def)
    then show ?case using Cons.IH(2) [of "t @ [c]"] 2 by simp }
qed simp_all

text \<open>A word typed on the sample machine, then Enter.\<close>

lemma word_typed:
  assumes "known cs" and "keys_of cs = w" and "\<forall>c \<in> set w. plain_letter c" and "length w < 256"
  obtains k3 es where "prompt_line (typing_kernel (cs @ 0x1C # rest)) k3" and "will_type rest k3"
    and "typed_to 0x100 (typing_kernel (cs @ 0x1C # rest)) es k3" and "cstr (k_mem k3) 0x100 w"
proof -
  let ?k = "typing_kernel (cs @ 0x1C # rest)"
  have n4: "4 \<notin> set (keys_of cs)" using assms(2,3) by (auto simp: plain_letter_def ch_def)
  have c: "\<not> in_rng (command ?k) 256 NULL" by (simp add: typing_kernel_ok in_rng_unat)
  have z: "(k_mem ?k NULL \<noteq> 0) = False" by (simp add: typing_kernel_ok zero_mem_def)
  note p = plain_keys [where k = ?k and t = "[]", OF typing_kernel_ok(8) assms(3)]
  have fits: "line_fits (layout_of ?k) (keys_of cs) ([], k_mem ?k NULL \<noteq> 0)"
    using p(2) assms(2,4) unfolding z by simp
  have l: "line_typed ?k (keys_of cs) = w" using p(1) assms(2) unfolding line_typed_def z by simp
  obtain k3 es where k3: "prompt_line ?k k3" "will_type rest k3" "typed_to 0x100 ?k es k3"
    "bytes_at (k_mem k3) 0x100 (length w + 1) = w @ [0]"
    using prompt_line_typed [OF typing_kernel_ok(9) assms(1) n4 c fits] l by (metis typing_kernel_ok(1))
  have "0 \<notin> set w" using assms(3) by (auto simp: plain_letter_def ch_def)
  then have "cstr (k_mem k3) 0x100 w"
    using cstr_bytes [OF k3(4)] by simp
  then show ?thesis using that k3 by blast
qed

section \<open>Properties of the prompt\<close>

text \<open>C2. When the loop that reads a line returns, keys \<open>ks\<close> have been read, then Enter. If the line never held
  256 characters on the way, the command buffer holds the text that typing, deleting and shifting these keys
  gives in the current layout, with a NUL behind it; the shift flag, at the null pointer, is cleared; the
  screen shows the characters typed and the backspaces; and no other byte of the memory and nothing else of
  the state is changed but the history of the devices. The code itself has no bound.\<close>

theorem command_line:
  assumes "input_loop 0 k = Some k'" and "no_usb k" and "\<not> in_rng (command k) 256 NULL"
  shows "\<exists>ks i k2 k3. typing k 0 ks i k2 \<and> read_key k2 = Some (4, k3) \<and>
    (let line = ([], k_mem k NULL \<noteq> 0); t = fst (fold (key_step (layout_of k)) ks line) in
     line_fits (layout_of k) ks line \<longrightarrow>
       length t < 256 \<and> bytes_at (k_mem k') (command k) (length t + 1) = t @ [0] \<and> k_mem k' NULL = 0 \<and>
       (\<forall>a. a \<noteq> NULL \<and> \<not> in_rng (command k) 256 a \<longrightarrow> k_mem k' a = k_mem k a) \<and>
       k_term k' = fold terminal_putchar (echo_of (layout_of k) ks line) (k_term k) \<and>
       (\<exists>h. k' = with_term (k_term k') (with_mem (k_mem k') (with_hw h k))))"
proof -
  obtain ks i k2 k3 j where t: "typing k 0 ks i k2" "read_key k2 = Some (4, k3)"
      "terminal_key (command k2) i NULL 4 k3 = (1, j, k')"
    using input_loop_keys [OF assms(1)] by blast
  note r = input_line [OF t assms(2,3)]
  have "\<exists>h. k' = with_term (k_term k') (with_mem (k_mem k') (with_hw h k))" if "typed_to (command k) k es k'" for es
    using that by (auto simp: typed_to_def)
  then show ?thesis
    using t(1,2) r typed_to_sel(1,4) [OF r(4)]
    by (intro exI [of _ ks] exI [of _ i] exI [of _ k2] exI [of _ k3]) (auto simp: Let_def line_typed_def)
qed

theorem command_line_witness:
  "\<exists>k'. input_loop 0 (typing_kernel [0x26, 0x1F, 0x1C]) = Some k' \<and> bytes_at (k_mem k') 0x100 3 = lit ''ls'' @ [0]"
proof -
  let ?k = "typing_kernel [0x26, 0x1F, 0x1C]"
  have w: "will_type ([0x26, 0x1F] @ [0x1C]) ?k" using typing_kernel_ok(9) by simp
  have "4 \<notin> set (keys_of [0x26, 0x1F])" by (simp add: scan_words ch_def)
  from type_keys [OF w scan_words(4) this, of 0] obtain i k2 where t: "typing ?k 0 (lit ''ls'') i k2" "will_type [0x1C] k2"
    unfolding scan_words by blast
  have "scancode_to_ascii past 0x1C = 4" for past by (simp add: scancode_to_ascii_def scancode_list_def)
  then obtain h where e: "read_key k2 = Some (4, with_hw h k2)" using read_typed [OF t(2)] by metis
  obtain k' where k': "input_loop 0 ?k = Some k'" using input_loop_typing [OF t(1) e enter_key] by blast
  have c: "\<not> in_rng (command ?k) 256 NULL" by (simp add: typing_kernel_ok in_rng_unat)
  from command_line [OF k' typing_kernel_ok(10) c] obtain ks j q2 q3 where
    q: "typing ?k 0 ks j q2" "read_key q2 = Some (4, q3)" and
    r: "line_fits (layout_of ?k) ks ([], k_mem ?k NULL \<noteq> 0) \<longrightarrow>
      bytes_at (k_mem k') (command ?k) (length (fst (fold (key_step (layout_of ?k)) ks ([], k_mem ?k NULL \<noteq> 0))) + 1) =
        fst (fold (key_step (layout_of ?k)) ks ([], k_mem ?k NULL \<noteq> 0)) @ [0]"
    by (auto simp: Let_def)
  have ks: "ks = lit ''ls''" using typing_unique [OF t(1) e q] by simp
  have z: "(k_mem ?k NULL \<noteq> 0) = False" by (simp add: typing_kernel_ok zero_mem_def)
  have "\<forall>c \<in> set (lit ''ls''). plain_letter c" by (simp add: plain_letter_def us_keys_def ch_def)
  note p = plain_keys [where k = ?k and t = "[]", OF typing_kernel_ok(8) this]
  show ?thesis using k' r p unfolding ks z by (intro exI [of _ k']) (simp add: typing_kernel_ok numeral_3_eq_3)
qed

text \<open>C12. Of a line of one to ten words, with \<open>args\<close> elsewhere in memory, the first word chooses the command
  by its name, any other word being reported as unknown, and the array holds the arguments: a pointer to
  each word, in order, as a C string inside the line.\<close>

theorem dispatch_command:
  assumes "command k \<noteq> NULL" and "cstr (k_mem k) (command k) s" and "unat (command k) + length s < 2 ^ 32"
    and "tokens {ch CHR '' ''} s = w # ws" and "length (w # ws) \<le> 10"
    and "rng_disj (arg_array k) 40 (command k) (Suc (length s))"
  shows "\<exists>m1 tk. list_all2 (cstr m1) (pointers_at m1 (arg_array k) (length (w # ws))) (w # ws) \<and>
    (\<forall>a. \<not> in_rng (command k) (length s) a \<and> \<not> in_rng (arg_array k) 40 a \<longrightarrow> m1 a = k_mem k a) \<and>
    dispatch k = run_command
      (if w = lit ''help'' then Help else if w = lit ''cl'' then Cl else if w = lit ''getkey'' then Getkey
       else if w = lit ''edit'' then Edit else if w = lit ''run'' then Run else if w = lit ''reboot'' then Reboot
       else if w = lit ''lsdisks'' then Lsdisks else if w = lit ''shutdown'' then Shutdown else Unknown)
      (of_nat (length (w # ws))) (with_mem m1 (k\<lparr>k_token := tk\<rparr>))"
proof -
  have dj: "rng_disj (arg_array k) (4 * length (line_words s)) (command k) (Suc (length s))"
    using assms(4,5) by (intro rng_disj_mono [OF assms(6)]) simp_all
  have few: "length (line_words s) \<le> 10" using assms(4,5) by simp
  obtain m1 tk where "list_all2 (cstr m1) (pointers_at m1 (arg_array k) (length (line_words s))) (line_words s)"
    "\<forall>a. \<not> in_rng (command k) (length s) a \<and> \<not> in_rng (arg_array k) (4 * length (line_words s)) a \<longrightarrow> m1 a = k_mem k a"
    "dispatch k = (if line_words s = [] then Some (False, with_mem m1 (k\<lparr>k_token := tk\<rparr>))
      else run_command (cmd_of (hd (line_words s))) (of_nat (length (line_words s))) (with_mem m1 (k\<lparr>k_token := tk\<rparr>)))"
    by (rule dispatch_words [OF assms(1-3) dj few])
  moreover have "in_rng (arg_array k) 40 a" if "in_rng (arg_array k) (4 * length (line_words s)) a" for a
    using few by (intro in_rng_mono [OF that]) simp
  ultimately show ?thesis
    unfolding cmd_of_names [symmetric] assms(4) by (intro exI [of _ m1] exI [of _ tk]) auto
qed

theorem dispatch_command_witness:
  "\<exists>m1 k1. cstr m1 (load32 m1 0x304) (lit ''de_de'') \<and> k_mem k1 = m1 \<and>
    dispatch (sample_kernel (store (\<lambda>_. 0) 0x100 (lit ''cl de_de'' @ [0]))) = run_command Cl 2 k1"
proof -
  let ?k = "sample_kernel (store (\<lambda>_. 0) 0x100 (lit ''cl de_de'' @ [0]))"
  have c: "cstr (k_mem ?k) (command ?k) (lit ''cl de_de'')"
    unfolding sample_kernel_ok by (rule cstr_store) (simp_all add: ch_def)
  have t: "tokens {ch CHR '' ''} (lit ''cl de_de'') = [lit ''cl'', lit ''de_de'']"
    by (simp add: ch_def tokens.simps skip_delims_def first_run_def after_run_def)
  have nz: "command ?k \<noteq> NULL" "unat (command ?k) + length (lit ''cl de_de'') < 2 ^ 32"
    "length [lit ''cl'', lit ''de_de''] \<le> 10"
    by (simp_all add: sample_kernel_ok)
  have dj: "rng_disj (arg_array ?k) 40 (command ?k) (Suc (length (lit ''cl de_de'')))"
    unfolding sample_kernel_ok by (rule rng_disj_sym, rule rng_disj_unatI) simp_all
  from dispatch_command [OF nz(1) c nz(2) t nz(3) dj]
  obtain m1 tk where a: "list_all2 (cstr m1) (pointers_at m1 (arg_array ?k) (Suc (Suc 0))) [lit ''cl'', lit ''de_de'']"
      "dispatch ?k = run_command Cl 2 (with_mem m1 (?k\<lparr>k_token := tk\<rparr>))"
    by (auto simp: ch_def)
  then show ?thesis
    by (intro exI [of _ m1] exI [of _ "with_mem m1 (?k\<lparr>k_token := tk\<rparr>)"])
       (simp add: pointers_at_Suc sample_kernel_ok)
qed



text \<open>C21. Without LCtrl the editor's buffer refines the text being edited: after the keys \<open>ks\<close>, read and
  handled by its loop, \<open>editor.buffer\<close> holds the text that typing, Enter, Backspace and Shift give in the
  current layout, followed by zeros, \<open>position\<close> is its length, the editor is still active, and no memory
  outside \<open>editor\<close> but the byte of the uninitialised pointer has changed, as long as the buffer is not full
  and that pointer does not point into it.\<close>

theorem editor_text:
  assumes "editing k ks k'" and "ed_rep k (t, sh)" and "ed_apart k" and "\<not> ctrl k" and "no_usb k" and "5 \<notin> set ks"
    and "length t + length ks < 4096"
  shows "ed_rep k' (fold (text_step (layout_of k)) ks (t, sh)) \<and> same_frame k k' \<and>
    (\<forall>a. \<not> in_rng (ed_buffer k) 4109 a \<and> a \<noteq> shifted_ptr k \<longrightarrow> k_mem k' a = k_mem k a)"
  using editing_refines [OF assms(1-6)] assms(7) by simp

text \<open>The editor started in a memory of zeros.\<close>

lemma started_rep:
  assumes "\<forall>a. in_rng (ed_buffer k) 4109 a \<or> a = shifted_ptr k \<longrightarrow> k_mem k a = 0" and "ed_apart k"
  shows "ed_rep (with_term t (set_active True k)) ([], False)"
proof -
  let ?k = "with_term t (set_active True k)"
  have m: "k_mem (set_active True k) a = (if a = ed_buffer k + of_nat 4108 then 1 else k_mem k a)" for a
    by (simp add: set_active_def ed_offsets)
  have c: "k_mem ?k (ed_buffer k + of_nat i) = 0" if "i < 4108" for i
    using of_nat_inj32 [of i 4108] assms(1) in_rng_of_natI [of i 4109 "ed_buffer k"] that by (simp add: m)
  have "position ?k = 0"
    using c [of 4096] c [of 4097] c [of 4098] c [of 4099]
    by (simp add: ed_word_def editor_offsets load32_def set_active_def add.assoc)
  moreover have "k_mem ?k (shifted_ptr k) = 0"
    using m assms in_rng_of_natI [of 4108 4109 "ed_buffer k"] by (auto simp: ed_apart_def)
  ultimately show ?thesis
    using c by (simp add: ed_rep_def is_shifted_def is_active_def set_active_def ed_offsets)
qed

theorem editor_text_witness:
  "\<exists>k'. editing (with_term sample_terminal (set_active True (typing_kernel [0x2D]))) [ch CHR ''x''] k' \<and>
    k_mem k' 0x8000 = ch CHR ''x'' \<and> position k' = 1"
proof -
  define k where "k = with_term sample_terminal (set_active True (typing_kernel [0x2D]))"
  have ap: "ed_apart (typing_kernel [0x2D])" by (simp add: ed_apart_def typing_kernel_ok in_rng_unat)
  have rep: "ed_rep k ([], False)" unfolding k_def by (rule started_rep [OF _ ap]) (simp add: typing_kernel_ok zero_mem_def)
  have f: "ed_buffer k = 0x8000" "ed_apart k" "\<not> ctrl k" "no_usb k" "current_layout k = LAYOUT_US"
    using ap by (simp_all add: k_def set_active_def typing_kernel_ok ed_apart_def)
      (simp_all add: poke_def with_mem_def with_term_def with_con_def typing_kernel_ok)
  have w: "will_type [0x2D] k" using typing_kernel_ok(9) by (simp add: k_def)
  have "scancode_to_ascii past 0x2D = ch CHR ''x''" for past by (simp add: scancode_to_ascii_def scancode_list_def ch_def)
  then obtain h where r: "read_key k = Some (ch CHR ''x'', with_hw h k)" using read_typed [OF w] by metis
  have hk: "ed_rep (with_hw h k) ([], False)" "ed_apart (with_hw h k)" "\<not> ctrl (with_hw h k)" "ch CHR ''x'' \<noteq> 5"
    "length ([] :: u8 list) < 4095"
    using rep f by (simp_all add: ch_def)
  obtain k' where e: "editor_key (ch CHR ''x'') (with_hw h k) = Some k'"
    using editor_key_refines [OF hk] by blast
  have act: "is_active k" using rep by (simp add: ed_rep_def)
  have ed: "editing k [ch CHR ''x''] k'" by (rule editing_Cons [OF act r e editing_Nil])
  have "layout_of k False (ch CHR ''x'') = ch CHR ''x''"
    by (rule us_letters [OF f(5)]) (simp add: plain_letter_def us_keys_def ch_def)
  then have "ed_rep k' ([ch CHR ''x''], False)" and fr: "same_frame k k'"
    using editor_text [OF ed rep f(2-4)] by (simp_all add: text_step_def ch_def)
  moreover have b: "ed_buffer k' = 0x8000" using same_frame_sel(8) [OF fr] f(1) by simp
  ultimately have "position k' = 1" "k_mem k' (ed_buffer k' + of_nat 0) = ch CHR ''x''"
    unfolding ed_rep_def by (simp, elim conjE allE [of _ 0]) simp
  then show ?thesis using ed b unfolding k_def by auto
qed

text \<open>With \<open>x\<close>, LCtrl and \<open>q\<close> typed: after \<open>x\<close> it holds that character, and \<open>q\<close> ends it.\<close>

lemma exit_prints:
  "\<exists>t. write_lit ([CHR 0x0A] @ ''Exited editor. Buffer contents saved.'' @ [CHR 0x0A]) k = Some (with_term t k)"
  using message_text [of "[CHR 0x0A] @ ''Exited editor. Buffer contents saved.'' @ [CHR 0x0A]" k]
  by (auto simp: message_def ch_def)

lemma ctrl_update [simp]:
  "ed_rep (k\<lparr>ctrl := b\<rparr>) ts = ed_rep k ts" "ed_apart (k\<lparr>ctrl := b\<rparr>) = ed_apart k" "k_mem (k\<lparr>ctrl := b\<rparr>) = k_mem k"
  "no_usb (k\<lparr>ctrl := b\<rparr>) = no_usb k"
  by (simp_all add: ed_rep_def ed_apart_def ed_word_def is_shifted_def is_active_def k_mem_def k_con_def no_usb_def)

lemma quick_edit:
  assumes rep: "ed_rep k ([], False)" and a: "ed_apart k" and c: "\<not> ctrl k" and us: "current_layout k = LAYOUT_US"
    and w: "will_type [0x2D, 0x1D, 0x10] k"
  obtains k' where "editor_loop k = Some k'" and "k_mem k' (ed_buffer k) = ch CHR ''x''" and "no_usb k'"
    and "\<forall>ks q. editing k ks q \<and> is_active q \<longrightarrow> position q < EDITOR_BUFFER_SIZE"
proof -
  have codes: "scancode_to_ascii past 0x2D = ch CHR ''x''" "scancode_to_ascii past 0x1D = 5"
    "scancode_to_ascii past 0x10 = ch CHR ''q''" for past
    by (simp_all add: scancode_to_ascii_def scancode_list_def ch_def)
  obtain h1 where r1: "read_key k = Some (ch CHR ''x'', with_hw h1 k)" and w1: "will_type [0x1D, 0x10] (with_hw h1 k)"
    using read_typed [OF w] codes by metis
  have x: "layout_of k False (ch CHR ''x'') = ch CHR ''x''" "layout_of k False (ch CHR ''q'') = ch CHR ''q''"
    by (rule us_letters [OF us], simp add: plain_letter_def us_keys_def ch_def)+
  have hk: "ed_rep (with_hw h1 k) ([], False)" "ed_apart (with_hw h1 k)" "\<not> ctrl (with_hw h1 k)" "ch CHR ''x'' \<noteq> 5"
    "length ([] :: u8 list) < 4095"
    using rep a c by (simp_all add: ch_def)
  obtain k1 where e1: "editor_key (ch CHR ''x'') (with_hw h1 k) = Some k1"
    and p1: "ed_rep k1 ([ch CHR ''x''], False)" and o1: "ed_only (with_hw h1 k) k1"
    using editor_key_refines [OF hk] x(1) by (auto simp: text_step_def ch_def)
  have a1: "ed_apart k1" and c1: "\<not> ctrl k1" and w1': "will_type [0x1D, 0x10] k1"
    using ed_only_sel(1,4) [OF o1] a c ed_only_will_type [OF o1] w1 by simp_all
  obtain h2 where r2: "read_key k1 = Some (5, with_hw h2 k1)" and w2: "will_type [0x10] (with_hw h2 k1)"
    using read_typed [OF w1'] codes by metis
  define k2 where "k2 = set_shifted 0 ((with_hw h2 k1)\<lparr>ctrl := True\<rparr>)"
  have e2: "editor_key 5 (with_hw h2 k1) = Some k2" by (simp add: editor_key_def k2_def)
  have p2: "ed_rep k2 ([ch CHR ''x''], False)"
    using ed_rep_shifted [of "(with_hw h2 k1)\<lparr>ctrl := True\<rparr>" "([ch CHR ''x''], False)" 0] p1 a1 by (simp add: k2_def)
  have w2': "will_type [0x10] k2" using w2 by (simp add: k2_def)
  obtain h3 where r3: "read_key k2 = Some (ch CHR ''q'', with_hw h3 k2)" and w3: "will_type [] (with_hw h3 k2)"
    using read_typed [OF w2'] codes by metis
  have "layout_of k2 = layout_of k1"
    by (rule ext)+ (simp add: layout_of_def layout_char_def k2_def set_shifted_def poke_def with_mem_def with_con_def with_hw_def)
  then have lay: "layout_of k2 = layout_of k" using layout_frame [OF ed_only_frame [OF o1]] by simp
  have c2: "ctrl (with_hw h3 k2)" by (simp add: k2_def set_shifted_def poke_def with_mem_def with_con_def)
  have q: "layout_char (is_shifted (with_hw h3 k2)) (ch CHR ''q'') (with_hw h3 k2) = ch CHR ''q''"
  proof -
    have "\<not> is_shifted (with_hw h3 k2)" using ed_hw(1) [THEN iffD2, OF p2, of h3] unfolding ed_rep_def by simp
    moreover have "layout_of (with_hw h3 k2) False (ch CHR ''q'') = ch CHR ''q''" using lay x(2) by simp
    ultimately show ?thesis unfolding layout_of_def [symmetric] by simp
  qed
  obtain t where t: "write_lit ([CHR 0x0A] @ ''Exited editor. Buffer contents saved.'' @ [CHR 0x0A]) (ed_leave (with_hw h3 k2)) =
      Some (with_term t (ed_leave (with_hw h3 k2)))" using exit_prints by blast
  define k3 where "k3 = with_term t (ed_leave (with_hw h3 k2))"
  have e3: "editor_key (ch CHR ''q'') (with_hw h3 k2) = Some k3"
    using c2 q t by (simp add: editor_key_def k3_def ch_def Let_def del: append_Cons append_Nil)
  have n3: "\<not> is_active k3"
    by (simp add: k3_def ed_leave_def is_active_def set_shifted_def set_active_def)
  have act: "is_active k" "is_active k1" "is_active k2" using rep p1 p2 by (simp_all add: ed_rep_def)
  have "editor_loop k = Some k3"
    using act n3 r1 e1 r2 e2 r3 e3 by (simp add: editor_loop.simps editor_handle_input_def)
  moreover have "k_mem k3 (ed_buffer k) = ch CHR ''x''"
  proof -
    have b: "ed_buffer k2 = ed_buffer k" "shifted_ptr k2 = shifted_ptr k"
      using ed_only_sel(2,3) [OF o1] by (simp_all add: k2_def set_shifted_def poke_def with_mem_def with_con_def with_hw_def)
    have "k_mem k2 (ed_buffer k2 + of_nat 0) = ch CHR ''x''"
      using p2 [unfolded ed_rep_def, THEN conjunct2, THEN conjunct2, THEN conjunct1, rule_format, of 0] by simp
    moreover have "ed_buffer k \<noteq> shifted_ptr k" using a in_rng_of_natI [of 0 4109 "ed_buffer k"] by (auto simp: ed_apart_def)
    ultimately show ?thesis using b
      by (simp add: k3_def ed_leave_def set_shifted_def set_active_def editor_offsets)
  qed
  moreover have "no_usb k3" using w3 by (simp add: k3_def ed_leave_def will_type_def set_shifted_def set_active_def)
  moreover have "position q < EDITOR_BUFFER_SIZE" if ed: "editing k ks q" and ac: "is_active q" for ks q
  proof -
    have pos: "position k = 0" "position k1 = 1" "position k2 = 1" using rep p1 p2 by (simp_all add: ed_rep_def)
    have s3: "q' = k3" if "editing k3 ks' q'" for ks' q'
      using editing_cases [OF that] n3 by blast
    have s2: "q' = k2 \<or> q' = k3" if "editing k2 ks' q'" for ks' q'
      using editing_cases [OF that] r3 e3 s3 by fastforce
    have s1: "q' = k1 \<or> q' = k2 \<or> q' = k3" if "editing k1 ks' q'" for ks' q'
      using editing_cases [OF that] r2 e2 s2 by fastforce
    have "q = k \<or> q = k1 \<or> q = k2 \<or> q = k3"
      using editing_cases [OF ed] r1 e1 s1 by fastforce
    then show ?thesis using pos n3 ac by (auto simp: EDITOR_BUFFER_SIZE_def)
  qed
  ultimately show ?thesis using that by blast
qed

text \<open>A whole session on the sample machine: \<open>edit\<close> and Enter, then \<open>x\<close>, LCtrl and \<open>q\<close>.\<close>

definition edit_codes :: "u8 list" where
  "edit_codes = [0x12, 0x20, 0x17, 0x14] @ 0x1C # [0x2D, 0x1D, 0x10]"

lemma edit_session:
  obtains k' where "session (typing_kernel edit_codes) [Some Edit] k'" and "k_mem k' 0x8000 = ch CHR ''x''"
proof -
  let ?k = "typing_kernel edit_codes" and ?s = "lit ''edit''"
  have pl: "\<forall>c \<in> set ?s. plain_letter c" "length ?s < 256" by (simp_all add: plain_letter_def us_keys_def ch_def)
  obtain k3 es where k3: "prompt_line ?k k3" "will_type [0x2D, 0x1D, 0x10] k3" "typed_to 0x100 ?k es k3"
    "cstr (k_mem k3) 0x100 ?s"
    using word_typed [OF scan_words(6,3) pl, of "[0x2D, 0x1D, 0x10]"] unfolding edit_codes_def by blast
  have f3: "command k3 = 0x100" "arg_array k3 = 0x300" "ed_buffer k3 = 0x8000" "shifted_ptr k3 = 0xC000" "\<not> ctrl k3"
    "current_layout k3 = LAYOUT_US"
    using typed_to_frame [OF k3(3)] by (simp_all add: same_frame_sel typing_kernel_ok)
  have m3: "k_mem k3 a = 0" if "in_rng 0x8000 4109 a \<or> a = 0xC000" for a
  proof -
    have "a \<noteq> NULL \<and> \<not> in_rng 0x100 256 a" using that by (auto simp: in_rng_unat)
    then show ?thesis using typed_to_sel(4) [OF k3(3)] by (simp add: typing_kernel_ok zero_mem_def)
  qed
  have t: "line_words ?s = [?s]" by (simp add: ch_def tokens.simps skip_delims_def first_run_def after_run_def)
  have c: "command k3 \<noteq> NULL" "cstr (k_mem k3) (command k3) ?s" "unat (command k3) + length ?s < 2 ^ 32"
    using k3(4) by (simp_all add: f3)
  have dj: "rng_disj (arg_array k3) (4 * length (line_words ?s)) (command k3) (Suc (length ?s))"
    unfolding t f3 by (rule rng_disj_sym, rule rng_disj_unatI) simp_all
  have few: "length (line_words ?s) \<le> 10" unfolding t by simp
  obtain m1 tk where sl: "split_line k3 = Some (of_nat (length (line_words ?s)), with_mem m1 (k3\<lparr>k_token := tk\<rparr>))"
    and "list_all2 (cstr m1) (pointers_at m1 (arg_array k3) (length (line_words ?s))) (line_words ?s)"
    and fr: "\<forall>a. \<not> in_rng (command k3) (length ?s) a \<and> \<not> in_rng (arg_array k3) (4 * length (line_words ?s)) a \<longrightarrow> m1 a = k_mem k3 a"
    and fc: "line_words ?s \<noteq> [] \<longrightarrow> find_cmd (with_mem m1 (k3\<lparr>k_token := tk\<rparr>)) (arg_at (with_mem m1 (k3\<lparr>k_token := tk\<rparr>)) 0)
      command_names = Some (cmd_of (hd (line_words ?s)))"
    and dp: "dispatch k3 = (if line_words ?s = [] then Some (False, with_mem m1 (k3\<lparr>k_token := tk\<rparr>))
      else run_command (cmd_of (hd (line_words ?s))) (of_nat (length (line_words ?s))) (with_mem m1 (k3\<lparr>k_token := tk\<rparr>)))"
    by (rule dispatch_words [OF c dj few])
  define ka where "ka = with_mem m1 (k3\<lparr>k_token := tk\<rparr>)"
  have cmd: "cmd_of ?s = Edit" by (simp add: cmd_of_names ch_def)
  have s1: "split_line k3 = Some (1, ka)" using sl t by (simp add: ka_def)
  have co: "command_of 1 ka = Some Edit" using fc t cmd by (simp add: command_of_def ka_def)
  have d1: "dispatch k3 = run_command Edit 1 ka" using dp t cmd by (simp add: ka_def)
  have wa: "will_type [0x2D, 0x1D, 0x10] ka" using k3(2) by (simp add: ka_def)
  have fa: "ed_buffer ka = 0x8000" "shifted_ptr ka = 0xC000" "\<not> ctrl ka" "current_layout ka = LAYOUT_US"
    using f3 by (simp_all add: ka_def with_mem_def with_con_def)
  have ma: "k_mem ka a = 0" if "in_rng 0x8000 4109 a \<or> a = 0xC000" for a
  proof -
    have "\<not> in_rng (command k3) (length ?s) a \<and> \<not> in_rng (arg_array k3) (4 * length (line_words ?s)) a"
      using that unfolding t f3 by (auto simp: in_rng_unat)
    then show ?thesis using fr m3 [OF that] by (simp add: ka_def)
  qed
  have ap: "ed_apart ka" by (simp add: ed_apart_def fa in_rng_unat)
  have "message (''Editor started. LCtrl+Q to quit, LCtrl+R to run'' @ [CHR 0x0A])" by (simp add: message_def ch_def)
  from message_text [OF this] obtain u where st: "start_editor ka = Some (with_term u (set_active True ka))"
    unfolding start_editor_def by blast
  define k5 where "k5 = with_term u (set_active True ka)"
  have "\<forall>a. in_rng (ed_buffer ka) 4109 a \<or> a = shifted_ptr ka \<longrightarrow> k_mem ka a = 0" using ma by (simp add: fa)
  from started_rep [OF this ap] have r5: "ed_rep k5 ([], False)" by (simp add: k5_def)
  have w5: "will_type [0x2D, 0x1D, 0x10] k5" using wa by (simp add: k5_def)
  have f5: "ed_buffer k5 = 0x8000" "ed_apart k5" "\<not> ctrl k5" "current_layout k5 = LAYOUT_US"
    using fa ap by (simp_all add: k5_def set_active_def ed_apart_def with_term_def with_con_def poke_def with_mem_def)
  obtain k' where k': "editor_loop k5 = Some k'" "k_mem k' (ed_buffer k5) = ch CHR ''x''" "no_usb k'"
    and fit: "\<forall>ks q. editing k5 ks q \<and> is_active q \<longrightarrow> position q < EDITOR_BUFFER_SIZE"
    by (rule quick_edit [OF r5 f5(2-4) w5])
  have ef: "edit_fits ka" using st fit by (auto simp: edit_fits_def k5_def)
  have d: "dispatch k3 = Some (False, k')"
    using d1 st k'(1) by (simp add: run_command_def cmd_edit_def goes_on_def k5_def)
  have "session ?k (command_of 1 ka # []) k'"
    by (rule session_Cons [OF k3(1) s1 _ ef d session_Nil]) simp
  then show ?thesis using that k'(2) co f5(1) by simp
qed

text \<open>C18. The editor fills \<open>editor.buffer\<close>, the executor reads \<open>editor_buffer\<close>: after any session of
  commands that starts with nothing in the latter, \<open>run\<close> prints that there is no program. The session stays
  within the bounds of the buffers: no line of 256 characters, no eleventh word, never 4096 characters in
  the editor.\<close>

theorem no_program_ever:
  assumes "session k cs k'" and "editor_buffer_pos k = 0"
  shows "cmd_run k' = Some (with_term (fold terminal_putchar no_program (k_term k')) k')"
  using cmd_run_empty session_pos [OF assms(1)] assms(2) by simp

text \<open>Such a session: \<open>edit\<close>, in which an \<open>x\<close> is typed.\<close>

theorem no_program_ever_witness:
  "\<exists>k'. session (typing_kernel edit_codes) [Some Edit] k' \<and> k_mem k' 0x8000 = ch CHR ''x'' \<and>
    cmd_run k' = Some (with_term (fold terminal_putchar no_program (k_term k')) k')"
proof -
  obtain k' where s: "session (typing_kernel edit_codes) [Some Edit] k'" and x: "k_mem k' 0x8000 = ch CHR ''x''"
    by (rule edit_session)
  show ?thesis using no_program_ever [OF s typing_kernel_ok(7)] s x by blast
qed

text \<open>C29. On a bus with a device and with room in the heap, \<open>lsdisks\<close> lists 128 entries in a block of the heap,
  all true of the bus; then it asks \<open>check_type\<close> not about the devices but about port structures that
  \<open>mmap\<close> takes from the heap. While the unused rest of the heap is zero, as it is at the start, and \<open>printk\<close>'s
  buffers lie elsewhere, it counts no AHCI device, whatever is on the bus.\<close>

theorem lsdisks_none:
  assumes "con_ok (k_con k)" and "pci_bus cfg (kb_hw (ms_kb (k_msh k)))" and "present cfg \<noteq> {}"
    and "heap_ok (k_heap k)" and "unat (heap (k_heap k)) + unat HEAP_SIZE < 2 ^ 32"
    and "unat (heap_index (k_heap k)) + 1536 + 128 * 128 \<le> unat HEAP_SIZE"
    and "unat (next_mapping (k_heap k)) + 128 \<le> unat MAX_MAPPINGS"
    and "\<forall>a. heap_rest k a \<longrightarrow> k_mem k a = 0" and "printk_apart k"
  shows "\<exists>l k2. list_disks k = Some (l, k2) \<and> pl_length l = 128 \<and>
    (\<forall>i < 128. entry_ok cfg (device_at (k_mem k2) (entry_ptr (pl_ptr l) i))) \<and>
    fst (count_ahci (pl_length l) 0 (pl_ptr l) 0 k2) = 0"
  by (rule lsdisks_counts_none [OF assms])

definition sample_cfg :: "u32 \<Rightarrow> u32" where
  "sample_cfg a = (if a = config_address 0 0 0 then 0x12378086 else - 1)"

definition pci_ports :: "(u32 \<Rightarrow> u32) \<Rightarrow> io list \<Rightarrow> u16 \<Rightarrow> u32" where
  "pci_ports cfg tr p = (if p = 0xCFC then cfg (selected tr) else 0)"

lemma sample_cfg_ok: "pci_bus sample_cfg (sample_hw (pci_ports sample_cfg))" "(0, 0, 0) \<in> present sample_cfg"
  by (simp_all add: pci_bus_def sample_hw_def pci_ports_def present_def answers_def sample_cfg_def)

theorem lsdisks_none_witness:
  "\<exists>l k2. list_disks (with_hw (sample_hw (pci_ports sample_cfg)) (sample_kernel zero_mem)) = Some (l, k2) \<and>
    pl_length l = 128 \<and> fst (count_ahci 128 0 (pl_ptr l) 0 k2) = 0"
proof -
  let ?k = "with_hw (sample_hw (pci_ports sample_cfg)) (sample_kernel zero_mem)"
  have c: "k_con ?k = sample_console\<lparr>con_mem := zero_mem\<rparr>" and h: "k_heap ?k = sample_heap"
    and b: "pci_bus sample_cfg (kb_hw (ms_kb (k_msh ?k)))"
    using sample_cfg_ok(1)
    by (simp_all add: k_con_def k_heap_def with_hw_def sample_kernel_def sample_msh_def sample_keyboard_def)
  have ok: "con_ok (k_con ?k)" using sample_console_ok by (simp add: c con_ok_def)
  have "rng_disj 0x200000 1048576 0x1000 256" "rng_disj 0x200000 1048576 0x2000 12"
    by (rule rng_disj_sym, rule rng_disj_unatI; simp)+
  then have ap: "printk_apart ?k" by (simp add: printk_apart_def c h) (simp add: sample_heap_def sample_console_def)
  have z: "\<forall>a. heap_rest ?k a \<longrightarrow> k_mem ?k a = 0" by (simp add: sample_kernel_ok zero_mem_def)
  have "present sample_cfg \<noteq> {}" using sample_cfg_ok(2) by blast
  from lsdisks_none [OF ok b this _ _ _ _ z ap] show ?thesis
    using sample_heap_ok(1) unfolding h by (fastforce simp: sample_heap_def MAX_MAPPINGS_def)
qed

section \<open>Properties of the interpreter\<close>

text \<open>C1. A program that is a sequence of assignments of arithmetic expressions runs to its end and succeeds:
  statement \<open>k\<close> fills the \<open>k\<close>-th free entry of the table with its value, as long as 64 entries suffice.\<close>

theorem program_runs:
  assumes "reads (start_run c s) (prog_text ps @ [0])" and "\<forall>p \<in> set ps. stmt_ok p"
    and "map stmt_val ps = map Some vs" and "rng_disj c (length (prog_text ps) + 1) (ident_buf s) 32"
    and "nameless s" and "unat (var_count s) + length ps \<le> 64"
  shows "\<exists>t. msh_execute c s = Some (True, t) \<and> var_count t = var_count s + of_nat (length ps) \<and>
    (\<forall>i. vars t i = (if unat (i - var_count s) < length ps then int_var (vs ! unat (i - var_count s)) else vars s i))"
  by (rule msh_execute_program [OF assms])

definition sample_program :: "stmt list" where
  "sample_program = [Assign (lit ''x'') (lit '' '') (Bin (lit '' '') (lit ''10'') [] (ch CHR ''-'')
     (Bin [] (lit ''2'') [] (ch CHR ''-'') (Num [] (lit ''3'') [])))]"

definition program_mem :: mem where
  "program_mem = store (\<lambda>_. 0) 0x300 (prog_text sample_program @ [0])"

lemma sample_program_ok:
  "\<forall>p \<in> set sample_program. stmt_ok p" "map stmt_val sample_program = map Some [11]"
  "prog_text sample_program = lit ''x = 10-2-3''" "reads (start_run 0x300 (sample_msh program_mem)) (prog_text sample_program @ [0])"
proof -
  show "\<forall>p \<in> set sample_program. stmt_ok p"
    by (simp add: sample_program_def ident_text_def literal_def is_op_def ident_char_def isalnum_def isalpha_def
        isdigit_def isspace_def ch_def)
  show "map stmt_val sample_program = map Some [11]"
    by (simp add: sample_program_def int_op_def ch_def)
  show p: "prog_text sample_program = lit ''x = 10-2-3''" by (simp add: prog_text_def sample_program_def)
  show "reads (start_run 0x300 (sample_msh program_mem)) (prog_text sample_program @ [0])"
    unfolding p program_mem_def
    by (simp add: cur_def ms_mem_def sample_msh_def sample_keyboard_def sample_console_def start_run_def adv_def
        store_def in_rng_def ch_def)
qed

lemma sample_program_disj: "rng_disj 0x300 (length (prog_text sample_program) + 1) (ident_buf (sample_msh m)) 32"
  by (rule rng_disj_unatI) (simp_all add: sample_program_ok(3) sample_msh_def)

theorem program_runs_witness:
  "\<exists>t. msh_execute 0x300 (sample_msh program_mem) = Some (True, t) \<and> vars t 0 = int_var 11"
  using program_runs [OF sample_program_ok(4,1,2) sample_program_disj sample_kernel_ok(5)]
  by (fastforce simp: sample_program_def sample_msh_def)

text \<open>C17. The value of an expression is the one in which every operator takes the whole rest as its right
  operand, in wrapping 32-bit arithmetic: \<open>10-2-3\<close> is 11. The evaluator consumes exactly the expression
  and changes nothing else.\<close>

theorem arithmetic_value:
  assumes "arith_ok e" and "reads s (arith_text e @ [z])" and "arith_val e = Some v"
    and "\<not> isdigit (sint z)" and "\<not> isspace (sint z)" and "\<not> is_op z"
  shows "eval_expr s = Some (int_var v, adv (of_nat (length (arith_text e))) s)"
  by (rule eval_arith [OF assms])

theorem arithmetic_value_witness:
  "eval_expr (adv 3 (start_run 0x300 (sample_msh program_mem))) =
    Some (int_var 11, adv 7 (adv 3 (start_run 0x300 (sample_msh program_mem))))"
proof -
  let ?e = "Bin (lit '' '') (lit ''10'') [] (ch CHR ''-'') (Bin [] (lit ''2'') [] (ch CHR ''-'') (Num [] (lit ''3'') []))"
  have "reads (start_run 0x300 (sample_msh program_mem)) (lit ''x ='' @ arith_text ?e @ [0])"
    using sample_program_ok(4) unfolding sample_program_ok(3) by simp
  then have "reads (adv 3 (start_run 0x300 (sample_msh program_mem))) (arith_text ?e @ [0])"
    by (simp add: reads_append)
  then have "eval_expr (adv 3 (start_run 0x300 (sample_msh program_mem))) =
    Some (int_var 11, adv (of_nat (length (arith_text ?e))) (adv 3 (start_run 0x300 (sample_msh program_mem))))"
    by (rule arithmetic_value [rotated])
       (simp_all add: literal_def is_op_def isdigit_def isspace_def ch_def int_op_def)
  then show ?thesis by simp
qed

text \<open>C10. Only assignments are ever executed: the loop of \<open>msh_execute\<close> is equivalent to one without the
  \<open>print\<close>, \<open>if\<close> and \<open>while\<close> statements, whose keywords start with a letter and are taken for identifiers.\<close>

theorem shell_assignments: "run_code Statements s = run_assignments s"
  by (rule run_code_assignments)

text \<open>C6. Whatever its text, a program that ends has neither printed nor accessed a device (\<open>inw\<close>, \<open>outw\<close> and
  \<open>input\<close> are never reached), and the variable table keeps its invariant: at most 64 entries, none
  with a name.\<close>

theorem shell_quiet:
  assumes "msh_execute c s = Some (ok, t)" and "msh_inv s"
  shows "kb_hw (ms_kb t) = kb_hw (ms_kb s) \<and> con_term (kb_con (ms_kb t)) = con_term (kb_con (ms_kb s)) \<and>
    var_count t \<le> 64 \<and> nameless t \<and> ok = (\<not> had_error t)"
  using msh_execute_inv [OF assms] by (auto simp: same_io_def msh_inv_def)

theorem shell_quiet_witness:
  "\<exists>t. msh_execute 0x300 (sample_msh program_mem) = Some (True, t) \<and> nameless t \<and> \<not> had_error t"
proof -
  obtain t where t: "msh_execute 0x300 (sample_msh program_mem) = Some (True, t)"
    using msh_execute_program [OF sample_program_ok(4,1,2) sample_program_disj sample_kernel_ok(5)]
    by (fastforce simp: sample_program_def sample_msh_def)
  show ?thesis using shell_quiet [OF t sample_kernel_ok(6)] t by blast
qed

text \<open>Every reference to a variable is an error, since the stored names are empty.\<close>

theorem reference_fails:
  assumes "nameless s" and "isalpha (sint (cur s 0))" and "var_reference s = Some (x, t)"
  shows "had_error t \<and> x = Operand zero_var zero_var \<and> vars t = vars s \<and> var_count t = var_count s"
  using var_reference_fails [OF assms] by (simp add: same_vars_def)

theorem reference_fails_witness:
  "\<exists>x t. var_reference (start_run 0x300 (sample_msh program_mem)) = Some (x, t) \<and> had_error t"
proof -
  let ?s = "start_run 0x300 (sample_msh program_mem)"
  have "reads ?s ([ch CHR ''x''] @ [ch CHR '' ''])" using sample_program_ok(4) unfolding sample_program_ok(3) by simp
  moreover have "ident_text [ch CHR ''x'']" "\<not> ident_char (ch CHR '' '')"
    by (simp_all add: ident_text_def ident_char_def isalnum_def isalpha_def isdigit_def ch_def)
  moreover have "buffer_clear ?s (length [ch CHR ''x''] + 1)"
    unfolding buffer_clear_def by (rule rng_disj_unatI) (simp_all add: start_run_def sample_msh_def)
  ultimately obtain t where t: "parse_ident ?s = Some (ident_buf ?s, t)" "ms_mem t (ident_buf ?s) \<noteq> 0"
    using parse_ident_reads by blast
  have n: "nameless ?s" using sample_kernel_ok(5) by (simp add: nameless_def start_run_def)
  have "nameless t" using same_vars_parse [OF t(1)] nameless_same n by blast
  from find_var_None [OF this t(2)] have "var_reference ?s = Some (Operand zero_var zero_var, fail t)"
    using t(1) by (simp add: var_reference_def)
  moreover have "isalpha (sint (cur ?s 0))"
    using sample_program_ok(4) unfolding sample_program_ok(3) by (simp add: isalpha_def ch_def)
  ultimately show ?thesis using reference_fails [OF n] by blast
qed

text \<open>C34. \<open>convert_var\<close> turns an \<open>INT\<close> into a \<open>STR\<close> that points to a fresh block of 32 bytes with the
  decimal text, and this back into the same \<open>INT\<close>, or into the \<open>FLOAT\<close> of the number, where double
  arithmetic is exact on integers of 32 bits.\<close>

theorem convert_roundtrip:
  assumes "vtype v = MSH_TYPE_INT" and "sint (vval v) \<noteq> - (2 ^ 31)"
    and "heap_ok (ms_heap s)" and "unat (heap (ms_heap s)) + unat HEAP_SIZE < 2 ^ 32"
    and "unat (heap_index (ms_heap s)) + 32 \<le> unat HEAP_SIZE" and "exact_ints (f_double (ms_fops s))"
  shows "\<exists>w t. convert_var v MSH_TYPE_STR s = Some (w, t) \<and> vtype w = MSH_TYPE_STR \<and>
    vval w = heap (ms_heap s) + heap_index (ms_heap s) \<and>
    unat (heap_index (ms_heap t)) = unat (heap_index (ms_heap s)) + 32 \<and>
    cstr (ms_mem t) (vval w) (itoa_text 10 (sint (vval v))) \<and>
    (\<forall>a. \<not> in_rng (vval w) 32 a \<longrightarrow> ms_mem t a = ms_mem s a) \<and>
    (\<exists>u. convert_var w MSH_TYPE_INT t = Some (u, t) \<and> vtype u = MSH_TYPE_INT \<and> vval u = vval v) \<and>
    (\<exists>f. convert_var w MSH_TYPE_FLOAT t = Some (f, t) \<and> vtype f = MSH_TYPE_FLOAT \<and>
      vval f = d_float (f_double (ms_fops s)) (d_of_int (f_double (ms_fops s)) (vval v)))"
proof -
  let ?w = "zero_var\<lparr>vtype := MSH_TYPE_STR, vval := heap (ms_heap s) + heap_index (ms_heap s)\<rparr>"
  obtain t where t: "convert_var v MSH_TYPE_STR s = Some (?w, t)"
    "cstr (ms_mem t) (vval ?w) (itoa_text 10 (sint (vval v)))"
    "\<forall>a. \<not> in_rng (vval ?w) 32 a \<longrightarrow> ms_mem t a = ms_mem s a"
    "unat (heap_index (ms_heap t)) = unat (heap_index (ms_heap s)) + 32" "ms_fops t = ms_fops s"
    using convert_int_str [OF assms(1-5)] by auto
  have f: "exact_ints (f_double (ms_fops t))" using assms(6) t(5) by simp
  show ?thesis
    using t convert_str_int [OF _ t(2)] convert_str_float [OF _ t(2) assms(2) f]
    by (intro exI [of _ ?w] exI [of _ t]) (simp add: int_var_def)
qed

theorem convert_roundtrip_witness:
  "\<exists>w t u. convert_var (int_var (- 42)) MSH_TYPE_STR (sample_msh sample_mem) = Some (w, t) \<and> vval w = 0x200000 \<and>
    convert_var w MSH_TYPE_INT t = Some (u, t) \<and> vval u = - 42"
proof -
  have "exact_ints (f_double (ms_fops (sample_msh sample_mem)))"
    using sample_doubles_exact by (simp add: sample_msh_def sample_floats_def)
  moreover have h: "ms_heap (sample_msh sample_mem) = sample_heap" by (simp add: sample_msh_def)
  moreover have "unat (heap sample_heap) + unat HEAP_SIZE < 2 ^ 32" "unat (heap_index sample_heap) + 32 \<le> unat HEAP_SIZE"
    by (simp_all add: sample_heap_def)
  ultimately show ?thesis
    using convert_roundtrip [of "int_var (- 42)" "sample_msh sample_mem"] sample_heap_ok(1)
    by (fastforce simp: int_var_def sample_heap_def)
qed

section \<open>Properties of the drivers\<close>

text \<open>A port at address 0x1000 that holds what is written to it, with a command engine that is idle.\<close>

definition port_regs :: "io list \<Rightarrow> u32 \<Rightarrow> u32" where
  "port_regs tr a = (if a = 0x1018 then 0 else last_write tr a)"

lemma zero_tables: "\<not> valid_rsdp zero_mem p" "\<not> valid_table zero_mem p ''FACP''"
  by (simp_all add: valid_rsdp_def valid_table_def zero_mem_def bytes_at_def upt_rec ch_def)

lemma sample_heap_room: "fst (malloc (128 * 12) sample_heap) \<noteq> NULL"
  by (simp add: malloc_def sample_heap_def HEAP_SIZE_def)

text \<open>C20. The search for the root pointer returns; what it returns is the RSDT address of a structure with
  the right signature and checksum, and it gives up only if there is none, with an address, on a
  16-byte boundary of the BIOS area.\<close>

theorem rsdp_search:
  "\<exists>r. acpiGetRSDPtr m = Some r \<and>
    (r \<noteq> NULL \<longrightarrow> (\<exists>p. valid_rsdp m p \<and> RsdtAddress m p = r)) \<and>
    (r = NULL \<longrightarrow> (\<forall>k < 0x2000. \<not> (valid_rsdp m (0xE0000 + of_nat (16 * k)) \<and>
       RsdtAddress m (0xE0000 + of_nat (16 * k)) \<noteq> NULL)))"
  by (rule get_rsdp)

theorem rsdp_search_witness: "acpiGetRSDPtr zero_mem = Some NULL"
  using rsdp_search [of zero_mem] zero_tables(1) by blast

text \<open>C19. \<open>initAcpi\<close> returns; it reports success exactly with the state that the scan of some valid FACP
  gives, and on failure it leaves the state alone.\<close>

theorem acpi_init:
  assumes "con_ok c"
  shows "\<exists>r st' c'. initAcpi m st c = Some (r, st', c') \<and> con_ok c' \<and>
    (r = 0 \<and> (\<exists>f. valid_table m f ''FACP'' \<and> facp_scan m f st = Inl st') \<or> r = - 1 \<and> st' = st)"
  by (rule initAcpi_result [OF assms])

theorem acpi_init_witness: "\<exists>c'. initAcpi zero_mem sample_acpi sample_console = Some (- 1, sample_acpi, c')"
  using acpi_init [OF sample_console_ok, of zero_mem sample_acpi] zero_tables(2) by auto

text \<open>C7. When the DSDT is valid and holds the name \<open>_S5_\<close> early enough (not at its last position, which the
  test \<open>dsdtLength > 0\<close> rejects) with the right AML around it, the scan succeeds with the values read
  at the first occurrence; otherwise it fails.\<close>

theorem s5_values:
  assumes "valid_table m (facp_DSDT m facp) ''DSDT''"
    and "sint (load32 m (facp_DSDT m facp + 4) - 36) = int n"
  shows "facp_scan m facp st = Inl st' \<longleftrightarrow>
    (\<exists>k. k + 1 < n \<and> s5_at m (facp_DSDT m facp + 36 + of_nat k) \<and>
      (\<forall>j < k. \<not> s5_at m (facp_DSDT m facp + 36 + of_nat j)) \<and>
      aml_ok m (facp_DSDT m facp + 36 + of_nat k) \<and>
      st' = s5_parse m facp (facp_DSDT m facp + 36 + of_nat k) st)"
  by (rule facp_scan_iff [OF assms])

text \<open>A FACP at 0x100 and its DSDT of 48 bytes at 0x200: the header, then \<open>Name (_S5_, Package {5, 5})\<close>.\<close>

definition s5_dsdt :: "u8 list" where
  "s5_dsdt = lit ''DSDT'' @ [48, 0, 0, 0, 0, 25] @ replicate 26 0 @ [8] @ lit ''_S5_'' @ [0x12, 6, 4, 0x0A, 5, 0x0A, 5]"

definition s5_mem :: mem where
  "s5_mem = store32 (store zero_mem 0x200 s5_dsdt) (0x100 + 40) 0x200"

lemma s5_mem_ok: "facp_DSDT s5_mem 0x100 = 0x200" "bytes_at s5_mem 0x200 48 = s5_dsdt"
proof -
  show "facp_DSDT s5_mem 0x100 = 0x200" by (simp add: facp_DSDT_def table_members s5_mem_def mem_simps)
  have "length s5_dsdt = 48" by (simp add: s5_dsdt_def)
  moreover have "s5_mem (0x200 + of_nat i) = s5_dsdt ! i" if "i < 48" for i
  proof -
    have "\<not> in_rng (0x100 + 40) 4 (0x200 + of_nat i)"
      using that by (simp add: in_rng_unat unat_word_ariths unat_of_nat32)
    then show ?thesis
      using that calculation by (simp add: s5_mem_def mem_simps)
  qed
  ultimately show "bytes_at s5_mem 0x200 48 = s5_dsdt" by (intro bytes_at_eqI) simp_all
qed

theorem s5_values_witness: "\<exists>st. facp_scan s5_mem 0x100 sample_acpi = Inl st \<and> SLP_TYPa st = 0x1400"
proof -
  have at: "s5_mem (0x200 + of_nat i) = s5_dsdt ! i" if "i < 48" for i
    using arg_cong [OF s5_mem_ok(2), of "\<lambda>xs. xs ! i"] that by simp
  have len: "load32 s5_mem (0x200 + 4) = 48"
    using at [of 4] at [of 5] at [of 6] at [of 7] by (simp add: load32_def s5_dsdt_def)
  have v: "valid_table s5_mem (facp_DSDT s5_mem 0x100) ''DSDT''"
  proof -
    have "bytes_at s5_mem 0x200 4 = take 4 (bytes_at s5_mem 0x200 48)"
      by (simp add: bytes_at_def take_map)
    moreover have "nat (sint (load32 s5_mem (0x200 + 4))) = 48" unfolding len by simp
    ultimately show ?thesis unfolding valid_table_def s5_mem_ok by (simp add: s5_mem_ok s5_dsdt_def ch_def sum_list_replicate)
  qed
  have s5: "s5_at s5_mem (0x200 + 36 + of_nat k) = (k = 1)" if "k \<le> 1" for k
    using at [of "36 + k"] at [of "37 + k"] at [of "38 + k"] at [of "39 + k"] that
    by (cases k) (simp_all add: s5_at_def bytes_at_def upt_rec s5_dsdt_def ch_def nth_append)
  have n: "sint (load32 s5_mem (facp_DSDT s5_mem 0x100 + 4) - 36) = int 12" unfolding s5_mem_ok len by simp
  have "aml_ok s5_mem (0x200 + 37)"
    using at [of 36] at [of 35] at [of 41] by (simp add: aml_ok_def s5_dsdt_def nth_append)
  then have "facp_scan s5_mem 0x100 sample_acpi = Inl (s5_parse s5_mem 0x100 (0x200 + 37) sample_acpi)"
    using s5_values [OF v n, of sample_acpi] s5 [of 1] s5 [of 0] by (auto simp: s5_mem_ok intro!: exI [of _ 1])
  moreover have "SLP_TYPa (s5_parse s5_mem 0x100 (0x200 + 37) sample_acpi) = 0x1400"
    using at [of 42] at [of 43] at [of 44] at [of 45]
    by (simp add: s5_parse_def slp_typ_def skip_prefix_def Let_def s5_dsdt_def nth_append)
  ultimately show ?thesis by blast
qed

text \<open>C26. With ACPI enabled, switching off writes the sleep type and the enable bit to the first control port and
  then, if there is one, to the second; these are its only writes to the machine.\<close>

theorem power_off_writes:
  assumes "con_ok c" and "SCI_EN st \<noteq> 0" and "fst (sci_read (PM1a_CNT st) st h) \<noteq> 0"
  shows "\<exists>h' c'. acpiPowerOff fn ck st h c = Some (h', c') \<and>
    writes h' = writes h @ OutW (ucast (PM1a_CNT st)) (SLP_TYPa st OR SLP_EN st) #
      (if PM1b_CNT st \<noteq> 0 then [OutW (ucast (PM1b_CNT st)) (SLP_TYPb st OR SLP_EN st)] else [])"
  by (rule power_off_on [OF assms])

theorem power_off_writes_witness:
  "\<exists>h' c'. acpiPowerOff 0 \<lparr>ticks = 0\<rparr> sample_acpi (sample_hw (\<lambda>_ _. 1)) sample_console = Some (h', c') \<and>
    writes h' = [OutW 0x604 0x3400]"
proof -
  have "fst (sci_read (PM1a_CNT sample_acpi) sample_acpi (sample_hw (\<lambda>_ _. 1))) \<noteq> 0" "SCI_EN sample_acpi \<noteq> 0"
    by (simp_all add: sci_read_def inw_def sample_hw_def sample_acpi_def Let_def)
  from power_off_writes [OF sample_console_ok this(2,1)] show ?thesis
    by (simp add: sample_acpi_def sample_hw_def writes_def)
qed

text \<open>C3. As soon as the bus has one device, the enumeration returns with its table full: the block that
  \<open>malloc\<close> gave, when it does not meet \<open>printk\<close>'s buffers, holds 128 entries that are all true of the bus,
  and nothing else is written but these buffers. Since the loop over the buses never ends, it lists devices
  again and again, so that with fewer than 128 functions some are there twice.\<close>

theorem pci_full:
  assumes "con_ok c" and "pci_bus cfg h" and "malloc (128 * 12) hp = (p, hp1)" and "p \<noteq> NULL" and "present cfg \<noteq> {}"
    and "rng_disj p 1536 (con_buf c) 256" and "rng_disj p 1536 (con_num c) 12"
  shows "\<exists>l h' c'. pci_enumerate_devices h c hp = Some (l, h', c', hp1) \<and> pl_ptr l = p \<and> pl_length l = 128 \<and>
    (\<forall>i < 128. entry_ok cfg (device_at (con_mem c') (entry_ptr p i))) \<and>
    (\<forall>a. \<not> in_rng p 1536 a \<and> \<not> in_rng (con_buf c) 256 a \<and> \<not> in_rng (con_num c) 12 a \<longrightarrow> con_mem c' a = con_mem c a) \<and>
    (card (present cfg) < 128 \<longrightarrow> (\<exists>i j. i < j \<and> j < 128 \<and>
       (let d = device_at (con_mem c') (entry_ptr p i); e = device_at (con_mem c') (entry_ptr p j) in
        pd_bus d = pd_bus e \<and> pd_device d = pd_device e \<and> pd_function d = pd_function e)))"
proof -
  have a: "array_apart p c" using assms(6,7) by (simp add: array_apart_def)
  obtain h' c' where r: "pci_enumerate_devices h c hp = Some (\<lparr>pl_ptr = p, pl_length = 128\<rparr>, h', c', hp1)"
    and e: "\<forall>i < 128. entry_ok cfg (device_at (con_mem c') (entry_ptr p i))" and f: "pci_frame p c c'"
    using pci_enumerate_full [OF assms(1-5)] a by blast
  show ?thesis
    using r e f pci_duplicates [OF e] by (intro exI [of _ "\<lparr>pl_ptr = p, pl_length = 128\<rparr>"] exI [of _ h'] exI [of _ c'])
      (simp add: pci_frame_def Let_def)
qed

lemma sample_heap_block: "malloc (128 * 12) sample_heap = (0x200000, sample_heap\<lparr>heap_index := 1536\<rparr>)"
  by (simp add: malloc_def sample_heap_def HEAP_SIZE_def)

theorem pci_full_witness:
  "\<exists>l h' c' hp'. pci_enumerate_devices (sample_hw (pci_ports sample_cfg)) sample_console sample_heap =
    Some (l, h', c', hp') \<and> pl_length l = 128 \<and> entry_ok sample_cfg (device_at (con_mem c') (entry_ptr 0x200000 127))"
proof -
  have "rng_disj 0x200000 1536 (con_buf sample_console) 256" "rng_disj 0x200000 1536 (con_num sample_console) 12"
    by (rule rng_disj_sym, rule rng_disj_unatI; simp add: sample_console_def)+
  from pci_full [OF sample_console_ok sample_cfg_ok(1) sample_heap_block _ _ this] sample_cfg_ok(2) show ?thesis
    by fastforce
qed

text \<open>C27. On a bus without devices the enumeration does not return: the counter of buses is a byte, and always
  less than 256.\<close>

theorem pci_hangs:
  assumes "con_ok c" and "pci_bus cfg h" and "fst (malloc (128 * 12) hp) \<noteq> NULL" and "present cfg = {}"
  shows "pci_enumerate_devices h c hp = None"
  by (rule pci_enumerate_diverges [OF assms])

theorem pci_hangs_witness:
  "pci_enumerate_devices (sample_hw (pci_ports (\<lambda>_. - 1))) sample_console sample_heap = None"
  by (rule pci_hangs [OF sample_console_ok _ sample_heap_room, where cfg = "\<lambda>_. - 1"])
     (simp_all add: pci_bus_def pci_ports_def sample_hw_def present_def answers_def)

text \<open>C28. The USB driver's initialisation never returns: the configuration space is read through 8-bit ports,
  so the class byte is always zero, no controller is ever found, and the byte counter of buses
  never reaches its bound.\<close>

theorem usb_hangs: "usb_driver_init junk buf s = None"
  by (rule usb_driver_init_diverges)

text \<open>C22. A key that the controller reports at the \<open>n\<close>-th poll, below 10000, is read and translated, with
  \<open>n + 1\<close> reads of the status port before the read of the data port; if no poll finds one the result is 0.\<close>

theorem ps2_key:
  assumes "\<forall>j < n. \<not> output_full j (kb_hw k)" and "n < 10000 \<longrightarrow> output_full n (kb_hw k)" and "n \<le> 10000"
  shows "ps2_keyboard_read_data k =
    (if n < 10000
     then (scancode_to_ascii (past_scancodes k) (fst (inb PS2_DATA_PORT (polled (Suc n) (kb_hw k)))),
       k\<lparr>kb_hw := snd (inb PS2_DATA_PORT (polled (Suc n) (kb_hw k)))\<rparr>)
     else (0, k\<lparr>kb_hw := polled 10000 (kb_hw k)\<rparr>))"
  using ps2_read_data_ready [of n k] ps2_read_data_timeout [of k] assms by auto

theorem ps2_key_witness: "fst (ps2_keyboard_read_data sample_keyboard) = 4"
proof -
  have "output_full 0 (kb_hw sample_keyboard)"
    by (simp add: output_full_def sample_keyboard_def sample_hw_def enter_ports_def inb_def
        PS2_STATUS_PORT_def PS2_STATUS_OUTPUT_FULL_def)
  then show ?thesis using ps2_key [of 0 sample_keyboard]
    by (simp add: sample_keyboard_def sample_hw_def enter_ports_def inb_def PS2_DATA_PORT_def PS2_STATUS_PORT_def
        scancode_to_ascii_def scancode_list_def)
qed

text \<open>C8. After \<open>port_rebase\<close> on an idle port \<open>n\<close> below 32, command header \<open>j\<close>, at 4 MB + \<open>n\<close> KB + 32\<open>j\<close>, points
  to the table at 4 MB + 40 KB + 8\<open>n\<close> KB + 256\<open>j\<close>, which is cleared, with room for eight entries; so that no two
  headers share a byte of their tables.\<close>

theorem port_layout:
  assumes "n < 32" and "engine_idle p h" and "holds_writes p h"
  shows "\<exists>h' m'. port_rebase p (of_nat n) h m = Some (h', m') \<and>
    (\<forall>j < 32. let hdr = of_nat (0x400000 + 1024 * n + 32 * j) in
       get_ctba m' hdr = of_nat (0x40A000 + 8192 * n + 256 * j) \<and> get_prdtl m' hdr = 8 \<and>
       (\<forall>a. in_rng (get_ctba m' hdr) 256 a \<longrightarrow> m' a = 0)) \<and>
    (\<forall>i j. i < j \<and> j < 32 \<longrightarrow> rng_disj (get_ctba m' (of_nat (0x400000 + 1024 * n + 32 * i))) 256
       (get_ctba m' (of_nat (0x400000 + 1024 * n + 32 * j))) 256)"
proof -
  obtain h' m' where r: "port_rebase p (of_nat n) h m = Some (h', m')" and s: "\<forall>j < 32. slot_ready n j m'"
    using port_rebase_layout [OF assms] by blast
  have s': "slot_ready n (of_nat j) m'" if "j < 32" for j
    using s that by (simp add: word_less_nat_alt unat_of_nat32)
  note t = slot_ready_table [OF assms(1) _ s']
  show ?thesis
  proof (intro exI conjI allI impI)
    show "port_rebase p (of_nat n) h m = Some (h', m')" by (rule r)
    show "let hdr = of_nat (0x400000 + 1024 * n + 32 * j) in
       get_ctba m' hdr = of_nat (0x40A000 + 8192 * n + 256 * j) \<and> get_prdtl m' hdr = 8 \<and>
       (\<forall>a. in_rng (get_ctba m' hdr) 256 a \<longrightarrow> m' a = 0)" if "j < 32" for j
      unfolding Let_def t(1) [OF that that] using t(2,3) [OF that that] by blast
    show "rng_disj (get_ctba m' (of_nat (0x400000 + 1024 * n + 32 * i))) 256
       (get_ctba m' (of_nat (0x400000 + 1024 * n + 32 * j))) 256" if "i < j \<and> j < 32" for i j
    proof -
      have i: "i < 32" and j: "j < 32" and ij: "i < j" using that by simp_all
      show ?thesis unfolding t(1) [OF i i] t(1) [OF j j] by (rule tables_disjoint [OF assms(1) ij j])
    qed
  qed
qed

theorem port_layout_witness:
  "\<exists>h' m'. port_rebase 0x1000 3 \<lparr>trace = [], dev_port = (\<lambda>_ _. 0), dev_reg = port_regs\<rparr> sample_mem = Some (h', m') \<and>
    get_ctba m' (of_nat (0x400000 + 1024 * 3 + 32 * 31)) = of_nat (0x40A000 + 8192 * 3 + 256 * 31)"
proof -
  have "engine_idle 0x1000 \<lparr>trace = [], dev_port = (\<lambda>_ _. 0), dev_reg = port_regs\<rparr>"
    "holds_writes 0x1000 \<lparr>trace = [], dev_port = (\<lambda>_ _. 0), dev_reg = port_regs\<rparr>"
    by (auto simp: engine_idle_def holds_writes_def port_regs_def port_offsets)
  from port_layout [of 3, OF _ this, of sample_mem]
  obtain h' m' where r: "port_rebase 0x1000 (of_nat 3) \<lparr>trace = [], dev_port = (\<lambda>_ _. 0), dev_reg = port_regs\<rparr> sample_mem = Some (h', m')"
    and t: "\<forall>j < 32. let hdr = of_nat (0x400000 + 1024 * 3 + 32 * j) in
       get_ctba m' hdr = of_nat (0x40A000 + 8192 * 3 + 256 * j) \<and> get_prdtl m' hdr = 8 \<and>
       (\<forall>a. in_rng (get_ctba m' hdr) 256 a \<longrightarrow> m' a = 0)" by auto
  from t [rule_format, of 31] r show ?thesis by (intro exI [of _ h'] exI [of _ m']) (simp add: Let_def)
qed

text \<open>A slot that \<open>find_cmdslot\<close> finds is free, and the first free one; but, since the loop compares its
  counter with the bitmap, it also lies below some busy slot.\<close>

theorem slot_free:
  assumes "slot_loop 0 S = Some j"
  shows "\<exists>k < 32. j = of_nat k \<and> \<not> bit S k \<and> (\<forall>l < k. bit S l) \<and> (\<exists>l > k. bit S l)"
  by (rule slot_sound [OF assms])

theorem slot_free_witness: "\<exists>k < 32. (1 :: u32) = of_nat k \<and> \<not> bit (0b1101 :: u32) k"
proof -
  have "slot_loop 0 0b1101 = Some 1" by (simp add: slot_loop.simps)
  from slot_free [OF this] show ?thesis by blast
qed

text \<open>C23. So \<open>read\<close> fails on every port whose busy slots are the first \<open>k\<close>, and in particular on an idle one.\<close>

theorem read_fails:
  assumes "\<forall>tr. dev_reg h tr (p + off_sact) = x" and "\<forall>tr. dev_reg h tr (p + off_ci) = y"
    and "x OR y = mask k" and "con_ok c"
  shows "\<exists>h' c'. read_sectors p startl starth count buf h c = Some (False, h', c')"
  by (rule read_prefix_fails [OF assms])

theorem read_fails_witness:
  "\<exists>h' c'. read_sectors 0x1000 0 0 1 0x8000 (sample_hw enter_ports) sample_console = Some (False, h', c')"
  by (rule read_fails [where x = 0 and y = 0 and k = 0]) (simp_all add: sample_hw_def sample_console_ok)

text \<open>C9. The command that \<open>read\<close> builds has the right FIS, with the block address and the count in their
  bytes; but the buffer's address goes to the second entry of the table, and the first stays empty.\<close>

theorem command_built:
  assumes "prdt_count count \<noteq> 0" and "build_command hdr sl sh count buf m = Some m'" and "tbl = get_ctba m hdr"
  shows "m' tbl = 0x27 \<and> m' (tbl + 1) = 0x80 \<and> m' (tbl + 2) = 0x25 \<and> fis_lba_low m' tbl = sl \<and>
    fis_lba_high m' tbl = ucast sh \<and> fis_count m' tbl = ucast count \<and> load32 m' (tbl + 0x90) = buf \<and>
    (\<forall>a. in_rng (tbl + 0x80) 16 a \<longrightarrow> m' a = 0)"
  using build_command_result [OF assms(1,2)] assms(3) by simp

theorem command_built_witness:
  "\<exists>m'. build_command 0x400000 7 0 1 0x8000 (store32 zero_mem 0x400008 0x40A000) = Some m' \<and>
    fis_lba_low m' 0x40A000 = 7"
proof -
  have "prdt_count 1 \<noteq> 0" by (simp add: prdt_count_def)
  moreover obtain m' where m': "build_command 0x400000 7 0 1 0x8000 (store32 zero_mem 0x400008 0x40A000) = Some m'"
    by (simp add: build_command_eq Let_def)
  moreover have "get_ctba (store32 zero_mem 0x400008 0x40A000) 0x400000 = 0x40A000"
    by (simp add: get_ctba_def mem_simps)
  ultimately show ?thesis using command_built [OF _ m'] by simp
qed

text \<open>C16. The command FIS in terms of the declaration of \<open>FIS_REG_H2D\<close>: each member that the code assigns has
  its value at the offset that the layout of the structure gives it, the command bit is set, and no
  byte outside the structure changes.\<close>

theorem fis_fields:
  assumes "m' = write_fis f startl starth count m"
  shows "list_all (\<lambda>(n, v). m' (f + of_nat (offsetof FIS_REG_H2D n)) = v)
      [(''fis_type'', 0x27), (''command'', 0x25), (''lba0'', ucast startl), (''lba1'', ucast (drop_bit 8 startl)),
       (''lba2'', ucast (drop_bit 16 startl)), (''device'', 0x40), (''lba3'', ucast (drop_bit 24 startl)),
       (''lba4'', ucast starth), (''lba5'', ucast (drop_bit 8 starth)), (''countl'', ucast count),
       (''counth'', ucast (drop_bit 8 count))] \<and>
    bit (m' (f + 1)) 7 \<and> (\<forall>a. \<not> in_rng f (sizeof FIS_REG_H2D) a \<longrightarrow> m' a = m a)"
proof (intro conjI allI impI)
  show "bit (m' (f + 1)) 7" unfolding assms write_fis_bytes by (simp add: bit_simps)
  show "m' a = m a" if "\<not> in_rng f (sizeof FIS_REG_H2D) a" for a
    unfolding assms using that in_rng_mono [of f 14 a 20] by (auto simp: struct_sizes intro: write_fis_outside)
qed (unfold list_all_iff assms, blast dest: write_fis_declared)

theorem fis_fields_witness: "write_fis 0x1000 0x12345678 0 1 zero_mem 0x1005 = 0x56"
  using fis_fields [OF refl, of "0x1000" "0x12345678" 0 1 zero_mem] by (simp add: fis_members)

text \<open>C33. \<open>sleep\<close> compares the address of \<open>get_time_in_seconds\<close> with the target time: it returns only if
  the two happen to be equal, and otherwise hangs, whatever the clock does.\<close>

theorem sleep_returns:
  "sleep fn duration c \<noteq> None \<longleftrightarrow> fn = get_time_in_seconds c + word_of_int (sint duration sdiv 100)"
  by (rule sleep_returns_iff)

text \<open>C32. After \<open>n\<close> timer interrupts the three system calls give the ticks, the whole seconds at 18 ticks
  each and the whole minutes, as long as the 32-bit counter has not wrapped; other numbers give -1.\<close>

theorem clock_calls:
  assumes "unat (ticks c) + n < 2 ^ 32" and "c' = (timer_interrupt_handler ^^ n) c"
  shows "unat (syscall_handler 1 arg c') = unat (ticks c) + n \<and>
    unat (syscall_handler 2 arg c') = (unat (ticks c) + n) div 18 \<and>
    unat (syscall_handler 3 arg c') = (unat (ticks c) + n) div 1080 \<and>
    (k \<notin> {1, 2, 3} \<longrightarrow> syscall_handler k arg c' = - 1)"
proof -
  have "unat (ticks c') = unat (ticks c) + n"
    using assms unat_of_nat32 [of "unat (ticks c) + n"] by (simp add: ticks_after)
  then show ?thesis
    by (simp add: syscall_handler_def get_time_def seconds_eq minutes_eq div_mult2_eq [symmetric])
qed

theorem clock_calls_witness: "unat (syscall_handler 2 0 ((timer_interrupt_handler ^^ 40) \<lparr>ticks = 0\<rparr>)) = 2"
  using clock_calls [of "\<lparr>ticks = 0\<rparr>" 40] by simp

end
